(* ===== verification/Prelude.thy ===== *)
theory Prelude
  imports Main "HOL-Library.Word"
begin

unbundle bit_operations_syntax

text \<open>
  What every component of the model shares: the machine integers of the Rust source, byte
  strings, the \<open>Result\<close> type, big-endian integers (\<open>to_be_bytes\<close>, \<open>from_be_bytes\<close>),
  saturating arithmetic on \<open>u64\<close>, and \<open>slice::chunks\<close>.  Lengths and indices
  (\<open>usize\<close>) are natural numbers; every subtraction of two of them in the source is guarded or
  saturating, which is what subtraction on \<open>nat\<close> does.  Values on the wire keep their width.
\<close>

section \<open>Collections of rewrite rules\<close>

named_theorems wire_simps \<open>sizes and round trips of the fixed-width fields\<close>
named_theorems step_simps \<open>fields an operation leaves alone\<close>

section \<open>Machine integers, byte strings, results\<close>

type_synonym u8 = "8 word"
type_synonym u16 = "16 word"
type_synonym u32 = "32 word"
type_synonym u64 = "64 word"
type_synonym bytes = "u8 list"

text \<open>A Rust \<open>&str\<close> is its bytes; that they are valid UTF-8 is a predicate of its own.\<close>

type_synonym rstr = "bytes"

datatype ('a, 'e) res = Ok 'a | Err 'e

fun and_then :: "('a, 'e) res \<Rightarrow> ('a \<Rightarrow> ('b, 'e) res) \<Rightarrow> ('b, 'e) res" where
  "and_then (Ok x) f = f x"
| "and_then (Err e) f = Err e"

fun is_ok :: "('a, 'e) res \<Rightarrow> bool" where
  "is_ok (Ok x) = True"
| "is_ok (Err e) = False"

lemma and_then_eq_Ok: "and_then r f = Ok y \<longleftrightarrow> (\<exists>x. r = Ok x \<and> f x = Ok y)"
  by (cases r) auto

lemma and_then_assoc: "and_then (and_then r f) g = and_then r (\<lambda>x. and_then (f x) g)"
  by (cases r) auto

section \<open>Big-endian integers\<close>

text \<open>\<open>nat_be n x\<close> is the low \<open>n\<close> bytes of \<open>x\<close>, most significant first.\<close>

fun nat_be :: "nat \<Rightarrow> nat \<Rightarrow> bytes" where
  "nat_be 0 x = []"
| "nat_be (Suc n) x = nat_be n (x div 256) @ [of_nat (x mod 256)]"

definition be_nat :: "bytes \<Rightarrow> nat" where
  "be_nat bs = foldl (\<lambda>a b. a * 256 + unat b) 0 bs"

lemma be_nat_Nil [simp]: "be_nat [] = 0"
  by (simp add: be_nat_def)

lemma be_nat_snoc [simp]: "be_nat (bs @ [b]) = be_nat bs * 256 + unat b"
  by (simp add: be_nat_def)

lemma length_nat_be [simp, wire_simps]: "length (nat_be n x) = n"
  by (induction n arbitrary: x) auto

lemma unat_u8_less [simp]: "unat (b :: u8) < 256"
  using unsigned_less [of b] by simp

lemma unat_of_nat_u8 [simp]: "unat (of_nat (x mod 256) :: u8) = x mod 256"
  by (simp add: unat_of_nat)

lemma unat_of_nat_small:
  assumes "n < 2 ^ LENGTH('a::len)"
  shows "unat (of_nat n :: 'a word) = n"
  using assms by (simp add: unat_of_nat)

lemma be_nat_nat_be: "be_nat (nat_be n x) = x mod 256 ^ n"
proof (induction n arbitrary: x)
  case 0
  then show ?case by simp
next
  case (Suc n)
  have "be_nat (nat_be (Suc n) x) = (x div 256) mod 256 ^ n * 256 + x mod 256"
    using Suc by simp
  also have "\<dots> = x mod (256 * 256 ^ n)"
    by (simp add: mod_mult2_eq)
  finally show ?case by simp
qed

lemma nat_be_be_nat: "nat_be (length bs) (be_nat bs) = bs"
proof (induction bs rule: rev_induct)
  case Nil
  then show ?case by simp
next
  case (snoc b bs)
  have "(be_nat bs * 256 + unat b) div 256 = be_nat bs" by simp
  moreover have "(of_nat ((be_nat bs * 256 + unat b) mod 256) :: u8) = b"
    by simp
  ultimately show ?case using snoc by simp
qed

lemma be_nat_less: "be_nat bs < 256 ^ length bs"
proof -
  have "be_nat bs = be_nat (nat_be (length bs) (be_nat bs))"
    by (simp add: nat_be_be_nat)
  also have "\<dots> < 256 ^ length bs" by (simp add: be_nat_nat_be)
  finally show ?thesis .
qed

text \<open>A word of \<open>n\<close> bytes, as \<open>to_be_bytes\<close> and \<open>from_be_bytes\<close> move it.\<close>

definition word_be :: "nat \<Rightarrow> 'a::len word \<Rightarrow> bytes" where
  "word_be n w = nat_be n (unat w)"

definition be_word :: "bytes \<Rightarrow> 'a::len word" where
  "be_word bs = of_nat (be_nat bs)"

lemma length_word_be [simp, wire_simps]: "length (word_be n w) = n"
  by (simp add: word_be_def)

lemma be_word_word_be:
  assumes "256 ^ n = (2 :: nat) ^ LENGTH('a::len)"
  shows "be_word (word_be n w) = (w :: 'a word)"
proof -
  have "unat w < 256 ^ n" using unsigned_less [of w] assms by simp
  then show ?thesis by (simp add: be_word_def word_be_def be_nat_nat_be)
qed

lemma word_be_be_word:
  assumes "256 ^ length bs = (2 :: nat) ^ LENGTH('a::len)" and "n = length bs"
  shows "word_be n (be_word bs :: 'a word) = bs"
proof -
  have "be_nat bs < 2 ^ LENGTH('a)" using be_nat_less [of bs] assms by simp
  then have "unat (of_nat (be_nat bs) :: 'a word) = be_nat bs"
    by (simp add: unat_of_nat)
  then show ?thesis
    using assms by (simp add: word_be_def be_word_def nat_be_be_nat)
qed

section \<open>Arithmetic on stream offsets\<close>

text \<open>Rust's \<open>u64::saturating_add\<close> of a length, and the plain \<open>+ len as u64\<close>, which wraps.\<close>

definition sat_add64 :: "u64 \<Rightarrow> nat \<Rightarrow> u64" where
  "sat_add64 a n = (if unat a + n < 2 ^ 64 then a + of_nat n else - 1)"

lemma unat_add_of_nat:
  assumes "unat (a :: u64) + n < 2 ^ 64"
  shows "unat (a + of_nat n) = unat a + n"
proof -
  have "unat (of_nat n :: u64) = n" using assms by (simp add: unat_of_nat)
  then show ?thesis using assms by (simp add: unat_word_ariths)
qed

lemma unat_max64: "unat (- 1 :: u64) = 2 ^ 64 - 1"
  by (simp add: unsigned_minus_1_eq_mask mask_eq_exp_minus_1)

lemma unat_sat_add64: "unat (sat_add64 a n) = min (unat a + n) (2 ^ 64 - 1)"
proof (cases "unat a + n < 2 ^ 64")
  case True
  then show ?thesis using unat_add_of_nat [OF True] by (simp add: sat_add64_def)
next
  case False
  then show ?thesis unfolding sat_add64_def by (simp only: if_False unat_max64)
qed

lemma unat_diff64:
  assumes "(b :: u64) \<le> a"
  shows "unat (a - b) = unat a - unat b"
  using assms by (simp add: unat_sub)

text \<open>\<open>usize::saturating_add\<close>, \<open>u64::saturating_sub\<close> read as a length.\<close>

definition usize_sat_add :: "nat \<Rightarrow> nat \<Rightarrow> nat" where
  "usize_sat_add a b = min (a + b) (2 ^ 64 - 1)"

definition sat_sub64 :: "u64 \<Rightarrow> u64 \<Rightarrow> nat" where
  "sat_sub64 a b = unat a - unat b"

section \<open>Slices\<close>

text \<open>\<open>slice::chunks\<close>; the source only ever asks for a positive size.\<close>

function chunks :: "nat \<Rightarrow> 'a list \<Rightarrow> 'a list list" where
  "chunks n xs = (if xs = [] \<or> n = 0 then [] else take n xs # chunks n (drop n xs))"
  by pat_completeness auto
termination
  by (relation "measure (\<lambda>(n, xs). length xs)") auto

declare chunks.simps [simp del]

lemma concat_chunks: "0 < n \<Longrightarrow> concat (chunks n xs) = xs"
proof (induction n xs rule: chunks.induct)
  case (1 n xs)
  then show ?case by (subst chunks.simps) auto
qed

lemma chunks_bounds: "c \<in> set (chunks n xs) \<Longrightarrow> c \<noteq> [] \<and> length c \<le> n"
proof (induction n xs rule: chunks.induct)
  case (1 n xs)
  show ?case
  proof (cases "xs = [] \<or> n = 0")
    case True
    then show ?thesis using "1.prems" by (simp add: chunks.simps [of n xs])
  next
    case False
    then show ?thesis using "1.prems" "1.IH" [OF False] by (auto simp: chunks.simps [of n xs])
  qed
qed

section \<open>Time\<close>

text \<open>Times are nanoseconds of the monotonic clock, as \<open>Instant\<close> and \<open>Duration\<close> count.\<close>

definition millis :: "nat \<Rightarrow> nat" where
  "millis n = n * 1000000"

definition secs :: "nat \<Rightarrow> nat" where
  "secs n = n * 1000000000"

text \<open>The clock: the last reading, and by how much each next reading is later.\<close>

type_synonym clock = "nat \<times> nat list"

fun clock_now :: "clock \<Rightarrow> nat \<times> clock" where
  "clock_now (t, []) = (t, (t, []))"
| "clock_now (t, d # ds) = (t + d, (t + d, ds))"

lemma clock_now_mono: "clock_now ck = (t, ck') \<Longrightarrow> fst ck \<le> t \<and> fst ck' = t"
  by (cases ck rule: clock_now.cases) auto

text \<open>\<open>thread::sleep\<close>: at least as long as asked.\<close>

definition clock_sleep :: "nat \<Rightarrow> clock \<Rightarrow> clock" where
  "clock_sleep n ck = (fst ck + n, snd ck)"

section \<open>Runs of a step function that keeps an invariant\<close>

text \<open>
  Every component here is a state and operations on it; what each operation keeps, every
  sequence of them keeps.  A component interprets this contract on its own step function.
\<close>

locale preserved_step =
  fixes step :: "'i \<Rightarrow> 's \<Rightarrow> 's" and inv :: "'s \<Rightarrow> bool"
  assumes step_inv: "inv s \<Longrightarrow> inv (step i s)"
begin

lemma run_inv: "inv s \<Longrightarrow> inv (fold step is s)"
  by (induction "is" arbitrary: s) (auto intro: step_inv)

end

end
