(* ===== verification/Nbio.thy ===== *)
theory Nbio
  imports Prelude
begin

text \<open>
  The transfers of src/crates/nomux/src/nbio.rs, and the descriptors they act on.  The kernel is
  not part of the program: a descriptor carries the \<^emph>\<open>script\<close> of what its next system calls
  answer, in order, so a statement about every script is a statement about every behaviour of
  the kernel, in particular every sequence of short transfers, \<open>EAGAIN\<close>s and signals.  A script
  that has run out answers \<open>EAGAIN\<close>: nothing more is ready.  Retry loops consume the script, so
  they end.
\<close>

section \<open>Descriptors\<close>

datatype errno =
  EINTR | EAGAIN | EIO | EPIPE | ECONNRESET | ENOTCONN | ECONNREFUSED | ENOENT | ENAMETOOLONG
| EACCES | EEXIST | ESRCH | ECHILD | EROFS | EPERM | ELOOP | ENXIO | ENOTDIR | EISDIR | ENOLCK
| EOPNOTSUPP | EADDRINUSE | EBADF | EMFILE | ETIMEDOUT | ENFILE | ENOMEM | ENOBUFS | ENODEV | EOTHER nat

datatype io_error = WriteZero | TimedOut | Errno errno

text \<open>What \<open>poll\<close> watches a descriptor for, and reports of it.\<close>

datatype poll_flag = PIN | POUT | PHUP | PERR | PNVAL

definition READABLE :: "poll_flag set" where
  "READABLE = {PIN, PHUP, PERR, PNVAL}"

definition readable :: "poll_flag set \<Rightarrow> bool" where
  "readable events \<longleftrightarrow> PIN \<in> events \<or> PHUP \<in> events \<or> PERR \<in> events \<or> PNVAL \<in> events"

lemma readable_iff: "readable events \<longleftrightarrow> events \<inter> READABLE \<noteq> {}"
  by (auto simp: readable_def READABLE_def)

datatype os_read = RdOk bytes | RdErr errno
datatype os_write = WrOk nat | WrErr errno

record dev =
  reads :: "os_read list"
  writes :: "os_write list"
  accepted :: bytes \<comment> \<open>what the kernel has taken, in order\<close>

text \<open>One \<open>read(2)\<close> into \<open>n\<close> bytes: a longer answer leaves its rest for the next call.\<close>

fun kernel_read :: "nat \<Rightarrow> os_read list \<Rightarrow> (bytes, errno) res \<times> os_read list" where
  "kernel_read n [] = (Err EAGAIN, [])"
| "kernel_read n (RdErr e # s) = (Err e, s)"
| "kernel_read n (RdOk bs # s) =
     (if length bs \<le> n then (Ok bs, s) else (Ok (take n bs), RdOk (drop n bs) # s))"

text \<open>One \<open>write(2)\<close> of \<open>bs\<close>: how many the kernel took, never more than it was offered.\<close>

fun kernel_write :: "bytes \<Rightarrow> os_write list \<Rightarrow> (nat, errno) res \<times> os_write list" where
  "kernel_write bs [] = (Err EAGAIN, [])"
| "kernel_write bs (WrErr e # s) = (Err e, s)"
| "kernel_write bs (WrOk n # s) = (Ok (min n (length bs)), s)"

text \<open>The bytes a script of reads still holds.\<close>

fun script_bytes :: "os_read list \<Rightarrow> bytes" where
  "script_bytes [] = []"
| "script_bytes (RdOk bs # s) = bs @ script_bytes s"
| "script_bytes (RdErr e # s) = script_bytes s"

section \<open>Reading\<close>

datatype read_outcome = Data bytes | Eof | WouldBlock | Failed errno

text \<open>\<open>nbio::read\<close>: one read, retried past every signal.\<close>

fun nbio_read_script :: "nat \<Rightarrow> os_read list \<Rightarrow> (bytes, errno) res \<times> os_read list" where
  "nbio_read_script n [] = kernel_read n []"
| "nbio_read_script n (r # s) =
     (if r = RdErr EINTR then nbio_read_script n s else kernel_read n (r # s))"

definition nbio_read :: "nat \<Rightarrow> dev \<Rightarrow> (bytes, errno) res \<times> dev" where
  "nbio_read n d = (case nbio_read_script n (reads d) of (r, s) \<Rightarrow> (r, d\<lparr>reads := s\<rparr>))"

text \<open>\<open>nbio::read_or_eof\<close>; the outcome carries the bytes the source leaves in the buffer.\<close>

definition read_or_eof :: "nat \<Rightarrow> dev \<Rightarrow> read_outcome \<times> dev" where
  "read_or_eof n d =
     (if n = 0 then (WouldBlock, d)
      else case nbio_read n d of
        (Ok bs, d') \<Rightarrow> (if 0 < length bs then Data bs else Eof, d')
      | (Err e, d') \<Rightarrow>
          (if e = EAGAIN then WouldBlock else if e = EIO then Eof else Failed e, d'))"

section \<open>Writing\<close>

text \<open>\<open>nbio::drain_to\<close>: the answer, the queue left, the script left and the bytes taken.\<close>

fun drain_script ::
  "bytes \<Rightarrow> os_write list \<Rightarrow> (unit, io_error) res \<times> bytes \<times> os_write list \<times> bytes" where
  "drain_script q [] = (Ok (), q, [], [])"
| "drain_script q (w # s) =
     (case kernel_write q (w # s) of
        (Ok n, s') \<Rightarrow>
          (if n = 0 then (Err WriteZero, q, s', []) else (Ok (), drop n q, s', take n q))
      | (Err e, s') \<Rightarrow>
          (if e = EAGAIN then (Ok (), q, s', [])
           else if e = EINTR then drain_script q s
           else (Err (Errno e), q, s', [])))"

definition drain_to :: "bytes \<Rightarrow> dev \<Rightarrow> (unit, io_error) res \<times> bytes \<times> dev" where
  "drain_to q d =
     (if q = [] then (Ok (), q, d)
      else case drain_script q (writes d) of (r, q', s, out) \<Rightarrow>
        (r, q', d\<lparr>writes := s, accepted := accepted d @ out\<rparr>))"

section \<open>What a transfer promises\<close>

lemma kernel_read_bound: "kernel_read n s = (Ok bs, s') \<Longrightarrow> length bs \<le> n"
  by (cases "(n, s)" rule: kernel_read.cases) (auto split: if_splits)

lemma nbio_read_script_not_intr: "nbio_read_script n s \<noteq> (Err EINTR, s')"
  by (induction n s rule: nbio_read_script.induct) (auto elim: kernel_read.elims split: if_splits)

lemma nbio_read_script_bound: "nbio_read_script n s = (Ok bs, s') \<Longrightarrow> length bs \<le> n"
  by (induction n s rule: nbio_read_script.induct) (auto dest: kernel_read_bound split: if_splits)

lemma read_or_eof_data:
  "read_or_eof n d = (Data bs, d') \<Longrightarrow> 0 < length bs \<and> length bs \<le> n"
  by (auto simp: read_or_eof_def nbio_read_def dest: nbio_read_script_bound
      split: if_splits prod.splits res.splits)

lemma read_or_eof_never_intr: "read_or_eof n d \<noteq> (Failed EINTR, d')"
  using nbio_read_script_not_intr
  by (auto simp: read_or_eof_def nbio_read_def split: if_splits prod.splits res.splits)

lemma nbio_read_accepted [step_simps]: "accepted (snd (nbio_read n d)) = accepted d"
  by (simp add: nbio_read_def split: prod.splits)

lemma read_or_eof_accepted [step_simps]: "accepted (snd (read_or_eof n d)) = accepted d"
  using nbio_read_accepted [of n d]
  by (auto simp: read_or_eof_def split: prod.splits res.splits)

lemma drain_script_conserves:
  "drain_script q s = (r, q', s', out) \<Longrightarrow> out @ q' = q \<and> (r \<noteq> Ok () \<longrightarrow> q' = q)"
proof (induction q s rule: drain_script.induct)
  case (1 q)
  then show ?case by simp
next
  case (2 q w s)
  then show ?case by (cases w) (auto split: if_splits)
qed

text \<open>
  Draining a queue neither loses, repeats nor reorders a byte: what the descriptor has taken
  followed by what is still queued never changes, and an error takes nothing off the queue.
\<close>

theorem drain_to_conserves:
  assumes "drain_to q d = (r, q', d')"
  shows "accepted d' @ q' = accepted d @ q \<and> reads d' = reads d \<and> (r \<noteq> Ok () \<longrightarrow> q' = q)"
  using assms drain_script_conserves
  by (fastforce simp: drain_to_def split: if_splits prod.splits)

theorem drain_to_conserves_witness:
  "accepted \<lparr>reads = [], writes = [], accepted = [7, 1, 2]\<rparr> @ [3] = [7] @ [1, 2, 3]"
  using drain_to_conserves [of "[1, 2, 3]"
      "\<lparr>reads = [], writes = [WrErr EINTR, WrOk 2], accepted = [7]\<rparr>" "Ok ()" "[3]"
      "\<lparr>reads = [], writes = [], accepted = [7, 1, 2]\<rparr>"]
  by (simp add: drain_to_def)

end
