(* ===== verification/Wire.thy ===== *)
theory Wire
  imports Prelude
begin

text \<open>
  The frame header and the closed sets of discriminants: src/crates/nomux/src/lib.rs, and the two
  small enums of frame.rs that the same \<open>wire_enum!\<close> macro generates.  The macro's promise --
  one list, both directions of the conversion -- is the locale \<open>wire_enum\<close>, interpreted on each
  of the three enums.
\<close>

section \<open>Constants\<close>

definition PROTOCOL_VERSION :: u16 where
  "PROTOCOL_VERSION = 11"

text \<open>\<open>b"\0nomux-sync\xff"\<close>\<close>

definition SERVER_PREAMBLE :: bytes where
  "SERVER_PREAMBLE =
     [0x00, 0x6E, 0x6F, 0x6D, 0x75, 0x78, 0x2D, 0x73, 0x79, 0x6E, 0x63, 0xFF]"

definition HEADER_LEN :: nat where
  "HEADER_LEN = 4"

definition MAX_PAYLOAD :: u32 where
  "MAX_PAYLOAD = 256 * 1024"

lemma unat_MAX_PAYLOAD [simp]: "unat MAX_PAYLOAD = 262144"
  by (simp add: MAX_PAYLOAD_def)

section \<open>Discriminants\<close>

locale wire_enum =
  fixes as_wire :: "'a \<Rightarrow> 'w" and from_wire :: "'w \<Rightarrow> 'a option" and all_variants :: "'a list"
  assumes from_as: "from_wire (as_wire v) = Some v"
    and as_from: "from_wire w = Some v \<Longrightarrow> as_wire v = w"
    and all_complete: "v \<in> set all_variants"
    and all_distinct: "distinct all_variants"
begin

lemma as_wire_inj: "as_wire v = as_wire u \<Longrightarrow> v = u"
  by (metis from_as option.inject)

lemma from_wire_iff: "from_wire w = Some v \<longleftrightarrow> w = as_wire v"
proof
  show "w = as_wire v" if "from_wire w = Some v" using as_from [OF that] by simp
  show "from_wire w = Some v" if "w = as_wire v" using that by (simp add: from_as)
qed

lemma from_wire_None: "from_wire w = None \<longleftrightarrow> w \<notin> as_wire ` set all_variants"
proof
  show "w \<notin> as_wire ` set all_variants" if "from_wire w = None"
    using that from_as by fastforce
  show "from_wire w = None" if "w \<notin> as_wire ` set all_variants"
  proof (cases "from_wire w")
    case (Some v)
    then have "w = as_wire v" by (simp add: from_wire_iff)
    then show ?thesis using that all_complete by simp
  qed simp
qed

end

datatype frame_type =
  TyHello | TyHelloOk | TyInput | TyInputAck | TyOutput | TyResize | TyGap | TyExit
| TyDetach | TyPing | TyPong | TyError | TyAgentOpen | TyAgentData | TyAgentClose

fun frame_type_as_wire :: "frame_type \<Rightarrow> u8" where
  "frame_type_as_wire TyHello = 0x01"
| "frame_type_as_wire TyHelloOk = 0x02"
| "frame_type_as_wire TyInput = 0x03"
| "frame_type_as_wire TyInputAck = 0x04"
| "frame_type_as_wire TyOutput = 0x05"
| "frame_type_as_wire TyResize = 0x06"
| "frame_type_as_wire TyGap = 0x07"
| "frame_type_as_wire TyExit = 0x08"
| "frame_type_as_wire TyDetach = 0x09"
| "frame_type_as_wire TyPing = 0x0a"
| "frame_type_as_wire TyPong = 0x0b"
| "frame_type_as_wire TyError = 0x0c"
| "frame_type_as_wire TyAgentOpen = 0x0d"
| "frame_type_as_wire TyAgentData = 0x0e"
| "frame_type_as_wire TyAgentClose = 0x0f"

definition frame_type_all :: "frame_type list" where
  "frame_type_all =
     [TyHello, TyHelloOk, TyInput, TyInputAck, TyOutput, TyResize, TyGap, TyExit,
      TyDetach, TyPing, TyPong, TyError, TyAgentOpen, TyAgentData, TyAgentClose]"

definition frame_type_from_wire :: "u8 \<Rightarrow> frame_type option" where
  "frame_type_from_wire w =
     (if w = 0x01 then Some TyHello else if w = 0x02 then Some TyHelloOk
      else if w = 0x03 then Some TyInput else if w = 0x04 then Some TyInputAck
      else if w = 0x05 then Some TyOutput else if w = 0x06 then Some TyResize
      else if w = 0x07 then Some TyGap else if w = 0x08 then Some TyExit
      else if w = 0x09 then Some TyDetach else if w = 0x0a then Some TyPing
      else if w = 0x0b then Some TyPong else if w = 0x0c then Some TyError
      else if w = 0x0d then Some TyAgentOpen else if w = 0x0e then Some TyAgentData
      else if w = 0x0f then Some TyAgentClose else None)"

datatype exit_kind = Exited | Signalled | Unknown

fun exit_kind_as_wire :: "exit_kind \<Rightarrow> u8" where
  "exit_kind_as_wire Exited = 0"
| "exit_kind_as_wire Signalled = 1"
| "exit_kind_as_wire Unknown = 2"

definition exit_kind_from_wire :: "u8 \<Rightarrow> exit_kind option" where
  "exit_kind_from_wire w =
     (if w = 0 then Some Exited else if w = 1 then Some Signalled
      else if w = 2 then Some Unknown else None)"

datatype error_code = Protocol | Takeover | Version | InputGap | Internal | AlreadyAttached

fun error_code_as_wire :: "error_code \<Rightarrow> u16" where
  "error_code_as_wire Protocol = 1"
| "error_code_as_wire Takeover = 2"
| "error_code_as_wire Version = 3"
| "error_code_as_wire InputGap = 4"
| "error_code_as_wire Internal = 5"
| "error_code_as_wire AlreadyAttached = 6"

definition error_code_from_wire :: "u16 \<Rightarrow> error_code option" where
  "error_code_from_wire w =
     (if w = 1 then Some Protocol else if w = 2 then Some Takeover
      else if w = 3 then Some Version else if w = 4 then Some InputGap
      else if w = 5 then Some Internal else if w = 6 then Some AlreadyAttached else None)"

lemma frame_type_from_as [simp]: "frame_type_from_wire (frame_type_as_wire v) = Some v"
  by (cases v) (simp_all add: frame_type_from_wire_def)

interpretation frame_type_wire: wire_enum frame_type_as_wire frame_type_from_wire frame_type_all
proof
  show "frame_type_as_wire v = w" if "frame_type_from_wire w = Some v" for v w
    using that by (auto simp: frame_type_from_wire_def split: if_splits)
  show "v \<in> set frame_type_all" for v by (cases v) (simp_all add: frame_type_all_def)
  show "distinct frame_type_all" by (simp add: frame_type_all_def)
qed simp

lemma exit_kind_from_as [simp]: "exit_kind_from_wire (exit_kind_as_wire v) = Some v"
  by (cases v) (simp_all add: exit_kind_from_wire_def)

interpretation exit_kind_wire:
  wire_enum exit_kind_as_wire exit_kind_from_wire "[Exited, Signalled, Unknown]"
proof
  show "exit_kind_as_wire v = w" if "exit_kind_from_wire w = Some v" for v w
    using that by (auto simp: exit_kind_from_wire_def split: if_splits)
  show "v \<in> set [Exited, Signalled, Unknown]" for v by (cases v) simp_all
qed simp_all

lemma error_code_from_as [simp]: "error_code_from_wire (error_code_as_wire v) = Some v"
  by (cases v) (simp_all add: error_code_from_wire_def)

interpretation error_code_wire:
  wire_enum error_code_as_wire error_code_from_wire
    "[Protocol, Takeover, Version, InputGap, Internal, AlreadyAttached]"
proof
  show "error_code_as_wire v = w" if "error_code_from_wire w = Some v" for v w
    using that by (auto simp: error_code_from_wire_def split: if_splits)
  show "v \<in> set [Protocol, Takeover, Version, InputGap, Internal, AlreadyAttached]" for v
    by (cases v) simp_all
qed simp_all

section \<open>Headers\<close>

datatype proto_error =
  UnknownFrameType u8 | PayloadTooLarge u32 | Truncated | TrailingBytes | Malformed string

record header =
  ty :: frame_type
  len :: u32

definition encode_header :: "frame_type \<Rightarrow> u32 \<Rightarrow> (bytes, proto_error) res" where
  "encode_header t n =
     (if MAX_PAYLOAD < n then Err (PayloadTooLarge n)
      else Ok (frame_type_as_wire t # tl (word_be 4 n)))"

text \<open>The four bytes of a \<open>[u8; HEADER_LEN]\<close>.\<close>

definition decode_header :: "u8 \<times> u8 \<times> u8 \<times> u8 \<Rightarrow> (header, proto_error) res" where
  "decode_header = (\<lambda>(t, a, b, c).
     case frame_type_from_wire t of
       None \<Rightarrow> Err (UnknownFrameType t)
     | Some t' \<Rightarrow>
         (let n = (be_word [0, a, b, c] :: u32)
          in if MAX_PAYLOAD < n then Err (PayloadTooLarge n)
             else Ok \<lparr>ty = t', len = n\<rparr>))"

lemma nat_be_4:
  "nat_be 4 x = [of_nat (x div 256 div 256 div 256 mod 256), of_nat (x div 256 div 256 mod 256),
     of_nat (x div 256 mod 256), of_nat (x mod 256)]"
proof -
  have four: "(4 :: nat) = Suc (Suc (Suc (Suc 0)))" by simp
  show ?thesis by (simp only: four nat_be.simps append.simps)
qed

lemma word_be_4_small:
  assumes "n \<le> MAX_PAYLOAD"
  shows "\<exists>a b c. word_be 4 (n :: u32) = [0, a, b, c] \<and> be_word [0, a, b, c] = n"
proof -
  obtain z a b c where eq: "word_be 4 n = [z, a, b, c]"
    by (rule that [of "of_nat (unat n div 256 div 256 div 256 mod 256)"
         "of_nat (unat n div 256 div 256 mod 256)" "of_nat (unat n div 256 mod 256)"
         "of_nat (unat n mod 256)"])
      (simp add: word_be_def nat_be_4)
  have inv_n: "be_word (word_be 4 n) = n" by (rule be_word_word_be) simp
  have small: "unat n \<le> 262144" using assms by (simp add: word_le_nat_alt)
  have "unat n = unat (be_word [z, a, b, c] :: u32)" using inv_n eq by simp
  also have "\<dots> = unat z * 16777216 + unat a * 65536 + unat b * 256 + unat c"
  proof -
    have "be_nat [z, a, b, c] < 2 ^ LENGTH(32)" using be_nat_less [of "[z, a, b, c]"] by simp
    then have "unat (of_nat (be_nat [z, a, b, c]) :: u32) = be_nat [z, a, b, c]"
      by (rule unat_of_nat_small)
    then show ?thesis by (simp only: be_word_def) (simp add: be_nat_def)
  qed
  finally have "unat z = 0" using small by simp
  then have "z = 0" by (simp add: unat_eq_zero)
  then show ?thesis using eq inv_n by metis
qed

lemma encode_header_Ok:
  assumes "encode_header t n = Ok hdr"
  obtains a b c where "hdr = [frame_type_as_wire t, a, b, c]"
    and "decode_header (frame_type_as_wire t, a, b, c) = Ok \<lparr>ty = t, len = n\<rparr>"
    and "n \<le> MAX_PAYLOAD"
proof -
  from assms have le: "n \<le> MAX_PAYLOAD" and hdr: "hdr = frame_type_as_wire t # tl (word_be 4 n)"
    by (auto simp: encode_header_def split: if_splits)
  obtain a b c where "word_be 4 n = [0, a, b, c]" "be_word [0, a, b, c] = n"
    using word_be_4_small [OF le] by blast
  with le hdr show thesis by (intro that) (auto simp: decode_header_def Let_def)
qed

lemma decode_header_Ok:
  assumes "decode_header (t, a, b, c) = Ok h"
  shows "len h \<le> MAX_PAYLOAD" and "encode_header (ty h) (len h) = Ok [t, a, b, c]"
proof -
  from assms obtain t' where t': "frame_type_from_wire t = Some t'"
    and h: "h = \<lparr>ty = t', len = be_word [0, a, b, c]\<rparr>"
    and le: "be_word [0, a, b, c] \<le> MAX_PAYLOAD"
    by (auto simp: decode_header_def Let_def split: option.splits if_splits)
  have "word_be 4 (be_word [0, a, b, c] :: u32) = [0, a, b, c]"
    by (rule word_be_be_word) simp_all
  then show "len h \<le> MAX_PAYLOAD" and "encode_header (ty h) (len h) = Ok [t, a, b, c]"
    using t' h le by (auto simp: encode_header_def frame_type_wire.from_wire_iff)
qed

end
