(* ===== verification/Frame.thy ===== *)
theory Frame
  imports Wire Utf8
begin

unbundle bit_operations_syntax

text \<open>
  Frame payloads and their codec: src/crates/nomux/src/frame.rs.  A frame is encoded by
  appending to a buffer, which an error leaves unchanged; a payload is decoded by a cursor
  (\<open>Reader\<close>) that every field read moves on.  The fixed-width fields are instances of one
  interface, \<open>field_codec\<close>: what a \<open>put\<close> writes the matching \<open>get\<close> reads back and nothing
  else, and a \<open>get\<close> fails only where the payload is short.
\<close>

section \<open>Data\<close>

type_synonym i32 = "32 word" \<comment> \<open>two's complement, as \<open>i32::to_be_bytes\<close> writes it\<close>

record winsize =
  cols :: u16
  rows :: u16
  xpixel :: u16
  ypixel :: u16

record hello =
  protocol :: u16
  agent_forward :: bool
  repaint_ctrl_l :: bool
  if_detached :: bool
  out_offset :: u64
  win :: winsize
  term_var :: rstr \<comment> \<open>\<open>term\<close> in the source, a keyword here\<close>

record hello_ok =
  resume_from :: u64
  in_applied :: u64
  agent :: bool

datatype frame =
  Hello hello
| HelloOk hello_ok
| Input u64 bytes
| InputAck u64
| Output u64 bytes
| Resize winsize
| Gap u64
| Exit i32 exit_kind u32
| Detach
| Ping
| Pong
| Error error_code rstr
| AgentOpen u32
| AgentData u32 bytes
| AgentClose u32

definition RESUME_FROM_START :: u64 where
  "RESUME_FROM_START = - 1"

definition HELLO_AGENT_FORWARD :: u8 where
  "HELLO_AGENT_FORWARD = push_bit 0 1"

definition HELLO_REPAINT_CTRL_L :: u8 where
  "HELLO_REPAINT_CTRL_L = push_bit 1 1"

definition HELLO_IF_DETACHED :: u8 where
  "HELLO_IF_DETACHED = push_bit 2 1"

definition HELLO_FLAG_BITS :: u8 where
  "HELLO_FLAG_BITS = HELLO_AGENT_FORWARD OR HELLO_REPAINT_CTRL_L OR HELLO_IF_DETACHED"

definition HELLOOK_AGENT :: u8 where
  "HELLOOK_AGENT = push_bit 0 1"

definition MAX_OUTPUT_DATA :: nat where
  "MAX_OUTPUT_DATA = unat MAX_PAYLOAD - 8"

definition MAX_AGENT_DATA :: nat where
  "MAX_AGENT_DATA = unat MAX_PAYLOAD - 4"

definition checked_term :: "rstr \<Rightarrow> (unit, proto_error) res" where
  "checked_term t =
     (if 0 \<in> set t then Err (Malformed ''TERM contains a NUL byte'') else Ok ())"

definition checked_exit :: "i32 \<Rightarrow> exit_kind \<Rightarrow> (unit, proto_error) res" where
  "checked_exit status kind =
     (if kind = Unknown \<and> status \<noteq> 0
      then Err (Malformed ''Unknown exit status is not zero'') else Ok ())"

definition hello_flags :: "hello \<Rightarrow> u8" where
  "hello_flags h =
     (of_bool (agent_forward h) * HELLO_AGENT_FORWARD)
     OR (of_bool (repaint_ctrl_l h) * HELLO_REPAINT_CTRL_L)
     OR (of_bool (if_detached h) * HELLO_IF_DETACHED)"

definition hello_ok_flags :: "hello_ok \<Rightarrow> u8" where
  "hello_ok_flags ok = of_bool (agent ok) * HELLOOK_AGENT"

text \<open>\<open>HelloOk::gap\<close>\<close>

definition hello_ok_gap :: "hello_ok \<Rightarrow> u64 \<Rightarrow> bool" where
  "hello_ok_gap ok offset \<longleftrightarrow> offset < resume_from ok"

fun frame_type_of :: "frame \<Rightarrow> frame_type" where
  "frame_type_of (Hello _) = TyHello"
| "frame_type_of (HelloOk _) = TyHelloOk"
| "frame_type_of (Input _ _) = TyInput"
| "frame_type_of (InputAck _) = TyInputAck"
| "frame_type_of (Output _ _) = TyOutput"
| "frame_type_of (Resize _) = TyResize"
| "frame_type_of (Gap _) = TyGap"
| "frame_type_of (Exit _ _ _) = TyExit"
| "frame_type_of Detach = TyDetach"
| "frame_type_of Ping = TyPing"
| "frame_type_of Pong = TyPong"
| "frame_type_of (Error _ _) = TyError"
| "frame_type_of (AgentOpen _) = TyAgentOpen"
| "frame_type_of (AgentData _ _) = TyAgentData"
| "frame_type_of (AgentClose _) = TyAgentClose"

section \<open>Encoding\<close>

text \<open>\<open>u32::try_from(n).unwrap_or(u32::MAX)\<close>\<close>

definition u32_or_max :: "nat \<Rightarrow> u32" where
  "u32_or_max n = (if n < 2 ^ 32 then of_nat n else - 1)"

definition put_win :: "winsize \<Rightarrow> bytes" where
  "put_win w = word_be 2 (cols w) @ word_be 2 (rows w)
     @ word_be 2 (xpixel w) @ word_be 2 (ypixel w)"

text \<open>The first match of \<open>Frame::encode\<close>: the \<open>TERM\<close> length and the payload length.\<close>

fun payload_len :: "frame \<Rightarrow> (u16 \<times> nat, proto_error) res" where
  "payload_len (Hello h) =
     (if 65535 < length (term_var h) then Err (Malformed ''TERM exceeds 65535 bytes'')
      else and_then (checked_term (term_var h)) (\<lambda>_.
        let term_len = (of_nat (length (term_var h)) :: u16)
        in Ok (term_len, 21 + unat term_len)))"
| "payload_len (HelloOk _) = Ok (0, 17)"
| "payload_len (Input _ d) = Ok (0, usize_sat_add 8 (length d))"
| "payload_len (Output _ d) = Ok (0, usize_sat_add 8 (length d))"
| "payload_len (InputAck _) = Ok (0, 8)"
| "payload_len (Resize _) = Ok (0, 8)"
| "payload_len (Gap _) = Ok (0, 8)"
| "payload_len (Exit status kind _) = and_then (checked_exit status kind) (\<lambda>_. Ok (0, 9))"
| "payload_len Detach = Ok (0, 0)"
| "payload_len Ping = Ok (0, 0)"
| "payload_len Pong = Ok (0, 0)"
| "payload_len (Error _ m) = Ok (0, usize_sat_add 2 (length m))"
| "payload_len (AgentOpen _) = Ok (0, 4)"
| "payload_len (AgentClose _) = Ok (0, 4)"
| "payload_len (AgentData _ d) = Ok (0, usize_sat_add 4 (length d))"

text \<open>\<open>encode_payload\<close>, as the bytes it appends.\<close>

fun encode_payload :: "frame \<Rightarrow> u16 \<Rightarrow> bytes" where
  "encode_payload (Hello h) term_len =
     word_be 2 (protocol h) @ [hello_flags h] @ word_be 8 (out_offset h)
     @ put_win (win h) @ word_be 2 term_len @ term_var h"
| "encode_payload (HelloOk ok) _ =
     word_be 8 (resume_from ok) @ word_be 8 (in_applied ok) @ [hello_ok_flags ok]"
| "encode_payload (Input offset d) _ = word_be 8 offset @ d"
| "encode_payload (Output offset d) _ = word_be 8 offset @ d"
| "encode_payload (InputAck v) _ = word_be 8 v"
| "encode_payload (Gap v) _ = word_be 8 v"
| "encode_payload (Resize w) _ = put_win w"
| "encode_payload (Exit status kind since) _ =
     word_be 4 status @ [exit_kind_as_wire kind] @ word_be 4 since"
| "encode_payload Detach _ = []"
| "encode_payload Ping _ = []"
| "encode_payload Pong _ = []"
| "encode_payload (Error code m) _ = word_be 2 (error_code_as_wire code) @ m"
| "encode_payload (AgentOpen g) _ = word_be 4 g"
| "encode_payload (AgentClose g) _ = word_be 4 g"
| "encode_payload (AgentData g d) _ = word_be 4 g @ d"

text \<open>\<open>Frame::encode\<close>: the buffer afterwards and the answer.\<close>

definition frame_encode :: "frame \<Rightarrow> bytes \<Rightarrow> bytes \<times> (unit, proto_error) res" where
  "frame_encode f out =
     (case payload_len f of
        Err e \<Rightarrow> (out, Err e)
      | Ok (term_len, n) \<Rightarrow>
          (case encode_header (frame_type_of f) (u32_or_max n) of
             Err e \<Rightarrow> (out, Err e)
           | Ok hdr \<Rightarrow> (out @ hdr @ encode_payload f term_len, Ok ())))"

section \<open>The reader\<close>

text \<open>\<open>Reader::take\<close> and the fixed-width reads; each answers the value and what is left.\<close>

definition r_take :: "nat \<Rightarrow> bytes \<Rightarrow> (bytes \<times> bytes, proto_error) res" where
  "r_take n bs = (if length bs < n then Err Truncated else Ok (take n bs, drop n bs))"

definition r_word :: "nat \<Rightarrow> bytes \<Rightarrow> ('a::len word \<times> bytes, proto_error) res" where
  "r_word n bs = and_then (r_take n bs) (\<lambda>(h, r). Ok (be_word h, r))"

definition r_u8 :: "bytes \<Rightarrow> (u8 \<times> bytes, proto_error) res" where
  "r_u8 = r_word 1"

definition r_u16 :: "bytes \<Rightarrow> (u16 \<times> bytes, proto_error) res" where
  "r_u16 = r_word 2"

definition r_u32 :: "bytes \<Rightarrow> (u32 \<times> bytes, proto_error) res" where
  "r_u32 = r_word 4"

definition r_i32 :: "bytes \<Rightarrow> (i32 \<times> bytes, proto_error) res" where
  "r_i32 = r_word 4"

definition r_u64 :: "bytes \<Rightarrow> (u64 \<times> bytes, proto_error) res" where
  "r_u64 = r_word 8"

definition r_win :: "bytes \<Rightarrow> (winsize \<times> bytes, proto_error) res" where
  "r_win bs =
     and_then (r_u16 bs) (\<lambda>(c, bs).
     and_then (r_u16 bs) (\<lambda>(r, bs).
     and_then (r_u16 bs) (\<lambda>(x, bs).
     and_then (r_u16 bs) (\<lambda>(y, bs).
       Ok (\<lparr>cols = c, rows = r, xpixel = x, ypixel = y\<rparr>, bs)))))"

text \<open>\<open>Reader::finish\<close>\<close>

definition r_finish :: "bytes \<Rightarrow> (unit, proto_error) res" where
  "r_finish bs = (if bs = [] then Ok () else Err TrailingBytes)"

section \<open>Decoding\<close>

definition decode_hello :: "bytes \<Rightarrow> (frame \<times> bytes, proto_error) res" where
  "decode_hello bs =
     and_then (r_u16 bs) (\<lambda>(protocol, bs).
     and_then (r_u8 bs) (\<lambda>(flags, bs).
     if flags AND NOT HELLO_FLAG_BITS \<noteq> 0 then Err (Malformed ''undefined Hello flag bits'')
     else
     and_then (r_u64 bs) (\<lambda>(out_offset, bs).
     and_then (r_win bs) (\<lambda>(win, bs).
     and_then (r_u16 bs) (\<lambda>(term_len, bs).
     and_then (r_take (unat term_len) bs) (\<lambda>(raw, bs).
     case from_utf8 raw of
       None \<Rightarrow> Err (Malformed ''TERM is not UTF-8'')
     | Some t \<Rightarrow>
         and_then (checked_term t) (\<lambda>_.
         Ok (Hello \<lparr>protocol = protocol,
                    agent_forward = (flags AND HELLO_AGENT_FORWARD \<noteq> 0),
                    repaint_ctrl_l = (flags AND HELLO_REPAINT_CTRL_L \<noteq> 0),
                    if_detached = (flags AND HELLO_IF_DETACHED \<noteq> 0),
                    out_offset = out_offset, win = win, term_var = t\<rparr>, bs))))))))"

definition decode_hello_ok :: "bytes \<Rightarrow> (frame \<times> bytes, proto_error) res" where
  "decode_hello_ok bs =
     and_then (r_u64 bs) (\<lambda>(resume_from, bs).
     and_then (r_u64 bs) (\<lambda>(in_applied, bs).
     and_then (r_u8 bs) (\<lambda>(flags, bs).
     if flags AND NOT HELLOOK_AGENT \<noteq> 0
     then Err (Malformed ''undefined HelloOk flag bits'')
     else Ok (HelloOk \<lparr>resume_from = resume_from, in_applied = in_applied,
                       agent = (flags AND HELLOOK_AGENT \<noteq> 0)\<rparr>, bs))))"

definition decode_exit :: "bytes \<Rightarrow> (frame \<times> bytes, proto_error) res" where
  "decode_exit bs =
     and_then (r_i32 bs) (\<lambda>(status, bs).
     and_then (r_u8 bs) (\<lambda>(k, bs).
     case exit_kind_from_wire k of
       None \<Rightarrow> Err (Malformed ''unknown exit kind'')
     | Some kind \<Rightarrow>
         and_then (checked_exit status kind) (\<lambda>_.
         and_then (r_u32 bs) (\<lambda>(since, bs). Ok (Exit status kind since, bs)))))"

definition decode_error :: "bytes \<Rightarrow> (frame \<times> bytes, proto_error) res" where
  "decode_error bs =
     and_then (r_u16 bs) (\<lambda>(c, bs).
     case error_code_from_wire c of
       None \<Rightarrow> Err (Malformed ''unknown error code'')
     | Some code \<Rightarrow>
         (case from_utf8 bs of
            None \<Rightarrow> Err (Malformed ''error message is not UTF-8'')
          | Some m \<Rightarrow> Ok (Error code m, [])))"

text \<open>The match of \<open>Frame::decode\<close>; \<open>Reader::rest\<close> empties the reader.\<close>

fun decode_fields :: "frame_type \<Rightarrow> bytes \<Rightarrow> (frame \<times> bytes, proto_error) res" where
  "decode_fields TyHello bs = decode_hello bs"
| "decode_fields TyHelloOk bs = decode_hello_ok bs"
| "decode_fields TyInput bs = and_then (r_u64 bs) (\<lambda>(offset, bs). Ok (Input offset bs, []))"
| "decode_fields TyOutput bs = and_then (r_u64 bs) (\<lambda>(offset, bs). Ok (Output offset bs, []))"
| "decode_fields TyInputAck bs = and_then (r_u64 bs) (\<lambda>(v, bs). Ok (InputAck v, bs))"
| "decode_fields TyResize bs = and_then (r_win bs) (\<lambda>(w, bs). Ok (Resize w, bs))"
| "decode_fields TyGap bs = and_then (r_u64 bs) (\<lambda>(v, bs). Ok (Gap v, bs))"
| "decode_fields TyExit bs = decode_exit bs"
| "decode_fields TyDetach bs = Ok (Detach, bs)"
| "decode_fields TyPing bs = Ok (Ping, bs)"
| "decode_fields TyPong bs = Ok (Pong, bs)"
| "decode_fields TyError bs = decode_error bs"
| "decode_fields TyAgentOpen bs = and_then (r_u32 bs) (\<lambda>(g, bs). Ok (AgentOpen g, bs))"
| "decode_fields TyAgentClose bs = and_then (r_u32 bs) (\<lambda>(g, bs). Ok (AgentClose g, bs))"
| "decode_fields TyAgentData bs = and_then (r_u32 bs) (\<lambda>(g, bs). Ok (AgentData g bs, []))"

text \<open>\<open>Frame::decode\<close>\<close>

definition frame_decode :: "frame_type \<Rightarrow> bytes \<Rightarrow> (frame, proto_error) res" where
  "frame_decode t payload =
     (let n = u32_or_max (length payload)
      in if MAX_PAYLOAD < n then Err (PayloadTooLarge n)
         else and_then (decode_fields t payload) (\<lambda>(f, rest).
              and_then (r_finish rest) (\<lambda>_. Ok f)))"

end
