(* ===== verification/Frame_Codec.thy ===== *)
theory Frame_Codec
  imports Frame
begin

unbundle bit_operations_syntax

text \<open>
  What the codec of \<open>Frame\<close> promises: encoding and decoding are inverse to each other in both
  directions, so a payload has at most one frame and a frame exactly one payload; the decoder
  accepts nothing the encoder could not have written.
\<close>

section \<open>Fixed-width fields\<close>

locale field_codec =
  fixes put :: "'a \<Rightarrow> bytes" and get :: "bytes \<Rightarrow> ('a \<times> bytes, proto_error) res"
    and width :: nat
  assumes length_put: "length (put x) = width"
    and get_put: "get (put x @ rest) = Ok (x, rest)"
    and put_get: "get bs = Ok (x, rest) \<Longrightarrow> bs = put x @ rest"
    and get_short: "length bs < width \<Longrightarrow> get bs = Err Truncated"
    and get_long: "width \<le> length bs \<Longrightarrow> is_ok (get bs)"
begin

lemma get_put_all: "get (put x) = Ok (x, [])"
  using get_put [of x "[]"] by simp

lemma get_eq_Ok: "get bs = Ok (x, rest) \<longleftrightarrow> bs = put x @ rest"
  by (auto simp: get_put dest: put_get)

lemma get_error: "get bs = Err e \<longleftrightarrow> length bs < width \<and> e = Truncated"
  using get_short [of bs] get_long [of bs] by (cases "length bs < width") auto

end

lemma field_codec_r_word:
  assumes "256 ^ n = (2 :: nat) ^ LENGTH('a::len)"
  shows "field_codec (word_be n :: 'a word \<Rightarrow> bytes) (r_word n) n"
proof
  show "r_word n (word_be n x @ rest) = Ok (x, rest)" for x :: "'a word" and rest
    using be_word_word_be [OF assms] by (simp add: r_word_def r_take_def)
  show "bs = word_be n x @ rest" if "r_word n bs = Ok (x, rest)" for x :: "'a word" and bs rest
  proof -
    from that have le: "n \<le> length bs" and x: "x = be_word (take n bs)" "rest = drop n bs"
      by (auto simp: r_word_def r_take_def split: if_splits)
    then have "word_be n x = take n bs"
      using assms by (simp add: word_be_be_word)
    then show ?thesis using x by simp
  qed
qed (simp_all add: r_word_def r_take_def)

lemma word_be_1: "word_be 1 (w :: u8) = [w]"
  by (simp add: word_be_def)

lemma field_codec_r_u8: "field_codec (\<lambda>b. [b]) r_u8 1"
proof -
  have "field_codec (word_be 1 :: u8 \<Rightarrow> bytes) (r_word 1) 1"
    by (rule field_codec_r_word) simp
  moreover have "(word_be 1 :: u8 \<Rightarrow> bytes) = (\<lambda>b. [b])" by (rule ext) (rule word_be_1)
  ultimately show ?thesis by (simp add: r_u8_def)
qed

interpretation u8_field: field_codec "\<lambda>b. [b]" r_u8 1
  by (rule field_codec_r_u8)

interpretation u16_field: field_codec "word_be 2 :: u16 \<Rightarrow> bytes" r_u16 2
  unfolding r_u16_def by (rule field_codec_r_word) simp

interpretation u32_field: field_codec "word_be 4 :: u32 \<Rightarrow> bytes" r_u32 4
  unfolding r_u32_def by (rule field_codec_r_word) simp

interpretation i32_field: field_codec "word_be 4 :: i32 \<Rightarrow> bytes" r_i32 4
  unfolding r_i32_def by (rule field_codec_r_word) simp

interpretation u64_field: field_codec "word_be 8 :: u64 \<Rightarrow> bytes" r_u64 8
  unfolding r_u64_def by (rule field_codec_r_word) simp

lemma length_put_win [simp, wire_simps]: "length (put_win w) = 8"
  by (simp add: put_win_def)

lemma r_win_eq_Ok: "r_win bs = Ok (w, rest) \<longleftrightarrow> bs = put_win w @ rest"
  by (cases w)
    (auto simp: r_win_def put_win_def and_then_eq_Ok u16_field.get_eq_Ok u16_field.get_put)

lemma r_u16_cases:
  "r_u16 bs = (if length bs < 2 then Err Truncated else Ok (be_word (take 2 bs), drop 2 bs))"
  by (simp add: r_u16_def r_word_def r_take_def)

interpretation win_field: field_codec put_win r_win 8
proof
  show "r_win (put_win w @ rest) = Ok (w, rest)" for w rest
    by (simp add: r_win_eq_Ok)
  show "bs = put_win w @ rest" if "r_win bs = Ok (w, rest)" for bs w rest
    using that by (simp add: r_win_eq_Ok)
  show "r_win bs = Err Truncated" if "length bs < 8" for bs
    using that by (simp add: r_win_def r_u16_cases)
  show "is_ok (r_win bs)" if "8 \<le> length bs" for bs
  proof -
    have "\<not> length bs < 2" "\<not> length bs - 2 < 2" "\<not> length bs - 4 < 2" "\<not> length bs - 6 < 2"
      using that by linarith+
    then show ?thesis by (simp add: r_win_def r_u16_cases)
  qed
qed simp

lemmas get_put_simps =
  u8_field.get_put u16_field.get_put u32_field.get_put i32_field.get_put u64_field.get_put
  win_field.get_put u32_field.get_put_all i32_field.get_put_all u64_field.get_put_all
  win_field.get_put_all u8_field.get_put_all

lemmas get_iff_simps =
  u8_field.get_eq_Ok u16_field.get_eq_Ok u32_field.get_eq_Ok i32_field.get_eq_Ok
  u64_field.get_eq_Ok win_field.get_eq_Ok

lemma r_u8_Cons [simp]: "r_u8 (b # rest) = Ok (b, rest)"
  using u8_field.get_put [of b rest] by simp

lemma r_take_append: "n = length xs \<Longrightarrow> r_take n (xs @ rest) = Ok (xs, rest)"
  by (simp add: r_take_def)

lemma r_take_eq_Ok: "r_take n bs = Ok (xs, rest) \<longleftrightarrow> bs = xs @ rest \<and> length xs = n"
  by (auto simp: r_take_def)

section \<open>Flag bytes\<close>

lemmas flag_defs =
  HELLO_FLAG_BITS_def HELLO_AGENT_FORWARD_def HELLO_REPAINT_CTRL_L_def HELLO_IF_DETACHED_def
  HELLOOK_AGENT_def

lemma hello_flags_defined: "hello_flags h AND NOT HELLO_FLAG_BITS = 0"
  by (cases "agent_forward h"; cases "repaint_ctrl_l h"; cases "if_detached h")
    (simp_all add: hello_flags_def flag_defs)

lemma hello_flags_bits:
  "hello_flags h AND HELLO_AGENT_FORWARD \<noteq> 0 \<longleftrightarrow> agent_forward h"
  "hello_flags h AND HELLO_REPAINT_CTRL_L \<noteq> 0 \<longleftrightarrow> repaint_ctrl_l h"
  "hello_flags h AND HELLO_IF_DETACHED \<noteq> 0 \<longleftrightarrow> if_detached h"
  by (cases "agent_forward h"; cases "repaint_ctrl_l h"; cases "if_detached h";
      simp add: hello_flags_def flag_defs)+

lemma hello_ok_flags_bits:
  "hello_ok_flags ok AND NOT HELLOOK_AGENT = 0"
  "hello_ok_flags ok AND HELLOOK_AGENT \<noteq> 0 \<longleftrightarrow> agent ok"
  by (cases "agent ok"; simp add: hello_ok_flags_def flag_defs)+

text \<open>A byte with no bit outside a mask is at most the mask, so the checks can enumerate it.\<close>

lemma and_mask_le:
  assumes "f AND NOT m = (0 :: u8)"
  shows "f \<le> m"
proof -
  have "f = f AND (m OR NOT m)" by simp
  also have "\<dots> = (f AND m) OR (f AND NOT m)" by (simp only: bit.conj_disj_distrib)
  finally have "f = f AND m" using assms by simp
  then show ?thesis using word_and_le1 [of f m] by simp
qed

lemma hello_flags_cases:
  assumes "f AND NOT HELLO_FLAG_BITS = 0"
  shows "f \<in> {0, 1, 2, 3, 4, 5, 6, 7}"
proof -
  have "f \<le> 7" using and_mask_le [OF assms] by (simp add: flag_defs)
  then have "unat f \<le> 7" by (simp add: word_le_nat_alt)
  then have "unat f \<in> {0, 1, 2, 3, 4, 5, 6, 7}" by auto
  then have "(of_nat (unat f) :: u8) \<in> {0, 1, 2, 3, 4, 5, 6, 7}" by fastforce
  then show ?thesis by simp
qed

lemma hello_flags_rebuild:
  assumes "f AND NOT HELLO_FLAG_BITS = 0"
  shows "hello_flags \<lparr>protocol = p, agent_forward = (f AND HELLO_AGENT_FORWARD \<noteq> 0),
    repaint_ctrl_l = (f AND HELLO_REPAINT_CTRL_L \<noteq> 0),
    if_detached = (f AND HELLO_IF_DETACHED \<noteq> 0),
    out_offset = off, win = w, term_var = t\<rparr> = f"
  using hello_flags_cases [OF assms] by (auto simp: hello_flags_def flag_defs)

lemma hello_ok_flags_rebuild:
  assumes "f AND NOT HELLOOK_AGENT = 0"
  shows "hello_ok_flags \<lparr>resume_from = r, in_applied = a, agent = (f AND HELLOOK_AGENT \<noteq> 0)\<rparr> = f"
proof -
  have "unat f \<le> 1" using and_mask_le [OF assms] by (simp add: flag_defs word_le_nat_alt)
  then have "unat f \<in> {0, 1}" by auto
  then have "(of_nat (unat f) :: u8) \<in> {0, 1}" by fastforce
  then have "f = 0 \<or> f = 1" by simp
  then show ?thesis by (auto simp: hello_ok_flags_def flag_defs)
qed

section \<open>Lengths\<close>

lemma usize_sat_add_small: "n \<le> 262144 \<Longrightarrow> m \<le> 16 \<Longrightarrow> usize_sat_add m n = m + n"
  by (simp add: usize_sat_add_def)

lemma encode_header_small:
  assumes "encode_header t (u32_or_max n) = Ok hdr"
  shows "n \<le> 262144 \<and> u32_or_max n = of_nat n"
proof -
  have le: "unat (u32_or_max n) \<le> 262144"
    using assms by (simp add: encode_header_def word_le_nat_alt not_less split: if_splits)
  show ?thesis
  proof (cases "n < 2 ^ 32")
    case True
    then have "unat (u32_or_max n) = n" by (simp add: u32_or_max_def unat_of_nat_small)
    then show ?thesis using le True by (simp add: u32_or_max_def)
  next
    case False
    then have "unat (u32_or_max n) = 2 ^ 32 - 1"
      by (simp add: u32_or_max_def unsigned_minus_1_eq_mask mask_eq_exp_minus_1)
    then show ?thesis using le by simp
  qed
qed

text \<open>The length the header declares is the length of what follows it.\<close>

lemma length_encode_payload:
  assumes "payload_len f = Ok (tlen, n)" and "n \<le> 262144"
  shows "length (encode_payload f tlen) = n"
  using assms
  by (cases f)
    (auto simp: and_then_eq_Ok Let_def usize_sat_add_def min_def unat_of_nat_small
        split: if_splits)

section \<open>Decoding what was encoded\<close>

text \<open>What the type \<open>&str\<close> says of the text fields of a frame.\<close>

fun frame_text :: "frame \<Rightarrow> rstr" where
  "frame_text (Hello h) = term_var h"
| "frame_text (Error _ m) = m"
| "frame_text _ = []"

lemma decode_hello_encode:
  assumes "utf8_valid (term_var h)" and "payload_len (Hello h) = Ok (tlen, n)"
  shows "decode_hello (encode_payload (Hello h) tlen) = Ok (Hello h, [])"
proof -
  have tlen: "unat tlen = length (term_var h)"
    using assms(2) by (auto simp: Let_def and_then_eq_Ok unat_of_nat_small split: if_splits)
  have nul: "checked_term (term_var h) = Ok ()"
    using assms(2) by (auto simp: Let_def and_then_eq_Ok split: if_splits)
  have "r_take (unat tlen) (term_var h) = Ok (term_var h, [])"
    using tlen by (simp add: r_take_def)
  then show ?thesis
    using assms(1) nul hello_flags_defined [of h]
    by (simp add: decode_hello_def get_put_simps hello_flags_bits from_utf8_def)
qed

lemma decode_fields_encode:
  assumes "utf8_valid (frame_text f)" and "payload_len f = Ok (tlen, n)"
  shows "decode_fields (frame_type_of f) (encode_payload f tlen) = Ok (f, [])"
proof (cases f)
  case (Hello h)
  then show ?thesis using assms decode_hello_encode by simp
next
  case (HelloOk ok)
  then show ?thesis
    by (simp add: decode_hello_ok_def get_put_simps hello_ok_flags_bits)
next
  case (Exit status kind since)
  then show ?thesis
    using assms(2) by (auto simp: decode_exit_def get_put_simps and_then_eq_Ok)
next
  case (Error code m)
  then show ?thesis
    using assms(1) by (simp add: decode_error_def get_put_simps from_utf8_def)
qed (simp_all add: get_put_simps)

lemma encode_decode_parts:
  assumes "utf8_valid (frame_text f)" and "frame_encode f out = (out', Ok ())"
  shows "\<exists>t a b c payload.
    out' = out @ [t, a, b, c] @ payload \<and> length payload \<le> 262144 \<and>
    decode_header (t, a, b, c) = Ok \<lparr>ty = frame_type_of f, len = of_nat (length payload)\<rparr> \<and>
    frame_decode (frame_type_of f) payload = Ok f"
proof -
  from assms(2) obtain tlen n hdr where
    len: "payload_len f = Ok (tlen, n)"
    and hdr: "encode_header (frame_type_of f) (u32_or_max n) = Ok hdr"
    and out': "out' = out @ hdr @ encode_payload f tlen"
    by (auto simp: frame_encode_def split: res.splits)
  from encode_header_Ok [OF hdr] obtain a b c where
    bytes: "hdr = [frame_type_as_wire (frame_type_of f), a, b, c]"
    and dec: "decode_header (frame_type_as_wire (frame_type_of f), a, b, c)
      = Ok \<lparr>ty = frame_type_of f, len = u32_or_max n\<rparr>"
    by metis
  have small: "n \<le> 262144" "u32_or_max n = of_nat n"
    using encode_header_small [OF hdr] by auto
  have n: "length (encode_payload f tlen) = n" using length_encode_payload [OF len small(1)] .
  have "\<not> MAX_PAYLOAD < (of_nat n :: u32)"
    using small(1) by (simp add: word_less_nat_alt unat_of_nat_small)
  then have "frame_decode (frame_type_of f) (encode_payload f tlen) = Ok f"
    using decode_fields_encode [OF assms(1) len] n small
    by (simp add: frame_decode_def r_finish_def)
  then show ?thesis using out' bytes dec n small by (metis append_Cons append_Nil)
qed

text \<open>
  C1. Encoding succeeds only by appending a four-byte header and a payload whose length the
  header declares; \<open>decode_header\<close> reads that header back and \<open>Frame::decode\<close> reads the
  payload back to the same frame.
\<close>

theorem encode_then_decode:
  assumes "utf8_valid (frame_text f)" and "frame_encode f out = (out', Ok ())"
  shows "\<exists>t a b c payload.
    out' = out @ [t, a, b, c] @ payload \<and> length payload \<le> unat MAX_PAYLOAD \<and>
    decode_header (t, a, b, c) = Ok \<lparr>ty = frame_type_of f, len = of_nat (length payload)\<rparr> \<and>
    frame_decode (frame_type_of f) payload = Ok f"
  using encode_decode_parts [OF assms] by simp

lemma nat_be_Suc_numeral: "nat_be (numeral k) x = nat_be (pred_numeral k) (x div 256) @ [of_nat (x mod 256)]"
  by (subst numeral_eq_Suc) (rule nat_be.simps(2))

lemma utf8_valid_Nil: "utf8_valid []"
  by simp

lemma encode_example:
  "frame_encode (Input 5 [104]) [9] = ([9, 3, 0, 0, 9, 0, 0, 0, 0, 0, 0, 0, 5, 104], Ok ())"
proof -
  have "word_be 8 (5 :: u64) = [0, 0, 0, 0, 0, 0, 0, 5]" "word_be 4 (9 :: u32) = [0, 0, 0, 9]"
    by (simp_all add: word_be_def nat_be_Suc_numeral)
  then show ?thesis
    by (simp add: frame_encode_def encode_header_def usize_sat_add_def u32_or_max_def MAX_PAYLOAD_def)
qed

theorem encode_then_decode_witness:
  "\<exists>t a b c payload. [9, 3, 0, 0, 9, 0, 0, 0, 0, 0, 0, 0, 5, 104] = [9] @ [t, a, b, c] @ payload \<and>
    length payload \<le> unat MAX_PAYLOAD \<and>
    decode_header (t, a, b, c) = Ok \<lparr>ty = TyInput, len = of_nat (length payload)\<rparr> \<and>
    frame_decode TyInput payload = Ok (Input 5 [104])"
proof -
  have "frame_encode (Input 5 [104]) [9]
    = ([9, 3, 0, 0, 9, 0, 0, 0, 0, 0, 0, 0, 5, 104], Ok ())"
    by (rule encode_example)
  then show ?thesis using encode_then_decode [of "Input 5 [104]" "[9]"] utf8_valid_Nil by simp
qed

section \<open>Encoding what was decoded\<close>

lemma checked_unit: "checked_term t = Ok u \<Longrightarrow> checked_term t = Ok ()"
  by simp

lemma decode_hello_Ok:
  assumes "decode_hello bs = Ok (f, rest)"
  shows "\<exists>h. f = Hello h \<and> utf8_valid (term_var h) \<and>
    (\<exists>tlen n. payload_len f = Ok (tlen, n) \<and> bs = encode_payload f tlen @ rest)"
proof -
  from assms obtain p flags off w tlen raw b1 b2 b3 b4 b5 where
    reads: "r_u16 bs = Ok (p, b1)" "r_u8 b1 = Ok (flags, b2)" "r_u64 b2 = Ok (off, b3)"
      "r_win b3 = Ok (w, b4)" "r_u16 b4 = Ok (tlen, b5)" "r_take (unat tlen) b5 = Ok (raw, rest)"
    and raw: "utf8_valid raw" "checked_term raw = Ok ()"
    and flags: "flags AND NOT HELLO_FLAG_BITS = 0"
    and f: "f = Hello \<lparr>protocol = p, agent_forward = (flags AND HELLO_AGENT_FORWARD \<noteq> 0),
        repaint_ctrl_l = (flags AND HELLO_REPAINT_CTRL_L \<noteq> 0),
        if_detached = (flags AND HELLO_IF_DETACHED \<noteq> 0),
        out_offset = off, win = w, term_var = raw\<rparr>"
    by (auto simp: decode_hello_def and_then_eq_Ok from_utf8_def split: if_splits option.splits)
  have bs: "bs = word_be 2 p @ flags # word_be 8 off @ put_win w @ word_be 2 tlen @ raw @ rest"
    and len: "length raw = unat tlen"
    using reads by (simp_all add: get_iff_simps r_take_eq_Ok)
  have "unat tlen < 65536" using unsigned_less [of tlen] by simp
  then have "payload_len f = Ok (tlen, 21 + unat tlen)"
    using raw len f by (auto simp: Let_def)
  then show ?thesis using bs raw flags f by (auto simp: hello_flags_rebuild)
qed

text \<open>Every branch of the decoder, as one fact about what it consumed.\<close>

lemma decode_fields_Ok:
  assumes "decode_fields t bs = Ok (f, rest)"
  shows "frame_type_of f = t \<and> utf8_valid (frame_text f) \<and>
    (\<exists>tlen n. payload_len f = Ok (tlen, n) \<and> bs = encode_payload f tlen @ rest)"
proof (cases t)
  case TyHello
  then show ?thesis using assms decode_hello_Ok [of bs f rest] by auto
next
  case TyHelloOk
  then show ?thesis
    using assms
    by (auto simp: decode_hello_ok_def and_then_eq_Ok get_iff_simps hello_ok_flags_rebuild
        split: if_splits)
next
  case TyExit
  then show ?thesis
    using assms
    by (auto simp: decode_exit_def and_then_eq_Ok get_iff_simps exit_kind_wire.from_wire_iff
        split: option.splits)
next
  case TyError
  then show ?thesis
    using assms
    by (auto simp: decode_error_def and_then_eq_Ok get_iff_simps from_utf8_def
        error_code_wire.from_wire_iff split: option.splits if_splits)
qed (use assms in \<open>auto simp: and_then_eq_Ok get_iff_simps\<close>)

lemma frame_decode_Ok:
  assumes "frame_decode t payload = Ok f"
  shows "decode_fields t payload = Ok (f, [])" and "length payload \<le> 262144"
    and "u32_or_max (length payload) = of_nat (length payload)"
proof -
  have le: "\<not> MAX_PAYLOAD < u32_or_max (length payload)"
    using assms by (auto simp: frame_decode_def Let_def split: if_splits)
  then obtain hdr where "encode_header t (u32_or_max (length payload)) = Ok hdr"
    by (auto simp: encode_header_def)
  then show "length payload \<le> 262144"
    and "u32_or_max (length payload) = of_nat (length payload)"
    using encode_header_small by blast+
  show "decode_fields t payload = Ok (f, [])"
    using assms le
    by (auto simp: frame_decode_def Let_def and_then_eq_Ok r_finish_def split: if_splits)
qed

text \<open>
  C2. The codec is canonical: whatever \<open>Frame::decode\<close> accepts, \<open>Frame::encode\<close> writes back
  byte for byte, behind the one header \<open>decode_header\<close> reads for it.  No two payloads of one
  type decode to the same frame, and every text field that comes out is valid UTF-8.
\<close>

theorem decode_then_encode:
  assumes "frame_decode t payload = Ok f"
  shows "frame_type_of f = t \<and> utf8_valid (frame_text f) \<and>
    (\<exists>hdr. encode_header t (of_nat (length payload)) = Ok hdr \<and>
       frame_encode f out = (out @ hdr @ payload, Ok ()))"
proof -
  note small = frame_decode_Ok [OF assms]
  from decode_fields_Ok [OF small(1)] obtain tlen n where
    ty: "frame_type_of f = t" and utf8: "utf8_valid (frame_text f)"
    and pl: "payload_len f = Ok (tlen, n)" and payload: "payload = encode_payload f tlen"
    by auto
  have n: "u32_or_max n = of_nat (length payload)"
  proof (cases "n \<le> 262144")
    case True
    then show ?thesis using length_encode_payload [OF pl] payload small(3) by simp
  next
    case False
    then show ?thesis
      using pl payload small(2)
      by (cases f)
        (auto simp: and_then_eq_Ok Let_def usize_sat_add_def min_def unat_of_nat_small
          split: if_splits)
  qed
  have "\<not> MAX_PAYLOAD < (of_nat (length payload) :: u32)"
    using small(2) by (simp add: word_less_nat_alt unat_of_nat_small)
  then show ?thesis
    using ty utf8 pl n payload by (simp add: frame_encode_def encode_header_def)
qed

theorem decode_then_encode_witness:
  "\<exists>hdr. frame_encode (Resize \<lparr>cols = 80, rows = 24, xpixel = 0, ypixel = 0\<rparr>) [9]
     = ([9] @ hdr @ [0, 80, 0, 24, 0, 0, 0, 0], Ok ())"
proof -
  have "frame_decode TyResize [0, 80, 0, 24, 0, 0, 0, 0]
    = Ok (Resize \<lparr>cols = 80, rows = 24, xpixel = 0, ypixel = 0\<rparr>)"
    by (simp add: frame_decode_def u32_or_max_def word_less_nat_alt r_win_def r_u16_def
        r_word_def r_take_def be_word_def be_nat_def r_finish_def)
  from decode_then_encode [OF this, of "[9]"] show ?thesis by blast
qed

section \<open>When encoding refuses\<close>

text \<open>The frames that cannot be put on the wire, by what is wrong with them.\<close>

fun unencodable :: "frame \<Rightarrow> bool" where
  "unencodable (Hello h) \<longleftrightarrow> 65535 < length (term_var h) \<or> 0 \<in> set (term_var h)"
| "unencodable (Exit status kind _) \<longleftrightarrow> kind = Unknown \<and> status \<noteq> 0"
| "unencodable (Input _ d) \<longleftrightarrow> MAX_OUTPUT_DATA < length d"
| "unencodable (Output _ d) \<longleftrightarrow> MAX_OUTPUT_DATA < length d"
| "unencodable (AgentData _ d) \<longleftrightarrow> MAX_AGENT_DATA < length d"
| "unencodable (Error _ m) \<longleftrightarrow> unat MAX_PAYLOAD < 2 + length m"
| "unencodable _ \<longleftrightarrow> False"

lemma encode_header_is_ok: "is_ok (encode_header t (u32_or_max n)) \<longleftrightarrow> n \<le> 262144"
proof
  assume "is_ok (encode_header t (u32_or_max n))"
  then obtain hdr where "encode_header t (u32_or_max n) = Ok hdr"
    by (cases "encode_header t (u32_or_max n)") auto
  then show "n \<le> 262144" using encode_header_small by blast
next
  assume "n \<le> 262144"
  then show "is_ok (encode_header t (u32_or_max n))"
    by (simp add: encode_header_def u32_or_max_def word_less_nat_alt unat_of_nat_small)
qed

lemma frame_encode_is_ok:
  "is_ok (snd (frame_encode f out)) \<longleftrightarrow>
     (\<exists>tlen n. payload_len f = Ok (tlen, n) \<and> n \<le> 262144)"
proof (cases "payload_len f")
  case (Ok p)
  obtain tlen n where p: "p = (tlen, n)" by (cases p)
  have "is_ok (snd (frame_encode f out)) \<longleftrightarrow> is_ok (encode_header (frame_type_of f) (u32_or_max n))"
    using Ok p
    by (cases "encode_header (frame_type_of f) (u32_or_max n)") (simp_all add: frame_encode_def)
  then show ?thesis using Ok p by (simp add: encode_header_is_ok)
qed (simp add: frame_encode_def)

lemma payload_len_encodable:
  "(\<exists>tlen n. payload_len f = Ok (tlen, n) \<and> n \<le> 262144) \<longleftrightarrow> \<not> unencodable f"
  by (cases f)
    (auto simp: and_then_eq_Ok Let_def usize_sat_add_def min_def checked_term_def
      checked_exit_def MAX_OUTPUT_DATA_def MAX_AGENT_DATA_def unat_of_nat_small split: if_splits)

text \<open>
  \<open>Frame::encode\<close> refuses exactly the unencodable frames -- a \<open>TERM\<close> past 65535 bytes or
  with a NUL, an \<open>Unknown\<close> exit with a status, a payload past \<open>MAX_PAYLOAD\<close> -- and an error
  leaves the caller's buffer as it was.
\<close>

theorem encode_error_iff:
  "(if unencodable f then \<exists>e. frame_encode f out = (out, Err e)
    else \<exists>n t a b c payload. frame_encode f out = (out @ [t, a, b, c] @ payload, Ok ()) \<and>
      length payload = n \<and> n \<le> unat MAX_PAYLOAD)"
proof (cases "is_ok (snd (frame_encode f out))")
  case True
  then obtain tlen n where len: "payload_len f = Ok (tlen, n)" "n \<le> 262144"
    by (auto simp: frame_encode_is_ok)
  from len(2) obtain hdr where hdr: "encode_header (frame_type_of f) (u32_or_max n) = Ok hdr"
    using encode_header_is_ok [of "frame_type_of f" n]
    by (cases "encode_header (frame_type_of f) (u32_or_max n)") auto
  from encode_header_Ok [OF hdr] obtain a b c where
    "hdr = [frame_type_as_wire (frame_type_of f), a, b, c]" by metis
  moreover have "\<not> unencodable f" using True by (simp add: frame_encode_is_ok payload_len_encodable)
  ultimately show ?thesis
    using len hdr length_encode_payload [OF len] by (auto simp: frame_encode_def)
next
  case False
  then have "unencodable f" by (simp add: frame_encode_is_ok payload_len_encodable)
  then show ?thesis using False by (auto simp: frame_encode_def split: res.splits)
qed

end
