(* ===== verification/Conn.thy ===== *)
theory Conn
  imports Nbio Frame_Codec
begin

text \<open>
  The framed connection of src/crates/nomux/src/conn.rs: two buffers, each a vector and a cursor,
  and the socket.  Capacities, which \<open>compact\<close> also manages, are allocation detail and are not
  modelled; the caps of \<open>daemon.rs\<close> that this file reads are declared here.
\<close>

section \<open>State\<close>

definition MAX_PENDING_WRITE :: nat where
  "MAX_PENDING_WRITE = 1048576"

definition MAX_PENDING_READ :: nat where
  "MAX_PENDING_READ = 1048576"

definition FINAL_FLUSH_TIMEOUT :: nat where
  "FINAL_FLUSH_TIMEOUT = millis 500"

record conn =
  stream :: dev
  blocking :: bool
  rx :: bytes
  rx_pos :: nat
  tx :: bytes
  tx_pos :: nat
  preamble_queued :: bool
  eof :: bool

section \<open>Operations\<close>

text \<open>\<open>compact\<close>: the buffer and the cursor afterwards.\<close>

definition compact :: "bytes \<Rightarrow> nat \<Rightarrow> bytes \<times> nat" where
  "compact buf pos =
     (if pos = length buf then ([], 0)
      else if length buf \<le> pos * 2 then (drop pos buf, 0)
      else (buf, pos))"

text \<open>\<open>Conn::new\<close>, on a stream that could be made non-blocking.\<close>

definition conn_new :: "dev \<Rightarrow> conn" where
  "conn_new d = \<lparr>stream = d, blocking = False, rx = [], rx_pos = 0, tx = [], tx_pos = 0,
     preamble_queued = False, eof = False\<rparr>"

definition queued :: "conn \<Rightarrow> nat" where
  "queued c = length (tx c) - tx_pos c"

definition buffered :: "conn \<Rightarrow> nat" where
  "buffered c = length (rx c) - rx_pos c"

text \<open>\<open>Conn::send\<close>: the connection afterwards, and whether the frame was encoded.\<close>

definition conn_send :: "frame \<Rightarrow> conn \<Rightarrow> conn \<times> bool" where
  "conn_send f c =
     (let c = (if preamble_queued c then c
               else c\<lparr>tx := tx c @ SERVER_PREAMBLE, preamble_queued := True\<rparr>)
      in case frame_encode f (tx c) of (out, r) \<Rightarrow> (c\<lparr>tx := out\<rparr>, is_ok r))"

text \<open>The loop of \<open>Conn::send_output\<close> over the chunks of its data.\<close>

fun send_parts :: "u64 \<Rightarrow> bytes list \<Rightarrow> conn \<Rightarrow> conn \<times> u64" where
  "send_parts offset [] c = (c, offset)"
| "send_parts offset (part # parts) c =
     (if MAX_PENDING_WRITE \<le> queued c then (c, offset)
      else case conn_send (Output offset part) c of (c, sent) \<Rightarrow>
        if \<not> sent then (c, offset)
        else send_parts (offset + of_nat (length part)) parts c)"

definition send_output :: "u64 \<Rightarrow> bytes \<Rightarrow> conn \<Rightarrow> conn \<times> u64" where
  "send_output offset data c = send_parts offset (chunks MAX_OUTPUT_DATA data) c"

definition send_agent_data :: "u32 \<Rightarrow> bytes \<Rightarrow> conn \<Rightarrow> conn" where
  "send_agent_data generation data c = fst (conn_send (AgentData generation data) c)"

text \<open>\<open>Conn::fill\<close> with a caller's buffer of \<open>chunk\<close> bytes.\<close>

fun fill_script :: "nat \<Rightarrow> os_read list \<Rightarrow> (bytes option, errno) res \<times> os_read list" where
  "fill_script n [] = (Ok None, [])"
| "fill_script n (r # s) =
     (case kernel_read n (r # s) of
        (Ok bs, s') \<Rightarrow> (Ok (Some bs), s')
      | (Err e, s') \<Rightarrow>
          (if e = EAGAIN then (Ok None, s')
           else if e = EINTR then fill_script n s
           else (Err e, s')))"

definition fill :: "nat \<Rightarrow> conn \<Rightarrow> conn \<times> (unit, errno) res" where
  "fill chunk c =
     (if chunk = 0 then (c, Ok ())
      else if MAX_PENDING_READ \<le> buffered c then (c, Ok ())
      else
        let room = MAX_PENDING_READ - buffered c;
            read_len = min chunk room
        in case fill_script read_len (reads (stream c)) of (r, s) \<Rightarrow>
          let c = c\<lparr>stream := (stream c)\<lparr>reads := s\<rparr>\<rparr>
          in (case r of
                Ok None \<Rightarrow> (c, Ok ())
              | Ok (Some bs) \<Rightarrow>
                  (if bs = [] then (c\<lparr>eof := True\<rparr>, Ok ()) else (c\<lparr>rx := rx c @ bs\<rparr>, Ok ()))
              | Err e \<Rightarrow> (c, Err e)))"

text \<open>The write loop of \<open>Conn::flush_some\<close>: the cursor, script and bytes taken afterwards.\<close>

fun flush_script ::
  "bytes \<Rightarrow> nat \<Rightarrow> os_write list \<Rightarrow> (unit, io_error) res \<times> nat \<times> os_write list \<times> bytes" where
  "flush_script buf pos [] = (Ok (), pos, [], [])"
| "flush_script buf pos (w # s) =
     (if length buf \<le> pos then (Ok (), pos, w # s, [])
      else case kernel_write (drop pos buf) (w # s) of
        (Ok n, s') \<Rightarrow>
          (if n = 0 then (Err WriteZero, pos, s', [])
           else case flush_script buf (pos + n) s of (r, pos', s'', out) \<Rightarrow>
             (r, pos', s'', take n (drop pos buf) @ out))
      | (Err e, s') \<Rightarrow>
          (if e = EAGAIN then (Ok (), pos, s', [])
           else if e = EINTR then flush_script buf pos s
           else (Err (Errno e), pos, s', [])))"

definition flush_some :: "conn \<Rightarrow> conn \<times> (unit, io_error) res" where
  "flush_some c =
     (case flush_script (tx c) (tx_pos c) (writes (stream c)) of (r, pos, s, out) \<Rightarrow>
       let c = c\<lparr>tx_pos := pos,
                stream := (stream c)\<lparr>writes := s, accepted := accepted (stream c) @ out\<rparr>\<rparr>
       in (case r of
             Ok _ \<Rightarrow> (case compact (tx c) (tx_pos c) of (b, p) \<Rightarrow> (c\<lparr>tx := b, tx_pos := p\<rparr>, Ok ()))
           | Err e \<Rightarrow> (c, Err e)))"

text \<open>
  The loop of \<open>Conn::flush_final\<close>: each pass reads the clock against one deadline for the whole
  call.  On the blocking socket \<open>EAGAIN\<close> is the write timeout and ends the loop as an error.
\<close>

fun flush_final_script ::
  "nat \<Rightarrow> bytes \<Rightarrow> nat \<Rightarrow> clock \<Rightarrow> os_write list
     \<Rightarrow> (unit, io_error) res \<times> nat \<times> clock \<times> os_write list \<times> bytes" where
  "flush_final_script deadline buf pos ck [] =
     (if length buf \<le> pos then (Ok (), pos, ck, [], [])
      else case clock_now ck of (now, ck) \<Rightarrow>
        if deadline \<le> now then (Err TimedOut, pos, ck, [], [])
        else (Err (Errno EAGAIN), pos, ck, [], []))"
| "flush_final_script deadline buf pos ck (w # s) =
     (if length buf \<le> pos then (Ok (), pos, ck, w # s, [])
      else case clock_now ck of (now, ck) \<Rightarrow>
        if deadline \<le> now then (Err TimedOut, pos, ck, w # s, [])
        else case kernel_write (drop pos buf) (w # s) of
          (Ok n, s') \<Rightarrow>
            (if n = 0 then (Err WriteZero, pos, ck, s', [])
             else case flush_final_script deadline buf (pos + n) ck s of (r, pos', ck', s'', out) \<Rightarrow>
               (r, pos', ck', s'', take n (drop pos buf) @ out))
        | (Err e, s') \<Rightarrow>
            (if e = EINTR then flush_final_script deadline buf pos ck s
             else (Err (Errno e), pos, ck, s', [])))"

definition flush_final :: "clock \<Rightarrow> conn \<Rightarrow> conn \<times> clock \<times> (unit, io_error) res" where
  "flush_final ck c =
     (let c = c\<lparr>blocking := True\<rparr>
      in case clock_now ck of (start, ck) \<Rightarrow>
      case flush_final_script (start + FINAL_FLUSH_TIMEOUT) (tx c) (tx_pos c) ck
             (writes (stream c)) of (r, pos, ck, s, out) \<Rightarrow>
        (c\<lparr>tx_pos := pos,
           stream := (stream c)\<lparr>writes := s, accepted := accepted (stream c) @ out\<rparr>\<rparr>, ck, r))"

text \<open>\<open>Conn::close_with\<close>: the connection as it was dropped, and the clock.\<close>

definition close_with :: "clock \<Rightarrow> frame option \<Rightarrow> conn \<Rightarrow> conn \<times> clock" where
  "close_with ck f c =
     (let c = (case f of Some f \<Rightarrow> fst (conn_send f c) | None \<Rightarrow> c)
      in case flush_final ck c of (c, ck, _) \<Rightarrow> (c, ck))"

text \<open>
  \<open>Conn::take_frame\<close>: the payload the source copies into \<open>scratch\<close> comes with the type.
\<close>

definition take_frame ::
  "conn \<Rightarrow> conn \<times> ((frame_type \<times> bytes) option, proto_error) res" where
  "take_frame c =
     (let available = drop (rx_pos c) (rx c)
      in case available of
           t # a # b # d # body \<Rightarrow>
             (case decode_header (t, a, b, d) of
                Err e \<Rightarrow> (c, Err e)
              | Ok h \<Rightarrow>
                  (let n = unat (len h)
                   in if length body < n then (c, Ok None)
                      else case compact (rx c) (rx_pos c + (HEADER_LEN + n)) of (buf, p) \<Rightarrow>
                        (c\<lparr>rx := buf, rx_pos := p\<rparr>, Ok (Some (ty h, take n body)))))
         | _ \<Rightarrow> (c, Ok None))"

end
