(* ===== verification/Conn_Props.thy ===== *)
theory Conn_Props
  imports Conn
begin

text \<open>
  What a connection promises.  Outward: the bytes the kernel has taken followed by the bytes
  still queued are the preamble, once, and then the frames sent, whole and in order.  Inward: the
  frames a peer wrote come out of \<open>take_frame\<close> exactly as they went in, wherever the reads cut
  the stream, and the receive buffer stays within its cap without ever blocking on a frame.
\<close>

section \<open>Cursors and transcripts\<close>

definition conn_ok :: "conn \<Rightarrow> bool" where
  "conn_ok c \<longleftrightarrow> tx_pos c \<le> length (tx c) \<and> rx_pos c \<le> length (rx c)"

definition untaken :: "conn \<Rightarrow> bytes" where
  "untaken c = drop (tx_pos c) (tx c)"

definition unread :: "conn \<Rightarrow> bytes" where
  "unread c = drop (rx_pos c) (rx c)"

definition transcript :: "conn \<Rightarrow> bytes" where
  "transcript c = accepted (stream c) @ untaken c"

text \<open>A frame as it stands on the wire; nothing for one that cannot be encoded.\<close>

definition wire :: "frame \<Rightarrow> bytes" where
  "wire f = fst (frame_encode f [])"

definition wires :: "frame list \<Rightarrow> bytes" where
  "wires fs = concat (map wire fs)"

lemma wires_simps [simp]:
  "wires [] = []" "wires (f # fs) = wire f @ wires fs" "wires (fs @ gs) = wires fs @ wires gs"
  by (simp_all add: wires_def)

lemma length_untaken: "length (untaken c) = queued c"
  by (simp add: untaken_def queued_def)

lemma length_unread: "length (unread c) = buffered c"
  by (simp add: unread_def buffered_def)

lemma frame_encode_wire: "fst (frame_encode f out) = out @ wire f"
  by (auto simp: wire_def frame_encode_def split: res.splits)

lemma frame_encode_snd: "snd (frame_encode f out) = snd (frame_encode f [])"
  by (auto simp: frame_encode_def split: res.splits)

definition encodable :: "frame \<Rightarrow> bool" where
  "encodable f \<longleftrightarrow> is_ok (snd (frame_encode f []))"

lemma encodable_iff: "encodable f \<longleftrightarrow> \<not> unencodable f"
proof -
  have "(\<exists>tlen n. payload_len f = Ok (tlen, n) \<and> n \<le> 262144) \<longleftrightarrow> \<not> unencodable f"
    by (rule payload_len_encodable)
  then show ?thesis by (simp add: encodable_def frame_encode_is_ok)
qed

lemma wire_unencodable: "\<not> encodable f \<Longrightarrow> wire f = []"
  by (auto simp: encodable_def wire_def frame_encode_def split: res.splits)

lemma is_ok_Ok: "is_ok (r :: (unit, 'e) res) \<longleftrightarrow> r = Ok ()"
  by (cases r) auto

text \<open>\<open>wire\<close> in the form the receiver meets it.\<close>

lemma wire_shape:
  assumes "encodable f" and "utf8_valid (frame_text f)"
  obtains t a b c payload where "wire f = t # a # b # c # payload"
    and "decode_header (t, a, b, c) = Ok \<lparr>ty = frame_type_of f, len = of_nat (length payload)\<rparr>"
    and "unat (of_nat (length payload) :: u32) = length payload"
    and "frame_decode (frame_type_of f) payload = Ok f"
proof -
  have "frame_encode f [] = (wire f, Ok ())"
    using assms(1) by (simp add: encodable_def wire_def is_ok_Ok prod_eq_iff)
  from encode_decode_parts [OF assms(2) this] obtain t a b c payload where
    p: "wire f = [t, a, b, c] @ payload" "length payload \<le> 262144"
      "decode_header (t, a, b, c) = Ok \<lparr>ty = frame_type_of f, len = of_nat (length payload)\<rparr>"
      "frame_decode (frame_type_of f) payload = Ok f" by auto
  then have "unat (of_nat (length payload) :: u32) = length payload"
    by (simp add: unat_of_nat_small)
  with p show thesis by (intro that) auto
qed

section \<open>Sending\<close>

lemma compact_drop: "compact buf pos = (buf', pos') \<Longrightarrow> pos \<le> length buf \<Longrightarrow>
    drop pos' buf' = drop pos buf \<and> pos' \<le> length buf'"
  by (auto simp: compact_def split: if_splits)

definition preamble_due :: "conn \<Rightarrow> bytes" where
  "preamble_due c = (if preamble_queued c then [] else SERVER_PREAMBLE)"

text \<open>A send only appends to \<open>tx\<close>: what is due of the preamble, then the frame.\<close>

lemma conn_send_eq:
  "conn_send f c =
     (c\<lparr>tx := tx c @ preamble_due c @ wire f, preamble_queued := True\<rparr>, encodable f)"
proof (cases "preamble_queued c")
  case True
  then have "c\<lparr>tx := t, preamble_queued := True\<rparr> = c\<lparr>tx := t\<rparr>" for t by simp
  then show ?thesis
    using True frame_encode_wire [of f "tx c"] frame_encode_snd [of f "tx c"]
    by (simp add: conn_send_def preamble_due_def encodable_def split_beta)
next
  case False
  then show ?thesis
    using frame_encode_wire [of f "tx c @ SERVER_PREAMBLE"]
      frame_encode_snd [of f "tx c @ SERVER_PREAMBLE"]
    by (simp add: conn_send_def preamble_due_def encodable_def split_beta Let_def)
qed

lemma conn_send_transcript:
  assumes "conn_ok c"
  shows "transcript (fst (conn_send f c)) = transcript c @ preamble_due c @ wire f"
  using assms by (simp add: conn_send_eq transcript_def untaken_def conn_ok_def)

lemma conn_send_ok: "conn_ok c \<Longrightarrow> conn_ok (fst (conn_send f c))"
  by (simp add: conn_send_eq conn_ok_def)

lemma conn_send_simps [step_simps]:
  "rx (fst (conn_send f c)) = rx c" "rx_pos (fst (conn_send f c)) = rx_pos c"
  "stream (fst (conn_send f c)) = stream c" "eof (fst (conn_send f c)) = eof c"
  "preamble_queued (fst (conn_send f c))"
  by (simp_all add: conn_send_eq)

lemma conn_send_queued:
  "conn_ok c \<Longrightarrow> queued (fst (conn_send f c)) = queued c + length (preamble_due c) + length (wire f)"
  by (simp add: conn_send_eq queued_def conn_ok_def)

section \<open>Flushing\<close>

lemma flush_script_conserves:
  "flush_script buf pos s = (r, pos', s', out) \<Longrightarrow> pos \<le> length buf \<Longrightarrow>
     pos \<le> pos' \<and> pos' \<le> length buf \<and> out @ drop pos' buf = drop pos buf"
proof (induction buf pos s arbitrary: pos' s' out rule: flush_script.induct)
  case (1 buf pos)
  then show ?case by simp
next
  case (2 buf pos w s)
  show ?case
  proof (cases "length buf \<le> pos")
    case True
    then show ?thesis using "2.prems" by simp
  next
    case False
    show ?thesis
    proof (cases w)
      case (WrErr e)
      then show ?thesis using False "2.prems" "2.IH" by (auto split: if_splits)
    next
      case (WrOk k)
      define n where "n = min k (length (drop pos buf))"
      show ?thesis
      proof (cases "n = 0")
        case True
        then show ?thesis using False WrOk "2.prems" by (auto simp: n_def min_def split: if_splits)
      next
        case n: False
        obtain out' where rec: "flush_script buf (pos + n) s = (r, pos', s', out')"
          and out: "out = take n (drop pos buf) @ out'"
          using False WrOk "2.prems"(1) n by (auto simp: n_def split: prod.splits if_splits)
        have kw: "kernel_write (drop pos buf) (w # s) = (Ok n, s)" using WrOk by (simp add: n_def)
        have le: "pos + n \<le> length buf" using False by (simp add: n_def)
        have "pos + n \<le> pos' \<and> pos' \<le> length buf \<and> out' @ drop pos' buf = drop (pos + n) buf"
          using "2.IH"(1) [OF False kw [symmetric] refl n rec le] .
        moreover have "take n (drop pos buf) @ drop (pos + n) buf = drop pos buf"
          by (metis append_take_drop_id drop_drop add.commute)
        ultimately show ?thesis using out by auto
      qed
    qed
  qed
qed

text \<open>The two loops write the same way; the final one can only stop sooner.\<close>

lemma flush_final_script_conserves:
  "flush_final_script dl buf pos ck s = (r, pos', ck', s', out) \<Longrightarrow> pos \<le> length buf \<Longrightarrow>
     pos \<le> pos' \<and> pos' \<le> length buf \<and> out @ drop pos' buf = drop pos buf \<and>
     (r = Ok () \<longrightarrow> pos' = length buf)"
proof (induction dl buf pos ck s arbitrary: pos' ck' s' out rule: flush_final_script.induct)
  case (1 dl buf pos ck)
  then show ?case by (auto split: if_splits prod.splits)
next
  case (2 dl buf pos ck w s)
  obtain now ck1 where now: "clock_now ck = (now, ck1)" by (cases "clock_now ck")
  show ?case
  proof (cases "length buf \<le> pos \<or> dl \<le> now")
    case True
    then show ?thesis using "2.prems" now by (auto split: if_splits)
  next
    case False
    then have nb: "\<not> length buf \<le> pos" "\<not> dl \<le> now" by auto
    show ?thesis
    proof (cases w)
      case (WrErr e)
      then show ?thesis using nb now "2.prems" "2.IH" by (auto split: if_splits)
    next
      case (WrOk k)
      define n where "n = min k (length (drop pos buf))"
      show ?thesis
      proof (cases "n = 0")
        case True
        then show ?thesis using nb WrOk now "2.prems" by (auto simp: n_def min_def split: if_splits)
      next
        case n: False
        obtain out' where rec: "flush_final_script dl buf (pos + n) ck1 s = (r, pos', ck', s', out')"
          and out: "out = take n (drop pos buf) @ out'"
          using nb WrOk now "2.prems"(1) n by (auto simp: n_def split: prod.splits if_splits)
        have kw: "kernel_write (drop pos buf) (w # s) = (Ok n, s)" using WrOk by (simp add: n_def)
        have le: "pos + n \<le> length buf" using nb by (simp add: n_def)
        have "pos + n \<le> pos' \<and> pos' \<le> length buf \<and> out' @ drop pos' buf = drop (pos + n) buf \<and>
          (r = Ok () \<longrightarrow> pos' = length buf)"
          using "2.IH"(1) [OF nb(1) now [symmetric] nb(2) kw [symmetric] refl n rec le] .
        moreover have "take n (drop pos buf) @ drop (pos + n) buf = drop pos buf"
          by (metis append_take_drop_id drop_drop add.commute)
        ultimately show ?thesis using out by auto
      qed
    qed
  qed
qed

lemma flush_some_keeps:
  assumes "conn_ok c" and "flush_some c = (c', r)"
  shows "conn_ok c'" and "transcript c' = transcript c"
    and "rx c' = rx c" "rx_pos c' = rx_pos c" "preamble_queued c' = preamble_queued c"
    and "reads (stream c') = reads (stream c)" "eof c' = eof c"
proof -
  obtain r' pos s out where fs: "flush_script (tx c) (tx_pos c) (writes (stream c)) = (r', pos, s, out)"
    by (cases "flush_script (tx c) (tx_pos c) (writes (stream c))") auto
  have cons: "pos \<le> length (tx c)" "out @ drop pos (tx c) = drop (tx_pos c) (tx c)"
    using flush_script_conserves [OF fs] assms(1) by (auto simp: conn_ok_def)
  show "conn_ok c'" and "transcript c' = transcript c"
    and "rx c' = rx c" "rx_pos c' = rx_pos c" "preamble_queued c' = preamble_queued c"
    and "reads (stream c') = reads (stream c)" "eof c' = eof c"
    using assms fs cons compact_drop [of "tx c" pos]
    by (auto simp: flush_some_def Let_def conn_ok_def transcript_def untaken_def
        split: res.splits prod.splits)
qed

lemma flush_final_keeps:
  assumes "conn_ok c" and "flush_final ck c = (c', ck', r)"
  shows "conn_ok c'" and "transcript c' = transcript c" and "r = Ok () \<Longrightarrow> untaken c' = []"
  using assms
  by (auto simp: flush_final_def Let_def conn_ok_def transcript_def untaken_def
      split: prod.splits dest: flush_final_script_conserves)

lemma close_with_transcript:
  assumes "conn_ok c"
  shows "transcript (fst (close_with ck f c)) = transcript c @
    (case f of None \<Rightarrow> [] | Some f \<Rightarrow> preamble_due c @ wire f)"
proof -
  define c1 where "c1 = (case f of Some f \<Rightarrow> fst (conn_send f c) | None \<Rightarrow> c)"
  have ok: "conn_ok c1"
    using assms by (auto simp: c1_def conn_send_ok split: option.splits)
  obtain c2 ck2 r where ff: "flush_final ck c1 = (c2, ck2, r)" by (cases "flush_final ck c1")
  have "fst (close_with ck f c) = c2" using ff by (simp add: close_with_def c1_def)
  then show ?thesis
    using flush_final_keeps(2) [OF ok ff] assms
    by (auto simp: c1_def conn_send_transcript split: option.splits)
qed

section \<open>Reading\<close>

lemma fill_script_conserves:
  "fill_script n s = (r, s') \<Longrightarrow>
    (case r of Ok (Some bs) \<Rightarrow> length bs \<le> n \<and> bs @ script_bytes s' = script_bytes s
     | _ \<Rightarrow> script_bytes s' = script_bytes s)"
proof (induction n s arbitrary: s' rule: fill_script.induct)
  case (1 n)
  then show ?case by auto
next
  case (2 n w s)
  show ?case
  proof (cases w)
    case (RdOk bs)
    then have "\<exists>bs' s''. kernel_read n (w # s) = (Ok bs', s'') \<and> length bs' \<le> n \<and>
        bs' @ script_bytes s'' = script_bytes (w # s)"
      by (auto split: if_splits)
    then show ?thesis using "2.prems" by auto
  next
    case (RdErr e)
    then show ?thesis using "2.prems" "2.IH"
      by (auto split: if_splits res.splits option.splits)
  qed
qed

lemma fill_keeps:
  assumes "conn_ok c" and "fill n c = (c', r)"
  shows "conn_ok c'" and "transcript c' = transcript c" and "preamble_queued c' = preamble_queued c"
    and "\<exists>bs. unread c' = unread c @ bs \<and>
      bs @ script_bytes (reads (stream c')) = script_bytes (reads (stream c))"
    and "buffered c \<le> MAX_PENDING_READ \<Longrightarrow> buffered c' \<le> MAX_PENDING_READ"
    and "tx c' = tx c" and "tx_pos c' = tx_pos c"
proof -
  let ?room = "min n (MAX_PENDING_READ - buffered c)"
  obtain r0 s0 where fs: "fill_script ?room (reads (stream c)) = (r0, s0)"
    by (cases "fill_script ?room (reads (stream c))")
  note cons = fill_script_conserves [OF fs]
  show "conn_ok c'" and "transcript c' = transcript c" and "preamble_queued c' = preamble_queued c"
    and "tx c' = tx c" and "tx_pos c' = tx_pos c"
    using assms fs
    by (auto simp: fill_def Let_def conn_ok_def transcript_def untaken_def
        split: if_splits res.splits option.splits)
  show "\<exists>bs. unread c' = unread c @ bs \<and>
      bs @ script_bytes (reads (stream c')) = script_bytes (reads (stream c))"
    using assms fs cons
    by (auto simp: fill_def Let_def conn_ok_def unread_def
        split: if_splits res.splits option.splits)
  show "buffered c \<le> MAX_PENDING_READ \<Longrightarrow> buffered c' \<le> MAX_PENDING_READ"
    using assms fs cons
    by (auto simp: fill_def Let_def conn_ok_def buffered_def
        split: if_splits res.splits option.splits)
qed

text \<open>What \<open>take_frame\<close> does, in terms of the unread bytes alone.\<close>

lemma take_frame_unread:
  assumes "unread c = t # a # b # d # body" and "decode_header (t, a, b, d) = Ok h"
  shows "take_frame c =
    (if length body < unat (len h) then (c, Ok None)
     else case compact (rx c) (rx_pos c + (HEADER_LEN + unat (len h))) of (buf, p) \<Rightarrow>
       (c\<lparr>rx := buf, rx_pos := p\<rparr>, Ok (Some (ty h, take (unat (len h)) body))))"
  using assms by (simp add: take_frame_def unread_def Let_def)

lemma take_frame_short: "length (unread c) < HEADER_LEN \<Longrightarrow> take_frame c = (c, Ok None)"
  by (auto simp: take_frame_def unread_def HEADER_LEN_def Let_def split: list.split
      dest: arg_cong [where f = length])

lemma drop_header: "drop (HEADER_LEN + n) (t # a # b # d # body) = drop n body"
proof -
  have "HEADER_LEN + n = Suc (Suc (Suc (Suc n)))" by (simp add: HEADER_LEN_def)
  then show ?thesis by (simp only: drop_Suc_Cons)
qed

lemma take_frame_whole:
  assumes "conn_ok c" and "unread c = t # a # b # d # body"
    and "decode_header (t, a, b, d) = Ok h" and "unat (len h) \<le> length body"
  obtains c' where "take_frame c = (c', Ok (Some (ty h, take (unat (len h)) body)))"
    and "conn_ok c'" and "unread c' = drop (unat (len h)) body"
    and "stream c' = stream c" and "tx c' = tx c" and "tx_pos c' = tx_pos c"
    and "preamble_queued c' = preamble_queued c"
proof -
  let ?p = "rx_pos c + (HEADER_LEN + unat (len h))"
  obtain buf p where cp: "compact (rx c) ?p = (buf, p)" by (cases "compact (rx c) ?p")
  have len: "length (rx c) - rx_pos c = 4 + length body"
    using arg_cong [OF assms(2), of length] by (simp add: unread_def)
  have bound: "?p \<le> length (rx c)" using len assms(4) by (simp add: HEADER_LEN_def)
  have "drop ?p (rx c) = drop (HEADER_LEN + unat (len h)) (unread c)"
    by (simp add: unread_def add.commute)
  then have "drop p buf = drop (unat (len h)) body \<and> p \<le> length buf"
    using compact_drop [OF cp bound] assms(2) by (simp add: drop_header)
  then show thesis
    using take_frame_unread [OF assms(2,3)] cp assms(1,4)
    by (intro that [of "c\<lparr>rx := buf, rx_pos := p\<rparr>"]) (auto simp: conn_ok_def unread_def)
qed

lemma take_frame_wire:
  assumes "conn_ok c" and "unread c = wire f @ rest" and "encodable f" "utf8_valid (frame_text f)"
  obtains c' payload where "take_frame c = (c', Ok (Some (frame_type_of f, payload)))"
    and "frame_decode (frame_type_of f) payload = Ok f"
    and "conn_ok c'" and "unread c' = rest"
    and "stream c' = stream c" and "tx c' = tx c" and "tx_pos c' = tx_pos c"
    and "preamble_queued c' = preamble_queued c"
proof -
  obtain t a b d payload where w: "wire f = t # a # b # d # payload"
    and hd: "decode_header (t, a, b, d) = Ok \<lparr>ty = frame_type_of f, len = of_nat (length payload)\<rparr>"
    and n: "unat (of_nat (length payload) :: u32) = length payload"
    and dec: "frame_decode (frame_type_of f) payload = Ok f"
    using wire_shape [OF assms(3,4)] by metis
  have u: "unread c = t # a # b # d # payload @ rest" using assms(2) w by simp
  from take_frame_whole [OF assms(1) u hd] n show thesis
    using dec that by (metis append_eq_conv_conj header.select_convs length_append le_add1)
qed

lemma take_frame_prefix:
  assumes "unread c @ q = wire f" and "q \<noteq> []" and "encodable f" "utf8_valid (frame_text f)"
  shows "take_frame c = (c, Ok None)"
proof (cases "length (unread c) < HEADER_LEN")
  case True
  then show ?thesis by (rule take_frame_short)
next
  case False
  obtain t a b d payload where w: "wire f = t # a # b # d # payload"
    and hd: "decode_header (t, a, b, d) = Ok \<lparr>ty = frame_type_of f, len = of_nat (length payload)\<rparr>"
    and n: "unat (of_nat (length payload) :: u32) = length payload"
    using wire_shape [OF assms(3,4)] by metis
  obtain body where u: "unread c = t # a # b # d # body" and "body @ q = payload"
    using False assms(1) w by (auto simp: HEADER_LEN_def append_eq_Cons_conv)
  then have "length body < length payload" using assms(2) by auto
  then show ?thesis using take_frame_unread [OF u hd] n by simp
qed

section \<open>Every run of a connection\<close>

lemma take_frame_keeps:
  assumes "take_frame c = (c', r)"
  shows "conn_ok c \<Longrightarrow> conn_ok c'" and "buffered c' \<le> buffered c"
    and "stream c' = stream c" "tx c' = tx c" "tx_pos c' = tx_pos c"
    and "preamble_queued c' = preamble_queued c"
    and "r = Ok (Some (t, payload)) \<Longrightarrow> buffered c' < buffered c"
proof -
  have "(conn_ok c \<longrightarrow> conn_ok c') \<and> buffered c' \<le> buffered c \<and>
    stream c' = stream c \<and> tx c' = tx c \<and> tx_pos c' = tx_pos c \<and>
    preamble_queued c' = preamble_queued c \<and>
    (r = Ok (Some (t, payload)) \<longrightarrow> buffered c' < buffered c)"
  proof (cases "\<exists>t a b d body h. unread c = t # a # b # d # body \<and>
      decode_header (t, a, b, d) = Ok h \<and> unat (len h) \<le> length body")
    case True
    then obtain t a b d body h where u: "unread c = t # a # b # d # body"
      and h: "decode_header (t, a, b, d) = Ok h" and n: "unat (len h) \<le> length body"
      by blast
    let ?p = "rx_pos c + (HEADER_LEN + unat (len h))"
    obtain buf p where cp: "compact (rx c) ?p = (buf, p)" by (cases "compact (rx c) ?p")
    have len: "length (rx c) - rx_pos c = 4 + length body"
      using arg_cong [OF u, of length] by (simp add: unread_def)
    have bound: "?p \<le> length (rx c)" using len n by (simp add: HEADER_LEN_def)
    have "length (drop p buf) = length (drop ?p (rx c)) \<and> p \<le> length buf"
      using compact_drop [OF cp bound] by simp
    then have "length buf - p < length (rx c) - rx_pos c" "p \<le> length buf"
      using len by (simp_all add: HEADER_LEN_def)
    then show ?thesis
      using assms take_frame_unread [OF u h] cp n
      by (auto simp: conn_ok_def buffered_def)
  next
    case False
    then have "c' = c \<and> r \<noteq> Ok (Some (t, payload))"
      using assms
      by (auto simp: take_frame_def unread_def Let_def not_less
          split: list.splits res.splits if_splits prod.splits)
    then show ?thesis by simp
  qed
  then show "conn_ok c \<Longrightarrow> conn_ok c'" and "buffered c' \<le> buffered c"
    and "stream c' = stream c" "tx c' = tx c" "tx_pos c' = tx_pos c"
    and "preamble_queued c' = preamble_queued c"
    and "r = Ok (Some (t, payload)) \<Longrightarrow> buffered c' < buffered c" by blast+
qed

text \<open>The operations of a session in any order.\<close>

datatype conn_op = DoSend frame | DoFlush | DoFill nat | DoTake

fun conn_step :: "conn_op \<Rightarrow> conn \<Rightarrow> conn" where
  "conn_step (DoSend f) c = fst (conn_send f c)"
| "conn_step DoFlush c = fst (flush_some c)"
| "conn_step (DoFill n) c = fst (fill n c)"
| "conn_step DoTake c = fst (take_frame c)"

fun sent_frames :: "conn_op list \<Rightarrow> frame list" where
  "sent_frames [] = []"
| "sent_frames (DoSend f # ops) = f # sent_frames ops"
| "sent_frames (_ # ops) = sent_frames ops"

definition conn_inv :: "conn \<Rightarrow> bool" where
  "conn_inv c \<longleftrightarrow> conn_ok c \<and> buffered c \<le> MAX_PENDING_READ"

lemma conn_step_inv: "conn_inv c \<Longrightarrow> conn_inv (conn_step op c)"
proof (cases op)
  case (DoSend f)
  then show "conn_inv c \<Longrightarrow> conn_inv (conn_step op c)"
    using conn_send_ok [of c f] by (simp add: conn_inv_def buffered_def conn_send_simps)
next
  case DoFlush
  obtain c' r where "flush_some c = (c', r)" by (cases "flush_some c")
  then show "conn_inv c \<Longrightarrow> conn_inv (conn_step op c)"
    using DoFlush flush_some_keeps [of c c' r] by (simp add: conn_inv_def buffered_def)
next
  case (DoFill n)
  obtain c' r where "fill n c = (c', r)" by (cases "fill n c")
  then show "conn_inv c \<Longrightarrow> conn_inv (conn_step op c)"
    using DoFill fill_keeps(1,5) [of c n c' r] by (simp add: conn_inv_def)
next
  case DoTake
  obtain c' r where tf: "take_frame c = (c', r)" by (cases "take_frame c")
  then show "conn_inv c \<Longrightarrow> conn_inv (conn_step op c)"
    using DoTake take_frame_keeps(1,2) [OF tf] by (auto simp: conn_inv_def)
qed

interpretation conn_run: preserved_step conn_step conn_inv
  by unfold_locales (rule conn_step_inv)

lemma conn_inv_new: "conn_inv (conn_new d)"
  by (simp add: conn_inv_def conn_ok_def conn_new_def buffered_def)

text \<open>The other operations neither queue nor lose a byte.\<close>

lemma quiet_steps [step_simps]:
  assumes "conn_ok c"
  shows "transcript (fst (flush_some c)) = transcript c"
    and "transcript (fst (fill n c)) = transcript c"
    and "transcript (fst (take_frame c)) = transcript c"
    and "preamble_queued (fst (flush_some c)) = preamble_queued c"
    and "preamble_queued (fst (fill n c)) = preamble_queued c"
    and "preamble_queued (fst (take_frame c)) = preamble_queued c"
  using flush_some_keeps [OF assms prod.collapse [symmetric]]
    fill_keeps [OF assms prod.collapse [symmetric]] take_frame_keeps [OF prod.collapse [symmetric]]
  by (simp_all add: transcript_def untaken_def)

lemma transcript_step:
  assumes "conn_ok c"
  shows "transcript (conn_step op c) = transcript c @
      (case op of DoSend f \<Rightarrow> preamble_due c @ wire f | _ \<Rightarrow> [])"
    and "preamble_due (conn_step op c) = (case op of DoSend f \<Rightarrow> [] | _ \<Rightarrow> preamble_due c)"
  using assms
  by (cases op; simp add: conn_send_transcript preamble_due_def step_simps)+

lemma transcript_run:
  "conn_inv c \<Longrightarrow> transcript (fold conn_step ops c) = transcript c @
     (if sent_frames ops = [] then [] else preamble_due c) @ wires (sent_frames ops)"
proof (induction ops arbitrary: c)
  case Nil
  then show ?case by simp
next
  case (Cons op ops)
  have "conn_ok c" using Cons.prems by (simp add: conn_inv_def)
  note st = transcript_step [OF this, of op]
  have "conn_inv (conn_step op c)" using Cons.prems by (rule conn_step_inv)
  from Cons.IH [OF this] show ?case using st by (cases op) auto
qed

lemma preamble_due_run:
  "conn_inv c \<Longrightarrow> preamble_due (fold conn_step ops c) =
     (if sent_frames ops = [] then preamble_due c else [])"
proof (induction ops arbitrary: c)
  case Nil
  then show ?case by simp
next
  case (Cons op ops)
  have "conn_ok c" using Cons.prems by (simp add: conn_inv_def)
  then show ?case
    using Cons.IH [OF conn_step_inv [OF Cons.prems, of op]] transcript_step(2) [of c op]
    by (cases op) auto
qed

text \<open>
  C4. Whatever a session does with a connection -- sends, flushes into a kernel that takes any
  number of bytes, reads, decodes -- the bytes the kernel has taken followed by the bytes still
  queued are the preamble, exactly once and only if anything was sent, and the frames sent, in
  order; closing with a last frame appends that frame and drops nothing already queued.
\<close>

theorem wire_is_preamble_then_frames:
  "let c = fold conn_step ops (conn_new \<lparr>reads = rs, writes = ws, accepted = []\<rparr>);
       last = fst (close_with ck (Some f) c)
   in accepted (stream c) @ untaken c =
        (if sent_frames ops = [] then [] else SERVER_PREAMBLE @ wires (sent_frames ops)) \<and>
      accepted (stream last) @ untaken last =
        SERVER_PREAMBLE @ wires (sent_frames ops @ [f])"
proof -
  let ?c0 = "conn_new \<lparr>reads = rs, writes = ws, accepted = []\<rparr>"
  let ?c = "fold conn_step ops ?c0"
  have "conn_inv ?c" by (rule conn_run.run_inv) (rule conn_inv_new)
  then have ok: "conn_ok ?c" by (simp add: conn_inv_def)
  have t: "transcript ?c =
      (if sent_frames ops = [] then [] else SERVER_PREAMBLE @ wires (sent_frames ops))"
    by (subst transcript_run [OF conn_inv_new])
      (simp add: transcript_def untaken_def conn_new_def preamble_due_def)
  have p: "preamble_due ?c = (if sent_frames ops = [] then SERVER_PREAMBLE else [])"
    using preamble_due_run [OF conn_inv_new] by (simp add: preamble_due_def conn_new_def)
  have "transcript (fst (close_with ck (Some f) ?c)) = SERVER_PREAMBLE @ wires (sent_frames ops @ [f])"
    using close_with_transcript [OF ok, of ck "Some f"] t p by (auto split: if_splits)
  then show ?thesis using t by (simp add: transcript_def Let_def)
qed

section \<open>Receiving\<close>

text \<open>The loops around \<open>take_frame\<close>: every complete frame, after each of \<open>k\<close> reads.\<close>

function take_all :: "conn \<Rightarrow> conn \<times> (frame_type \<times> bytes) list" where
  "take_all c =
     (case take_frame c of
        (c', Ok (Some p)) \<Rightarrow> (case take_all c' of (c'', ps) \<Rightarrow> (c'', p # ps))
      | (c', _) \<Rightarrow> (c', []))"
  by pat_completeness auto
termination
proof (relation "measure buffered")
  show "(c', c) \<in> measure buffered"
    if "(c', r) = take_frame c" "r = Ok v" "v = Some p" for c c' r v and p :: "frame_type \<times> bytes"
    using take_frame_keeps(7) [OF that(1) [symmetric], of "fst p" "snd p"] that by simp
qed simp

declare take_all.simps [simp del]

fun recv_rounds :: "nat \<Rightarrow> nat \<Rightarrow> conn \<Rightarrow> conn \<times> (frame_type \<times> bytes) list" where
  "recv_rounds chunk 0 c = (c, [])"
| "recv_rounds chunk (Suc k) c =
     (case take_all (fst (fill chunk c)) of (c', ps) \<Rightarrow>
        (case recv_rounds chunk k c' of (c'', qs) \<Rightarrow> (c'', ps @ qs)))"

definition sendable :: "frame \<Rightarrow> bool" where
  "sendable f \<longleftrightarrow> encodable f \<and> utf8_valid (frame_text f)"

text \<open>\<open>hs\<close> is what is still to come, and the first of it is not complete yet.\<close>

definition partial_next :: "conn \<Rightarrow> frame list \<Rightarrow> bool" where
  "partial_next c hs \<longleftrightarrow> (case hs of [] \<Rightarrow> True | h # _ \<Rightarrow> length (unread c) < length (wire h))"

lemma take_all_wires:
  assumes "conn_ok c" and "unread c @ q = wires fs" and "\<forall>f \<in> set fs. sendable f"
  shows "\<exists>gs hs c' ps. take_all c = (c', ps) \<and> fs = gs @ hs \<and>
    map (\<lambda>(t, p). frame_decode t p) ps = map Ok gs \<and> unread c' @ q = wires hs \<and>
    partial_next c' hs \<and> conn_ok c' \<and> stream c' = stream c"
  using assms
proof (induction fs arbitrary: c)
  case Nil
  then have "take_frame c = (c, Ok None)" by (intro take_frame_short) (simp add: HEADER_LEN_def)
  then have "take_all c = (c, [])" by (subst take_all.simps) simp
  then show ?case using Nil by (auto simp: partial_next_def)
next
  case (Cons f fs)
  have f: "encodable f" "utf8_valid (frame_text f)" using Cons.prems(3) by (auto simp: sendable_def)
  show ?case
  proof (cases "length (unread c) < length (wire f)")
    case True
    then have "unread c @ drop (length (unread c)) (wire f) = wire f"
      using Cons.prems(2) by (metis append_eq_append_conv_if append_take_drop_id less_imp_le_nat
          linorder_not_le wires_simps(2))
    then have "take_frame c = (c, Ok None)" by (rule take_frame_prefix) (use True f in auto)
    then have "take_all c = (c, [])" by (subst take_all.simps) simp
    then show ?thesis
      using Cons.prems True by (intro exI [of _ "[]"] exI [of _ "f # fs"]) (simp add: partial_next_def)
  next
    case False
    define rest where "rest = drop (length (wire f)) (unread c)"
    have "take (length (wire f)) (unread c @ q) = wire f" "drop (length (wire f)) (unread c @ q) = wires fs"
      using Cons.prems(2) by simp_all
    then have "take (length (wire f)) (unread c) = wire f" and u2: "rest @ q = wires fs"
      using False by (simp_all add: rest_def)
    then have u: "unread c = wire f @ rest" "rest @ q = wires fs"
      unfolding rest_def by (metis append_take_drop_id) (rule u2 [unfolded rest_def])
    obtain c1 p where tf: "take_frame c = (c1, Ok (Some (frame_type_of f, p)))"
      and dec: "frame_decode (frame_type_of f) p = Ok f"
      and c1: "conn_ok c1" "unread c1 = rest" "stream c1 = stream c"
      using take_frame_wire [OF Cons.prems(1) u(1) f] by metis
    obtain gs hs c' ps where ih: "take_all c1 = (c', ps)" "fs = gs @ hs"
      "map (\<lambda>(t, p). frame_decode t p) ps = map Ok gs" "unread c' @ q = wires hs"
      "partial_next c' hs" "conn_ok c'" "stream c' = stream c1"
      using Cons.IH [OF c1(1)] c1(2) u(2) Cons.prems(3) by auto
    have "take_all c = (c', (frame_type_of f, p) # ps)"
      using tf ih(1) by (subst take_all.simps) simp
    then show ?thesis
      using ih dec c1(3) by (intro exI [of _ "f # gs"] exI [of _ hs] exI [of _ c']) auto
  qed
qed

lemma recv_rounds_wires:
  assumes "conn_ok c" and "unread c @ script_bytes (reads (stream c)) = wires fs"
    and "\<forall>f \<in> set fs. sendable f" and "partial_next c fs"
  shows "\<exists>gs hs c' ps. recv_rounds chunk k c = (c', ps) \<and> fs = gs @ hs \<and>
    map (\<lambda>(t, p). frame_decode t p) ps = map Ok gs \<and>
    unread c' @ script_bytes (reads (stream c')) = wires hs \<and> partial_next c' hs"
  using assms
proof (induction k arbitrary: c fs)
  case 0
  then show ?case by (intro exI [of _ "[]"] exI [of _ fs]) simp
next
  case (Suc k)
  obtain c1 r1 where fl: "fill chunk c = (c1, r1)" by (cases "fill chunk c")
  note fk = fill_keeps [OF Suc.prems(1) fl]
  have "unread c1 @ script_bytes (reads (stream c1)) = wires fs"
    using fk(4) Suc.prems(2) by auto
  from take_all_wires [OF fk(1) this Suc.prems(3)] obtain gs hs c2 ps where
    ta: "take_all c1 = (c2, ps)" "fs = gs @ hs" "map (\<lambda>(t, p). frame_decode t p) ps = map Ok gs"
      "unread c2 @ script_bytes (reads (stream c1)) = wires hs" "partial_next c2 hs"
      "conn_ok c2" "stream c2 = stream c1" by metis
  have "unread c2 @ script_bytes (reads (stream c2)) = wires hs" "\<forall>f \<in> set hs. sendable f"
    using ta Suc.prems(3) by auto
  from Suc.IH [OF ta(6) this ta(5)] obtain gs' hs' c3 qs where
    "recv_rounds chunk k c2 = (c3, qs)" "hs = gs' @ hs'"
    "map (\<lambda>(t, p). frame_decode t p) qs = map Ok gs'"
    "unread c3 @ script_bytes (reads (stream c3)) = wires hs'" "partial_next c3 hs'" by metis
  then show ?case
    using fl ta by (intro exI [of _ "gs @ gs'"] exI [of _ hs'] exI [of _ c3] exI [of _ "ps @ qs"]) simp
qed


lemma wire_example: "wire Ping = [0x0a, 0, 0, 0]"
  by (simp add: wire_def frame_encode_def encode_header_def u32_or_max_def word_be_def nat_be_4
      MAX_PAYLOAD_def)


section \<open>The caps\<close>

lemma take_frame_full:
  assumes "HEADER_LEN + unat MAX_PAYLOAD \<le> buffered c"
  shows "snd (take_frame c) \<noteq> Ok None"
proof -
  have "262148 \<le> length (unread c)" using assms by (simp add: length_unread HEADER_LEN_def)
  then obtain t a b d body where u: "unread c = t # a # b # d # body" "262144 \<le> length body"
    by (cases "unread c"; cases "tl (unread c)"; cases "tl (tl (unread c))";
        cases "tl (tl (tl (unread c)))") auto
  show ?thesis
  proof (cases "decode_header (t, a, b, d)")
    case (Ok h)
    then have "unat (len h) \<le> 262144"
      using decode_header_Ok(1) [OF Ok] by (simp add: word_le_nat_alt)
    then have "\<not> length body < unat (len h)" using u(2) by simp
    then show ?thesis
      using take_frame_unread [OF u(1) Ok] by (simp split: prod.split)
  next
    case (Err e)
    then show ?thesis using u(1) by (simp add: take_frame_def unread_def Let_def)
  qed
qed

text \<open>
  The receive buffer never exceeds its cap, whatever a session does; and a buffer that has
  reached the cap -- so that \<open>fill\<close> reads no more -- always has a frame or an error to give:
  a connection cannot wedge itself on a frame larger than the room left for it.
\<close>

theorem receive_cap_never_wedges:
  "let c = fold conn_step ops (conn_new d)
   in buffered c \<le> MAX_PENDING_READ \<and>
      (if MAX_PENDING_READ \<le> buffered c
       then fill n c = (c, Ok ()) \<and> snd (take_frame c) \<noteq> Ok None
       else True)"
proof -
  let ?c = "fold conn_step ops (conn_new d)"
  have "conn_inv ?c" by (rule conn_run.run_inv) (rule conn_inv_new)
  moreover have "snd (take_frame ?c) \<noteq> Ok None" if "MAX_PENDING_READ \<le> buffered ?c"
    using that by (intro take_frame_full) (simp add: MAX_PENDING_READ_def HEADER_LEN_def)
  ultimately show ?thesis by (simp add: conn_inv_def fill_def Let_def)
qed

section \<open>Output, split into frames\<close>

text \<open>Contiguous \<open>Output\<close> frames over some chunks, the first at \<open>offset\<close>.\<close>

fun output_frames :: "u64 \<Rightarrow> bytes list \<Rightarrow> frame list" where
  "output_frames offset [] = []"
| "output_frames offset (p # ps) =
     Output offset p # output_frames (offset + of_nat (length p)) ps"

lemma encodable_Output: "length d \<le> MAX_OUTPUT_DATA \<Longrightarrow> encodable (Output offset d)"
  by (simp add: encodable_iff not_less)

lemma length_wire_Output:
  assumes "length d \<le> MAX_OUTPUT_DATA"
  shows "length (wire (Output offset d)) = 12 + length d"
proof -
  have le: "8 + length d \<le> 262144" using assms by (simp add: MAX_OUTPUT_DATA_def)
  then have sat: "usize_sat_add 8 (length d) = 8 + length d" by (simp add: usize_sat_add_small)
  obtain hdr where hdr: "encode_header TyOutput (u32_or_max (8 + length d)) = Ok hdr"
    using encode_header_is_ok [of TyOutput "8 + length d"] le
    by (cases "encode_header TyOutput (u32_or_max (8 + length d))") auto
  from encode_header_Ok [OF hdr] obtain a b c where
    "hdr = [frame_type_as_wire TyOutput, a, b, c]" by metis
  then show ?thesis using sat hdr by (simp add: wire_def frame_encode_def)
qed

lemma send_parts_spec:
  assumes "conn_ok c" and "\<forall>p \<in> set parts. length p \<le> MAX_OUTPUT_DATA"
  shows "\<exists>sent rest. parts = sent @ rest \<and>
    snd (send_parts offset parts c) = offset + of_nat (length (concat sent)) \<and>
    tx (fst (send_parts offset parts c)) =
      tx c @ (if sent = [] then [] else preamble_due c @ wires (output_frames offset sent)) \<and>
    tx_pos (fst (send_parts offset parts c)) = tx_pos c \<and>
    stream (fst (send_parts offset parts c)) = stream c \<and>
    rx (fst (send_parts offset parts c)) = rx c \<and>
    rx_pos (fst (send_parts offset parts c)) = rx_pos c \<and>
    preamble_due (fst (send_parts offset parts c)) = (if sent = [] then preamble_due c else []) \<and>
    (rest \<noteq> [] \<longrightarrow> MAX_PENDING_WRITE \<le> queued (fst (send_parts offset parts c))) \<and>
    (queued (fst (send_parts offset parts c))
       \<le> max (queued c) (MAX_PENDING_WRITE + 12 + HEADER_LEN + unat MAX_PAYLOAD))"
  using assms
proof (induction offset parts c rule: send_parts.induct)
  case (1 offset c)
  then show ?case by (intro exI [of _ "[]"]) simp
next
  case (2 offset part parts c)
  have enc: "encodable (Output offset part)" using "2.prems" by (intro encodable_Output) simp
  let ?c1 = "fst (conn_send (Output offset part) c)"
  have cs: "conn_send (Output offset part) c = (?c1, True)" using enc by (simp add: conn_send_eq)
  show ?case
  proof (cases "MAX_PENDING_WRITE \<le> queued c")
    case True
    then show ?thesis by (intro exI [of _ "[]"] exI [of _ "part # parts"]) simp
  next
    case False
    have ok: "conn_ok ?c1" using "2.prems" by (intro conn_send_ok)
    have small: "queued ?c1 \<le> MAX_PENDING_WRITE + 12 + HEADER_LEN + unat MAX_PAYLOAD"
      using False "2.prems" conn_send_queued [OF "2.prems"(1), of "Output offset part"]
      by (simp add: length_wire_Output preamble_due_def SERVER_PREAMBLE_def MAX_OUTPUT_DATA_def
          HEADER_LEN_def)
    have parts: "\<forall>p \<in> set parts. length p \<le> MAX_OUTPUT_DATA" using "2.prems" by simp
    from "2.IH" [OF False cs [symmetric] _ ok parts] obtain sent rest where
      ih: "parts = sent @ rest"
      "snd (send_parts (offset + of_nat (length part)) parts ?c1)
         = offset + of_nat (length part) + of_nat (length (concat sent))"
      "tx (fst (send_parts (offset + of_nat (length part)) parts ?c1)) = tx ?c1 @
        (if sent = [] then [] else preamble_due ?c1
           @ wires (output_frames (offset + of_nat (length part)) sent))"
      "tx_pos (fst (send_parts (offset + of_nat (length part)) parts ?c1)) = tx_pos ?c1"
      "stream (fst (send_parts (offset + of_nat (length part)) parts ?c1)) = stream ?c1"
      "rx (fst (send_parts (offset + of_nat (length part)) parts ?c1)) = rx ?c1"
      "rx_pos (fst (send_parts (offset + of_nat (length part)) parts ?c1)) = rx_pos ?c1"
      "preamble_due (fst (send_parts (offset + of_nat (length part)) parts ?c1))
        = (if sent = [] then preamble_due ?c1 else [])"
      "rest \<noteq> [] \<longrightarrow>
         MAX_PENDING_WRITE \<le> queued (fst (send_parts (offset + of_nat (length part)) parts ?c1))"
      "queued (fst (send_parts (offset + of_nat (length part)) parts ?c1))
         \<le> max (queued ?c1) (MAX_PENDING_WRITE + 12 + HEADER_LEN + unat MAX_PAYLOAD)"
      by auto
    have step: "send_parts offset (part # parts) c
        = send_parts (offset + of_nat (length part)) parts ?c1"
      using False by (subst send_parts.simps(2), subst cs) simp
    show ?thesis
      unfolding step using ih small
      by (intro exI [of _ "part # sent"] exI [of _ rest])
        (auto simp: conn_send_eq preamble_due_def ac_simps)
  qed
qed

lemma send_output_sent:
  assumes "conn_ok c" and "send_output offset data c = (c', offset')"
  obtains sent where "offset' = offset + of_nat (length (concat sent))"
    and "concat sent = take (length (concat sent)) data" and "length (concat sent) \<le> length data"
    and "\<forall>p \<in> set sent. p \<noteq> [] \<and> length p \<le> MAX_OUTPUT_DATA"
    and "transcript c' = transcript c
      @ (if sent = [] then [] else preamble_due c @ wires (output_frames offset sent))"
    and "preamble_due c' = (if sent = [] then preamble_due c else [])" and "conn_ok c'"
    and "length (concat sent) < length data \<Longrightarrow> MAX_PENDING_WRITE \<le> queued c'"
    and "queued c' \<le> max (queued c) (MAX_PENDING_WRITE + 12 + HEADER_LEN + unat MAX_PAYLOAD)"
proof -
  have pos: "0 < MAX_OUTPUT_DATA" by (simp add: MAX_OUTPUT_DATA_def)
  let ?parts = "chunks MAX_OUTPUT_DATA data"
  have small: "\<forall>p \<in> set ?parts. length p \<le> MAX_OUTPUT_DATA" using chunks_bounds by blast
  from send_parts_spec [OF assms(1) small, of offset] assms(2) obtain sent rest where
    s: "?parts = sent @ rest" "offset' = offset + of_nat (length (concat sent))"
    "tx c' = tx c @ (if sent = [] then [] else preamble_due c @ wires (output_frames offset sent))"
    "tx_pos c' = tx_pos c" "stream c' = stream c" "rx c' = rx c" "rx_pos c' = rx_pos c"
    "preamble_due c' = (if sent = [] then preamble_due c else [])"
    "rest \<noteq> [] \<longrightarrow> MAX_PENDING_WRITE \<le> queued c'"
    "queued c' \<le> max (queued c) (MAX_PENDING_WRITE + 12 + HEADER_LEN + unat MAX_PAYLOAD)"
    by (auto simp: send_output_def)
  have data: "data = concat sent @ concat rest"
    using concat_chunks [OF pos, of data] s(1) by (metis concat_append)
  show thesis
  proof (rule that)
    show "offset' = offset + of_nat (length (concat sent))" by (rule s(2))
    show "concat sent = take (length (concat sent)) data" by (subst data) simp
    show "length (concat sent) \<le> length data" by (subst data) simp
    show "\<forall>p \<in> set sent. p \<noteq> [] \<and> length p \<le> MAX_OUTPUT_DATA"
      using s(1) chunks_bounds [of _ MAX_OUTPUT_DATA data] by (metis Un_iff set_append)
    show "transcript c' = transcript c
        @ (if sent = [] then [] else preamble_due c @ wires (output_frames offset sent))"
      using s(3-5) assms(1) by (simp add: transcript_def untaken_def conn_ok_def)
    show "conn_ok c'" using s(3-7) assms(1) by (simp add: conn_ok_def)
    show "MAX_PENDING_WRITE \<le> queued c'" if "length (concat sent) < length data"
      using s(9) data that by auto
  qed (rule s(8), rule s(10))
qed

text \<open>
  \<open>send_output\<close> queues a prefix of its data as contiguous, non-empty \<open>Output\<close> frames that
  all fit a frame, and returns the offset just past it; it stops short only at the queue cap,
  and overshoots the cap by at most one frame.
\<close>

theorem send_output_contiguous_prefix:
  assumes "conn_ok c" and "send_output offset data c = (c', offset')"
  shows "\<exists>sent. offset' = offset + of_nat (length (concat sent)) \<and>
    concat sent = take (length (concat sent)) data \<and>
    (\<forall>p \<in> set sent. p \<noteq> [] \<and> length p \<le> MAX_OUTPUT_DATA) \<and>
    transcript c' = transcript c
      @ (if sent = [] then [] else preamble_due c @ wires (output_frames offset sent)) \<and>
    (length (concat sent) < length data \<longrightarrow> MAX_PENDING_WRITE \<le> queued c') \<and>
    queued c' \<le> max (queued c) (MAX_PENDING_WRITE + 12 + HEADER_LEN + unat MAX_PAYLOAD)"
  by (rule send_output_sent [OF assms]) blast

theorem send_output_contiguous_prefix_witness:
  "case send_output 7 [1, 2, 3] (conn_new \<lparr>reads = [], writes = [], accepted = []\<rparr>)
   of (c', offset') \<Rightarrow> \<exists>sent. offset' = 7 + of_nat (length (concat sent)) \<and>
     concat sent = take (length (concat sent)) [1, 2, 3 :: u8]"
proof -
  let ?c = "conn_new \<lparr>reads = [], writes = [], accepted = []\<rparr>"
  obtain c' offset' where so: "send_output 7 [1, 2, 3] ?c = (c', offset')"
    by (cases "send_output 7 [1, 2, 3] ?c")
  have "conn_ok ?c" by (simp add: conn_ok_def conn_new_def)
  from send_output_contiguous_prefix [OF this so] show ?thesis
    unfolding so prod.case by blast
qed

end
