(* ===== verification/Ring.thy ===== *)
theory Ring
  imports Prelude
begin

text \<open>
  The output ring of src/crates/nomux/src/ring.rs: a rolling window over the tail of the output
  stream, addressed by absolute offset.  \<open>VecDeque::as_slices\<close> may split the retained bytes
  anywhere; where it does is the parameter \<open>split_at\<close> of \<open>slices_from\<close>.  The abstract
  specification is the whole output history: the ring is a function of it and of the capacity.
\<close>

section \<open>The ring\<close>

record ring =
  ring_buf :: bytes
  capacity :: nat
  base :: u64

text \<open>\<open>Ring::try_new\<close>; whether the allocator grants the reservation is the parameter.\<close>

definition ring_try_new :: "(nat \<Rightarrow> bool) \<Rightarrow> nat \<Rightarrow> (ring, unit) res" where
  "ring_try_new reserve cap =
     (let cap = max cap 1
      in if reserve cap then Ok \<lparr>ring_buf = [], capacity = cap, base = 0\<rparr> else Err ())"

text \<open>\<open>Ring::end\<close>\<close>

definition ring_end :: "ring \<Rightarrow> u64" where
  "ring_end r = base r + of_nat (length (ring_buf r))"

text \<open>\<open>Ring::push\<close>\<close>

definition ring_push :: "bytes \<Rightarrow> ring \<Rightarrow> ring" where
  "ring_push data r =
     (let overflow = usize_sat_add (length (ring_buf r)) (length data) - capacity r;
          from_buf = min overflow (length (ring_buf r))
      in r\<lparr>base := base r + of_nat overflow,
           ring_buf := drop from_buf (ring_buf r) @ drop (overflow - from_buf) data\<rparr>)"

text \<open>\<open>Ring::slices_from\<close>, the deque split after \<open>split_at\<close> bytes.\<close>

definition slices_from :: "nat \<Rightarrow> ring \<Rightarrow> u64 \<Rightarrow> bytes list" where
  "slices_from split_at r from =
     (let skip = sat_sub64 from (base r);
          front = take split_at (ring_buf r);
          rear = drop split_at (ring_buf r)
      in [drop skip front, drop (skip - length front) rear])"

section \<open>The abstract window\<close>

text \<open>
  A window over a history of bytes: it retains the last \<open>cap\<close> of them, and every offset is an
  index into the history.  What \<open>Daemon::pump_output\<close> relies on is stated here once.
\<close>

locale output_window =
  fixes push :: "bytes \<Rightarrow> 'r \<Rightarrow> 'r" and lo :: "'r \<Rightarrow> u64" and hi :: "'r \<Rightarrow> u64"
    and slices :: "nat \<Rightarrow> 'r \<Rightarrow> u64 \<Rightarrow> bytes list"
    and window :: "nat \<Rightarrow> 'r \<Rightarrow> bytes \<Rightarrow> bool"
  assumes window_lo: "window cap r h \<Longrightarrow> unat (lo r) = length h - cap"
    and window_hi: "window cap r h \<Longrightarrow> unat (hi r) = length h"
    and window_push: "window cap r h \<Longrightarrow> length (h @ d) < 2 ^ 64 \<Longrightarrow> window cap (push d r) (h @ d)"
    and window_slices: "window cap r h \<Longrightarrow>
      concat (slices k r from) = drop (max (unat from) (length h - cap)) h"
begin

lemma lo_le_hi: "window cap r h \<Longrightarrow> lo r \<le> hi r"
  by (simp add: word_le_nat_alt window_lo window_hi)

lemma window_run:
  "window cap r h \<Longrightarrow> length (h @ concat ds) < 2 ^ 64 \<Longrightarrow> window cap (fold push ds r) (h @ concat ds)"
proof (induction ds arbitrary: r h)
  case Nil
  then show ?case by simp
next
  case (Cons d ds)
  then have "window cap (push d r) (h @ d)" by (intro window_push) simp_all
  from Cons.IH [OF this] Cons.prems show ?case by simp
qed

text \<open>A reader inside the window gets exactly what it is missing; one below it starts at \<open>lo\<close>.\<close>

lemma read_in_window:
  assumes "window cap r h" and "lo r \<le> from"
  shows "concat (slices k r from) = drop (unat from) h"
  using assms window_slices [OF assms(1)] window_lo [OF assms(1)]
  by (simp add: word_le_nat_alt max_def)

lemma read_below_window:
  assumes "window cap r h" and "from \<le> lo r"
  shows "concat (slices k r from) = drop (unat (lo r)) h"
  using assms window_slices [OF assms(1)] window_lo [OF assms(1)]
  by (simp add: word_le_nat_alt max_def)

end

section \<open>The ring implements the window\<close>

definition ring_window :: "nat \<Rightarrow> ring \<Rightarrow> bytes \<Rightarrow> bool" where
  "ring_window cap r h \<longleftrightarrow>
     capacity r = cap \<and> 0 < cap \<and> length h < 2 ^ 64 \<and>
     base r = of_nat (length h - cap) \<and> ring_buf r = drop (length h - cap) h"

lemma ring_window_base:
  assumes "ring_window cap r h"
  shows "unat (base r) = length h - cap"
  using assms by (auto simp: ring_window_def intro: unat_of_nat_small)

lemma ring_window_end:
  assumes "ring_window cap r h"
  shows "unat (ring_end r) = length h"
proof -
  have "unat (base r) + length (ring_buf r) = length h"
    using assms ring_window_base [OF assms] by (auto simp: ring_window_def)
  moreover have "length h < 2 ^ 64" using assms by (simp add: ring_window_def)
  ultimately show ?thesis unfolding ring_end_def by (metis unat_add_of_nat)
qed

lemma ring_window_push:
  assumes "ring_window cap r h" and "length (h @ d) < 2 ^ 64"
  shows "ring_window cap (ring_push d r) (h @ d)"
proof -
  let ?o = "length (ring_buf r) + length d - cap"
  have cap: "capacity r = cap" "0 < cap" and buf: "ring_buf r = drop (length h - cap) h"
    and b: "base r = of_nat (length h - cap)"
    using assms(1) by (auto simp: ring_window_def)
  have sat: "usize_sat_add (length (ring_buf r)) (length d) = length (ring_buf r) + length d"
    using assms(2) buf by (auto simp: usize_sat_add_def min_def)
  have o: "length h - cap + ?o = length (h @ d) - cap"
    using buf by auto
  have "base (ring_push d r) = of_nat (length h - cap + ?o)"
    using cap b by (simp add: ring_push_def sat Let_def)
  moreover have "ring_buf (ring_push d r) = drop ?o (ring_buf r @ d)"
    using cap by (simp add: ring_push_def sat Let_def min_def)
  moreover have "ring_buf r @ d = drop (length h - cap) (h @ d)" using buf by simp
  then have "drop ?o (ring_buf r @ d) = drop (length h - cap + ?o) (h @ d)"
    by (simp only: drop_drop add.commute)
  ultimately show ?thesis using cap assms(2) o by (simp add: ring_window_def ring_push_def Let_def)
qed

lemma concat_slices_from:
  "concat (slices_from k r from) = drop (sat_sub64 from (base r)) (ring_buf r)"
proof -
  let ?s = "sat_sub64 from (base r)"
  have "drop ?s (ring_buf r) = drop ?s (take k (ring_buf r) @ drop k (ring_buf r))" by simp
  also have "\<dots> = drop ?s (take k (ring_buf r))
      @ drop (?s - length (take k (ring_buf r))) (drop k (ring_buf r))"
    by (rule drop_append)
  finally show ?thesis by (simp add: slices_from_def Let_def)
qed

interpretation ring_win: output_window ring_push base ring_end slices_from ring_window
proof
  show "concat (slices_from k r from) = drop (max (unat from) (length h - cap)) h"
    if "ring_window cap r h" for cap r h k and "from"
    using that ring_window_base [OF that]
    by (simp add: concat_slices_from sat_sub64_def ring_window_def max_def)
qed (simp_all add: ring_window_base ring_window_end ring_window_push)

lemma ring_window_new:
  "ring_try_new reserve n = Ok r \<Longrightarrow> ring_window (max n 1) r []"
  by (auto simp: ring_try_new_def ring_window_def Let_def split: if_splits)

lemma slices_from_two: "\<exists>a b. slices_from k r from = [a, b]"
  by (simp add: slices_from_def Let_def)

text \<open>
  C3. A ring created with capacity \<open>n\<close> and fed any writes is the window over everything written:
  it holds exactly the last \<open>max n 1\<close> bytes, its end is the number of bytes ever written, and a
  read from any offset -- however the deque is split -- is the history from that offset, or from
  the oldest retained byte if the offset is older.
\<close>

theorem ring_is_tail_of_output:
  assumes "ring_try_new reserve n = Ok r" and "h = concat ds" and "length h < 2 ^ 64"
  shows "ring_buf (fold ring_push ds r) = drop (length h - max n 1) h \<and>
    unat (base (fold ring_push ds r)) = length h - max n 1 \<and>
    unat (ring_end (fold ring_push ds r)) = length h \<and>
    concat (slices_from k (fold ring_push ds r) from)
      = drop (max (unat from) (length h - max n 1)) h"
proof -
  have "ring_window (max n 1) (fold ring_push ds r) ([] @ concat ds)"
    using assms by (intro ring_win.window_run ring_window_new) auto
  then have w: "ring_window (max n 1) (fold ring_push ds r) h" using assms by simp
  show ?thesis
    using ring_win.window_lo [OF w] ring_win.window_hi [OF w] ring_win.window_slices [OF w] w
    by (simp add: ring_window_def)
qed

theorem ring_is_tail_of_output_witness:
  "ring_buf (fold ring_push [[1, 2, 3], [4], [5, 6]] \<lparr>ring_buf = [], capacity = 4, base = 0\<rparr>)
     = [3, 4, 5, 6]"
  using ring_is_tail_of_output [of "\<lambda>_. True" 4 "\<lparr>ring_buf = [], capacity = 4, base = 0\<rparr>"
      "[1, 2, 3, 4, 5, 6]" "[[1, 2, 3], [4], [5, 6]]" 0 0]
  by (simp add: ring_try_new_def)

end
