(* ===== verification/Usock.thy ===== *)
theory Usock
  imports Nbio
begin

text \<open>
  Session sockets: src/crates/nomux/src/usock.rs.  What a \<open>connect\<close> or an \<open>accept\<close> answers is a
  script, as for a descriptor; a peer carries its stream, what \<open>SO_PEERCRED\<close> reports of it and
  whether its stream can be made non-blocking.  A connect script that has run out answers
  \<open>EAGAIN\<close>, the full backlog of a listener that no longer accepts.  Paths are byte strings.
\<close>

section \<open>Peers\<close>

record peer =
  p_dev :: dev
  p_uid :: "(u32, errno) res"
  p_nonblock :: bool

datatype os_accept = AcOk peer | AcErr errno

text \<open>\<open>Foreign\<close>, and the two refusals written in terms of it.\<close>

datatype foreign = Uid u32 | Unnamed errno

definition foreign_peer :: "u32 \<Rightarrow> peer \<Rightarrow> foreign option" where
  "foreign_peer ours p =
     (case p_uid p of
        Ok uid \<Rightarrow> (if uid = ours then None else Some (Uid uid))
      | Err e \<Rightarrow> Some (Unnamed e))"

definition peer_is_ours :: "u32 \<Rightarrow> peer \<Rightarrow> bool" where
  "peer_is_ours ours p =
     (case foreign_peer ours p of None \<Rightarrow> True | Some _ \<Rightarrow> False)"

lemma peer_is_ours_iff: "peer_is_ours ours p \<longleftrightarrow> p_uid p = Ok ours"
  by (auto simp: peer_is_ours_def foreign_peer_def split: res.splits option.splits)

text \<open>One \<open>accept(2)\<close> on a non-blocking listener.\<close>

fun kernel_accept :: "os_accept list \<Rightarrow> (peer, errno) res \<times> os_accept list" where
  "kernel_accept [] = (Err EAGAIN, [])"
| "kernel_accept (AcOk p # s) = (Ok p, s)"
| "kernel_accept (AcErr e # s) = (Err e, s)"

section \<open>Connecting within a deadline\<close>

definition SUN_PATH_MAX :: nat where
  "SUN_PATH_MAX = 107"

definition PROBE_RETRY :: nat where
  "PROBE_RETRY = millis 10"

text \<open>Why an attempt says nothing about the listener; the message of the timeout.\<close>

datatype unsettled = BacklogFull | Interrupted

datatype connect_error = CnErrno errno | PermissionDenied foreign | CnTimedOut unsettled

text \<open>\<open>nothing_is_listening\<close>\<close>

fun nothing_is_listening :: "connect_error \<Rightarrow> bool" where
  "nothing_is_listening (CnErrno e) \<longleftrightarrow> e = ECONNREFUSED \<or> e = ENOENT"
| "nothing_is_listening _ \<longleftrightarrow> False"

text \<open>\<open>unix_address\<close>: the path with its terminator, in a \<open>sun_path\<close> of 108 bytes.\<close>

definition unix_address :: "bytes \<Rightarrow> (bytes, errno) res" where
  "unix_address path =
     (if SUN_PATH_MAX < length path then Err ENAMETOOLONG
      else Ok (path @ replicate (SUN_PATH_MAX + 1 - length path) 0))"

text \<open>One \<open>connect_once\<close>.\<close>

datatype os_connect = CnOk peer | CnErr errno

fun connect_once :: "os_connect list \<Rightarrow> (peer, errno) res \<times> os_connect list" where
  "connect_once [] = (Err EAGAIN, [])"
| "connect_once (CnOk p # s) = (Ok p, s)"
| "connect_once (CnErr e # s) = (Err e, s)"

text \<open>
  The loop of \<open>connect_within\<close>.  It ends however long the kernel goes on answering
  \<open>EAGAIN\<close> or \<open>EINTR\<close>: every pass that is not the last sleeps a positive time, and the
  deadline is fixed.
\<close>

function connect_loop ::
  "u32 \<Rightarrow> nat \<Rightarrow> clock \<Rightarrow> os_connect list \<Rightarrow> (peer, connect_error) res \<times> clock" where
  "connect_loop ours deadline ck s =
     (case connect_once s of
        (Ok p, _) \<Rightarrow>
          (case foreign_peer ours p of
             Some f \<Rightarrow> (Err (PermissionDenied f), ck)
           | None \<Rightarrow> (Ok p, ck))
      | (Err e, s') \<Rightarrow>
          (if e \<noteq> EAGAIN \<and> e \<noteq> EINTR then (Err (CnErrno e), ck)
           else
             let why = (if e = EAGAIN then BacklogFull else Interrupted);
                 (now, ck) = clock_now ck;
                 remaining = deadline - now
             in if remaining = 0 then (Err (CnTimedOut why), ck)
                else connect_loop ours deadline (clock_sleep (min PROBE_RETRY remaining) ck) s'))"
  by pat_completeness auto
termination
  by (relation "measure (\<lambda>(_, dl, ck, _). dl - fst ck)")
    (auto simp: clock_sleep_def PROBE_RETRY_def millis_def min_def
      dest!: clock_now_mono [OF sym])

declare connect_loop.simps [simp del]

definition connect_within ::
  "u32 \<Rightarrow> bytes \<Rightarrow> nat \<Rightarrow> clock \<Rightarrow> os_connect list \<Rightarrow> (peer, connect_error) res \<times> clock" where
  "connect_within ours path within ck s =
     (case unix_address path of
        Err e \<Rightarrow> (Err (CnErrno e), ck)
      | Ok _ \<Rightarrow> (case clock_now ck of (start, ck) \<Rightarrow> connect_loop ours (start + within) ck s))"

datatype liveness = LvAlive peer | LvStale connect_error | LvUnknown connect_error

definition liveness_of :: "(peer, connect_error) res \<Rightarrow> liveness" where
  "liveness_of r =
     (case r of
        Ok p \<Rightarrow> LvAlive p
      | Err e \<Rightarrow> (if nothing_is_listening e then LvStale e else LvUnknown e))"

definition probe ::
  "u32 \<Rightarrow> bytes \<Rightarrow> nat \<Rightarrow> clock \<Rightarrow> os_connect list \<Rightarrow> liveness \<times> clock" where
  "probe ours path within ck s =
     (case connect_within ours path within ck s of (r, ck) \<Rightarrow> (liveness_of r, ck))"

section \<open>What a probe may conclude\<close>

text \<open>
  The answers a probe has sat through, and the one it ended on; \<open>None\<close> where the script ran out
  into a backlog that stays full.
\<close>

definition settled_on :: "os_connect list \<Rightarrow> os_connect option \<Rightarrow> bool" where
  "settled_on s final \<longleftrightarrow> (\<exists>pre rest. set pre \<subseteq> {CnErr EAGAIN, CnErr EINTR} \<and>
     (case final of Some a \<Rightarrow> s = pre @ a # rest | None \<Rightarrow> s = pre))"

lemma settled_on_now: "settled_on (a # s) (Some a)"
  unfolding settled_on_def by (rule exI [of _ "[]"]) auto

lemma settled_on_skip:
  assumes "settled_on s final" and "a \<in> {CnErr EAGAIN, CnErr EINTR}"
  shows "settled_on (a # s) final"
proof -
  obtain pre rest where "set pre \<subseteq> {CnErr EAGAIN, CnErr EINTR}"
    "case final of Some b \<Rightarrow> s = pre @ b # rest | None \<Rightarrow> s = pre"
    using assms(1) by (auto simp: settled_on_def)
  then show ?thesis
    unfolding settled_on_def using assms(2)
    by (intro exI [of _ "a # pre"] exI [of _ rest]) (auto split: option.splits)
qed

lemma connect_once_cases:
  "connect_once s = (Err e, s') \<Longrightarrow> (s = CnErr e # s') \<or> (s = [] \<and> s' = [] \<and> e = EAGAIN)"
  "connect_once s = (Ok p, s') \<Longrightarrow> s = CnOk p # s'"
  by (cases s rule: connect_once.cases; simp)+

text \<open>How each ending of the loop came about.\<close>

definition loop_end :: "u32 \<Rightarrow> nat \<Rightarrow> os_connect list \<Rightarrow> (peer, connect_error) res \<times> clock \<Rightarrow> bool" where
  "loop_end ours deadline s out \<longleftrightarrow>
     (case fst out of
        Ok p \<Rightarrow> settled_on s (Some (CnOk p)) \<and> p_uid p = Ok ours
      | Err (PermissionDenied f) \<Rightarrow>
          (\<exists>p. settled_on s (Some (CnOk p)) \<and> foreign_peer ours p = Some f)
      | Err (CnErrno e) \<Rightarrow> settled_on s (Some (CnErr e)) \<and> e \<noteq> EAGAIN \<and> e \<noteq> EINTR
      | Err (CnTimedOut _) \<Rightarrow> deadline \<le> fst (snd out))"

lemma connect_loop_end: "loop_end ours deadline s (connect_loop ours deadline ck s)"
proof (induction ours deadline ck s rule: connect_loop.induct)
  case (1 ours deadline ck s)
  obtain r s' where once: "connect_once s = (r, s')" by (cases "connect_once s")
  show ?case
  proof (cases r)
    case (Ok p)
    then have "s = CnOk p # s'" using once connect_once_cases by auto
    then have "settled_on s (Some (CnOk p))" using settled_on_now by simp
    moreover have "foreign_peer ours p = None \<longleftrightarrow> p_uid p = Ok ours"
      by (auto simp: foreign_peer_def split: res.splits)
    ultimately show ?thesis
      using Ok once
      by (subst connect_loop.simps) (auto simp: loop_end_def split: option.splits)
  next
    case (Err e)
    note at = connect_once_cases(1) [OF once [unfolded Err]]
    obtain now ck1 where now: "clock_now ck = (now, ck1)" by (cases "clock_now ck")
    consider (final) "e \<noteq> EAGAIN \<and> e \<noteq> EINTR"
      | (timeout) "e = EAGAIN \<or> e = EINTR" "deadline - now = 0"
      | (again) "e = EAGAIN \<or> e = EINTR" "deadline - now \<noteq> 0" by blast
    then show ?thesis
    proof cases
      case final
      then have "settled_on s (Some (CnErr e))" using at settled_on_now by auto
      then show ?thesis
        using final Err once by (subst connect_loop.simps) (simp add: loop_end_def)
    next
      case timeout
      have "fst ck1 = now" using clock_now_mono [OF now] by simp
      then show ?thesis
        using timeout Err once now by (subst connect_loop.simps) (auto simp: loop_end_def)
    next
      case again
      let ?out = "connect_loop ours deadline (clock_sleep (min PROBE_RETRY (deadline - now)) ck1) s'"
      have step: "connect_loop ours deadline ck s = ?out"
        using again Err once now by (subst connect_loop.simps) auto
      have ih: "loop_end ours deadline s' ?out"
        using "1.IH" [OF once [symmetric] Err _ refl now [symmetric] refl refl] again
        by auto
      have skip: "settled_on s final" if "settled_on s' final" for final
        using at again(1) that settled_on_skip by auto
      show ?thesis
        unfolding step using ih skip
        by (auto simp: loop_end_def split: res.splits connect_error.splits)
    qed
  qed
qed

lemma connect_within_end:
  "(\<exists>e. unix_address path = Err e \<and> connect_within ours path within ck s = (Err (CnErrno e), ck)) \<or>
   (\<exists>start ck'. clock_now ck = (start, ck') \<and>
      loop_end ours (start + within) s (connect_within ours path within ck s))"
  by (cases "unix_address path"; cases "clock_now ck")
    (auto simp: connect_within_def connect_loop_end)

lemma unix_address_Err: "unix_address path = Err e \<Longrightarrow> e = ENAMETOOLONG"
  by (auto simp: unix_address_def split: if_splits)

text \<open>How a probe came to each of its verdicts.\<close>

lemma probe_end:
  assumes "probe ours path within ck s = (l, ck')"
  obtains r where "l = liveness_of r"
    and "r = Err (CnErrno ENAMETOOLONG) \<or> (\<exists>dl. loop_end ours dl s (r, ck'))"
proof -
  obtain r where cw: "connect_within ours path within ck s = (r, ck')" "l = liveness_of r"
    using assms by (auto simp: probe_def split: prod.splits)
  have "r = Err (CnErrno ENAMETOOLONG) \<or> (\<exists>dl. loop_end ours dl s (r, ck'))"
    using connect_within_end [of path ours within ck s] cw unix_address_Err by auto
  then show thesis using that cw(2) by blast
qed

lemma probe_stale:
  assumes "fst (probe ours path within ck s) = LvStale e"
  shows "\<exists>c \<in> {ECONNREFUSED, ENOENT}. e = CnErrno c \<and> settled_on s (Some (CnErr c))"
proof -
  obtain r where "LvStale e = liveness_of r"
    and "r = Err (CnErrno ENAMETOOLONG) \<or> (\<exists>dl. loop_end ours dl s (r, snd (probe ours path within ck s)))"
    using probe_end [of ours path within ck s "LvStale e" "snd (probe ours path within ck s)"] assms
    by (metis prod.collapse)
  then show ?thesis
    by (auto simp: liveness_of_def loop_end_def elim!: nothing_is_listening.elims
        split: res.splits connect_error.splits if_splits)
qed

lemma probe_alive:
  assumes "fst (probe ours path within ck s) = LvAlive p"
  shows "p_uid p = Ok ours \<and> settled_on s (Some (CnOk p))"
proof -
  obtain r where "LvAlive p = liveness_of r"
    and "r = Err (CnErrno ENAMETOOLONG) \<or> (\<exists>dl. loop_end ours dl s (r, snd (probe ours path within ck s)))"
    using probe_end [of ours path within ck s "LvAlive p" "snd (probe ours path within ck s)"] assms
    by (metis prod.collapse)
  then show ?thesis
    by (auto simp: liveness_of_def loop_end_def split: res.splits connect_error.splits if_splits)
qed

lemma probe_unknown: "fst (probe ours path within ck s) = LvUnknown e \<Longrightarrow> \<not> nothing_is_listening e"
  by (auto simp: probe_def liveness_of_def split: prod.splits res.splits if_splits)

text \<open>
  C6. A probe calls a session dead only when a \<open>connect\<close> was refused or found no name, after
  nothing but full backlogs and signals, and alive only when a peer of this very uid accepted.
  A timeout, a foreign or nameless peer, \<open>EACCES\<close> and every other error are neither: they
  never license an unlink.
\<close>

theorem probe_verdicts:
  "case fst (probe ours path within ck s) of
     LvAlive p \<Rightarrow> p_uid p = Ok ours \<and> settled_on s (Some (CnOk p))
   | LvStale e \<Rightarrow> (\<exists>c \<in> {ECONNREFUSED, ENOENT}. e = CnErrno c \<and> settled_on s (Some (CnErr c)))
   | LvUnknown e \<Rightarrow> \<not> nothing_is_listening e"
  using probe_alive [of ours path within ck s] probe_stale [of ours path within ck s]
    probe_unknown [of ours path within ck s]
  by (cases "fst (probe ours path within ck s)") simp_all

lemma connect_loop_time:
  "snd ck = [] \<Longrightarrow> fst ck \<le> deadline \<Longrightarrow>
     fst (snd (connect_loop ours deadline ck s)) \<le> deadline"
proof (induction ours deadline ck s rule: connect_loop.induct)
  case (1 ours deadline ck s)
  obtain r s' where once: "connect_once s = (r, s')" by (cases "connect_once s")
  have now: "clock_now ck = (fst ck, ck)" using "1.prems"(1) by (cases ck) auto
  show ?case
  proof (cases "\<exists>e. r = Err e \<and> (e = EAGAIN \<or> e = EINTR) \<and> deadline - fst ck \<noteq> 0")
    case False
    then show ?thesis
      using once now "1.prems"
      by (subst connect_loop.simps) (auto split: res.splits option.splits)
  next
    case True
    then obtain e where e: "r = Err e" "e = EAGAIN \<or> e = EINTR" "deadline - fst ck \<noteq> 0" by blast
    let ?ck = "clock_sleep (min PROBE_RETRY (deadline - fst ck)) ck"
    have "fst (snd (connect_loop ours deadline ?ck s')) \<le> deadline"
      using "1.IH" [OF once [symmetric] e(1) _ refl now [symmetric] refl refl] e "1.prems"
      by (auto simp: clock_sleep_def)
    then show ?thesis
      using e once now by (subst connect_loop.simps) auto
  qed
qed

lemma connect_loop_clock: "fst ck \<le> fst (snd (connect_loop ours deadline ck s))"
proof (induction ours deadline ck s rule: connect_loop.induct)
  case (1 ours deadline ck s)
  obtain r s' where once: "connect_once s = (r, s')" by (cases "connect_once s")
  obtain now ck1 where now: "clock_now ck = (now, ck1)" by (cases "clock_now ck")
  note mono = clock_now_mono [OF now]
  show ?case
  proof (cases "\<exists>e. r = Err e \<and> (e = EAGAIN \<or> e = EINTR) \<and> deadline - now \<noteq> 0")
    case False
    then show ?thesis
      using once now mono by (subst connect_loop.simps) (auto split: res.splits option.splits)
  next
    case True
    then obtain e where e: "r = Err e" "e = EAGAIN \<or> e = EINTR" "deadline - now \<noteq> 0" by blast
    let ?ck = "clock_sleep (min PROBE_RETRY (deadline - now)) ck1"
    have "fst ?ck \<le> fst (snd (connect_loop ours deadline ?ck s'))"
      using "1.IH" [OF once [symmetric] e(1) _ refl now [symmetric] refl refl] e by auto
    then have "fst ck \<le> fst (snd (connect_loop ours deadline ?ck s'))"
      using mono by (simp add: clock_sleep_def)
    then show ?thesis
      using e once now by (subst connect_loop.simps) auto
  qed
qed

text \<open>A probe never turns the clock back.\<close>

lemma probe_clock: "fst ck \<le> fst (snd (probe ours path within ck s))"
proof (cases "unix_address path")
  case (Ok addr)
  obtain t ck' where now: "clock_now ck = (t, ck')" by (cases "clock_now ck")
  then have "fst ck \<le> fst ck'" using clock_now_mono by fastforce
  then show ?thesis
    using Ok now connect_loop_clock [of ck' ours "t + within" s]
    by (simp add: probe_def connect_within_def split_beta)
qed (simp add: probe_def connect_within_def)

text \<open>A loop that probes, looks at the clock before a deadline and sleeps comes closer to it.\<close>

lemma probe_then_sleep:
  assumes "(l, ck1) = probe ours path within ck s" and "(now, ck2) = clock_now ck1"
    and "now < deadline" and "0 < n"
  shows "deadline - fst (clock_sleep n ck2) < deadline - fst ck"
proof -
  have "fst ck \<le> fst ck1" using probe_clock [of ck ours path within s] by (simp flip: assms(1))
  moreover have "fst ck1 \<le> now" "fst ck2 = now" using clock_now_mono [OF assms(2) [symmetric]] by auto
  ultimately show ?thesis using assms(3,4) by (simp add: clock_sleep_def)
qed

text \<open>Whether a probe found the session dead.\<close>

definition is_stale :: "liveness \<Rightarrow> bool" where
  "is_stale l = (case l of LvStale _ \<Rightarrow> True | _ \<Rightarrow> False)"

lemma is_stale_iff: "is_stale l \<longleftrightarrow> (\<exists>e. l = LvStale e)"
  by (cases l) (simp_all add: is_stale_def)

text \<open>Evidence that nothing is listening: a \<open>connect\<close> refused, or a name that is not there.\<close>

definition proved_free :: "os_connect list \<Rightarrow> bool" where
  "proved_free s \<longleftrightarrow> settled_on s (Some (CnErr ECONNREFUSED)) \<or> settled_on s (Some (CnErr ENOENT))"

lemma probe_free: "fst (probe us path within ck s) = LvStale e \<Longrightarrow> proved_free s"
  by (drule probe_stale) (auto simp: proved_free_def)

lemma stale_free: "is_stale (fst (probe us path within ck s)) \<Longrightarrow> proved_free s"
  by (auto simp: is_stale_iff dest: probe_free)

text \<open>
  C7. A probe answers whatever the kernel does: it gives up with a timeout no sooner than its
  deadline, and the sleeps it takes never carry it past that deadline.
\<close>

theorem probe_is_bounded:
  "fst (snd (probe ours path within (now, []) s)) \<le> now + within \<and>
   (case fst (probe ours path within ck s) of
      LvUnknown (CnTimedOut why) \<Rightarrow> fst (clock_now ck) + within \<le> fst (snd (probe ours path within ck s))
    | _ \<Rightarrow> True)"
proof
  show "fst (snd (probe ours path within (now, []) s)) \<le> now + within"
    using connect_loop_time [of "(now, [])" "now + within" ours s]
    by (auto simp: probe_def connect_within_def split: prod.splits res.splits)
  obtain r ck' where cw: "connect_within ours path within ck s = (r, ck')"
    by (cases "connect_within ours path within ck s")
  show "case fst (probe ours path within ck s) of
      LvUnknown (CnTimedOut why) \<Rightarrow> fst (clock_now ck) + within \<le> fst (snd (probe ours path within ck s))
    | _ \<Rightarrow> True"
    using connect_within_end [of path ours within ck s] cw
    by (auto simp: probe_def liveness_of_def loop_end_def
        split: res.splits connect_error.splits liveness.splits)
qed

end
