(* ===== verification/Agent.thy ===== *)
theory Agent
  imports Usock
begin

text \<open>
  Agent forwarding in the daemon: src/crates/nomux/src/agent.rs.  One listener, one slot, and a
  generation that names each connection the slot has held.  \<open>Instant::now()\<close> is read off the
  clock threaded through; \<open>shutdown(Read)\<close> tells only the peer and leaves no trace here, since
  nothing is ever read from a closing channel.
\<close>

section \<open>State\<close>

definition MAX_CHANNEL_QUEUE :: nat where
  "MAX_CHANNEL_QUEUE = 256 * 1024"

definition AGENT_IDLE_TIMEOUT :: nat where
  "AGENT_IDLE_TIMEOUT = secs 60"

definition AGENT_ABANDON_GRACE :: nat where
  "AGENT_ABANDON_GRACE = secs 1"

text \<open>\<open>Accept\<close> and \<open>Flush\<close>\<close>

datatype accept_outcome = Opened u32 | AcceptIdle | AcceptFailed

datatype flush_outcome = FlushOpen | FlushFinished | FlushFailed

record channel =
  generation :: u32
  ch_stream :: dev
  ch_pending :: bytes
  closing :: bool
  idle_deadline :: nat

text \<open>\<open>Channel::touch\<close>\<close>

definition touch :: "clock \<Rightarrow> channel \<Rightarrow> channel \<times> clock" where
  "touch ck chan =
     (case clock_now ck of (now, ck) \<Rightarrow> (chan\<lparr>idle_deadline := now + AGENT_IDLE_TIMEOUT\<rparr>, ck))"

record agent =
  ag_listener :: "os_accept list"
  ag_path :: bytes
  ag_channel :: "channel option"
  next_generation :: u32

section \<open>Operations\<close>

text \<open>\<open>Agent::bind\<close>; what \<open>bind_socket_private\<close> answers is the parameter.\<close>

definition agent_bind :: "bytes \<Rightarrow> (os_accept list, 'e) res \<Rightarrow> (agent, 'e) res" where
  "agent_bind path bound =
     and_then bound (\<lambda>listener.
       Ok \<lparr>ag_listener = listener, ag_path = path, ag_channel = None, next_generation = 0\<rparr>)"

definition is_serving :: "agent \<Rightarrow> bool" where
  "is_serving a \<longleftrightarrow> ag_channel a \<noteq> None"

definition agent_generation :: "agent \<Rightarrow> u32 option" where
  "agent_generation a = map_option generation (ag_channel a)"

text \<open>\<open>Agent::watch\<close>: whether the channel wants to write and to read.\<close>

definition agent_watch :: "agent \<Rightarrow> (bool \<times> bool) option" where
  "agent_watch a = map_option (\<lambda>chan. (ch_pending chan \<noteq> [], \<not> closing chan)) (ag_channel a)"

definition agent_deadline :: "agent \<Rightarrow> nat option" where
  "agent_deadline a = map_option idle_deadline (ag_channel a)"

definition forget :: "agent \<Rightarrow> agent \<times> u32 option" where
  "forget a = (a\<lparr>ag_channel := None\<rparr>, agent_generation a)"

definition close_if_idle :: "nat \<Rightarrow> agent \<Rightarrow> agent \<times> u32 option" where
  "close_if_idle now a =
     (if (case agent_deadline a of None \<Rightarrow> True | Some at \<Rightarrow> now < at) then (a, None)
      else
        let owed = (case ag_channel a of Some chan \<Rightarrow> \<not> closing chan | None \<Rightarrow> False)
        in case forget a of (a, g) \<Rightarrow> (a, if owed then g else None))"

definition agent_accept :: "bool \<Rightarrow> u32 \<Rightarrow> clock \<Rightarrow> agent \<Rightarrow> agent \<times> clock \<times> accept_outcome" where
  "agent_accept serving ours ck a =
     (if is_serving a then (a, ck, AcceptIdle)
      else case kernel_accept (ag_listener a) of (r, s) \<Rightarrow>
        let a = a\<lparr>ag_listener := s\<rparr>
        in (case r of
              Err e \<Rightarrow>
                (if e = EAGAIN \<or> e = EINTR then (a, ck, AcceptIdle) else (a, ck, AcceptFailed))
            | Ok p \<Rightarrow>
                (if \<not> peer_is_ours ours p \<or> \<not> serving \<or> \<not> p_nonblock p then (a, ck, AcceptIdle)
                 else case clock_now ck of (now, ck) \<Rightarrow>
                   let g = next_generation a
                   in (a\<lparr>next_generation := g + 1,
                         ag_channel := Some \<lparr>generation = g, ch_stream = p_dev p, ch_pending = [],
                           closing = False, idle_deadline = now + AGENT_IDLE_TIMEOUT\<rparr>\<rparr>,
                       ck, Opened g))))"

text \<open>\<open>Agent::read\<close> into a buffer of \<open>n\<close> bytes.\<close>

definition agent_read :: "nat \<Rightarrow> clock \<Rightarrow> agent \<Rightarrow> agent \<times> clock \<times> read_outcome" where
  "agent_read n ck a =
     (case ag_channel a of
        None \<Rightarrow> (a, ck, Eof)
      | Some chan \<Rightarrow>
          (if closing chan then (a, ck, WouldBlock)
           else case read_or_eof n (ch_stream chan) of (r, d) \<Rightarrow>
             let chan = chan\<lparr>ch_stream := d\<rparr>
             in (case r of
                   Data _ \<Rightarrow>
                     (case touch ck chan of (chan, ck) \<Rightarrow> (a\<lparr>ag_channel := Some chan\<rparr>, ck, r))
                 | _ \<Rightarrow> (a\<lparr>ag_channel := Some chan\<rparr>, ck, r))))"

definition deliver :: "u32 \<Rightarrow> bytes \<Rightarrow> agent \<Rightarrow> agent \<times> bool" where
  "deliver g data a =
     (case ag_channel a of
        None \<Rightarrow> (a, True)
      | Some chan \<Rightarrow>
          (if \<not> (generation chan = g \<and> \<not> closing chan) then (a, True)
           else if MAX_CHANNEL_QUEUE < length (ch_pending chan) + length data then (a, False)
           else (a\<lparr>ag_channel := Some (chan\<lparr>ch_pending := ch_pending chan @ data\<rparr>)\<rparr>, True)))"

definition agent_flush :: "clock \<Rightarrow> agent \<Rightarrow> agent \<times> clock \<times> flush_outcome" where
  "agent_flush ck a =
     (case ag_channel a of
        None \<Rightarrow> (a, ck, FlushFinished)
      | Some chan \<Rightarrow>
          (let before = length (ch_pending chan)
           in case drain_to (ch_pending chan) (ch_stream chan) of (r, q, d) \<Rightarrow>
             let failed = \<not> is_ok r;
                 chan = chan\<lparr>ch_pending := q, ch_stream := d\<rparr>;
                 (chan, ck) = (if length (ch_pending chan) \<noteq> before then touch ck chan else (chan, ck));
                 a = a\<lparr>ag_channel := Some chan\<rparr>
             in if closing chan
                then (a, ck, if failed \<or> ch_pending chan = [] then FlushFinished else FlushOpen)
                else if failed then (a, ck, FlushFailed)
                else (a, ck, FlushOpen)))"

definition close_from_client :: "u32 \<Rightarrow> clock \<Rightarrow> agent \<Rightarrow> agent \<times> clock" where
  "close_from_client g ck a =
     (case ag_channel a of
        None \<Rightarrow> (a, ck)
      | Some chan \<Rightarrow>
          (if generation chan \<noteq> g then (a, ck)
           else
             let a = a\<lparr>ag_channel := Some (chan\<lparr>closing := True\<rparr>)\<rparr>
             in case agent_flush ck a of (a, ck, r) \<Rightarrow>
               if r \<noteq> FlushOpen then (fst (forget a), ck)
               else (case ag_channel a of
                       None \<Rightarrow> (a, ck)
                     | Some chan \<Rightarrow>
                         (case clock_now ck of (now, ck) \<Rightarrow>
                            (a\<lparr>ag_channel := Some (chan\<lparr>idle_deadline :=
                                 min (idle_deadline chan) (now + AGENT_ABANDON_GRACE)\<rparr>)\<rparr>, ck)))))"

end
