(* ===== verification/Parse.thy ===== *)
theory Parse
  imports Utf8
begin

text \<open>
  What the program uses of Rust's \<open>str\<close>: characters, white space, and decimal integers
  (\<open>str::parse\<close> and \<open>Display\<close>).  A character is its code point.
\<close>

section \<open>Characters\<close>

text \<open>\<open>str::chars\<close> of a valid string; a byte that starts no sequence ends it.\<close>

fun utf8_chars :: "bytes \<Rightarrow> nat list" where
  "utf8_chars [] = []"
| "utf8_chars (b0 # bs) =
     (if unat b0 < 0x80 then unat b0 # utf8_chars bs
      else if unat b0 < 0xE0 then
        (case bs of b1 # r \<Rightarrow> ((unat b0 - 0xC0) * 64 + (unat b1 - 0x80)) # utf8_chars r | _ \<Rightarrow> [])
      else if unat b0 < 0xF0 then
        (case bs of b1 # b2 # r \<Rightarrow>
           ((unat b0 - 0xE0) * 4096 + (unat b1 - 0x80) * 64 + (unat b2 - 0x80)) # utf8_chars r
         | _ \<Rightarrow> [])
      else
        (case bs of b1 # b2 # b3 # r \<Rightarrow>
           ((unat b0 - 0xF0) * 262144 + (unat b1 - 0x80) * 4096 + (unat b2 - 0x80) * 64
             + (unat b3 - 0x80)) # utf8_chars r
         | _ \<Rightarrow> []))"

text \<open>\<open>char::len_utf8\<close> and \<open>char::encode_utf8\<close>\<close>

definition char_len :: "nat \<Rightarrow> nat" where
  "char_len c = (if c < 0x80 then 1 else if c < 0x800 then 2 else if c < 0x10000 then 3 else 4)"

definition utf8_char :: "nat \<Rightarrow> bytes" where
  "utf8_char c =
     (if c < 0x80 then [of_nat c]
      else if c < 0x800 then [of_nat (0xC0 + c div 64), of_nat (0x80 + c mod 64)]
      else if c < 0x10000 then
        [of_nat (0xE0 + c div 4096), of_nat (0x80 + c div 64 mod 64), of_nat (0x80 + c mod 64)]
      else
        [of_nat (0xF0 + c div 262144), of_nat (0x80 + c div 4096 mod 64),
         of_nat (0x80 + c div 64 mod 64), of_nat (0x80 + c mod 64)])"

definition scalar :: "nat \<Rightarrow> bool" where
  "scalar c \<longleftrightarrow> c < 0xD800 \<or> 0xE000 \<le> c \<and> c < 0x110000"

definition utf8_encode :: "nat list \<Rightarrow> bytes" where
  "utf8_encode cs = concat (map utf8_char cs)"

lemma length_utf8_char [simp]: "length (utf8_char c) = char_len c"
  by (simp add: utf8_char_def char_len_def)

lemma unat_byte: "n < 256 \<Longrightarrow> unat (of_nat n :: u8) = n"
  by (simp add: unat_of_nat)

text \<open>\<open>split\<close> on one separator: always at least one part.\<close>

fun split_on :: "'a \<Rightarrow> 'a list \<Rightarrow> 'a list list" where
  "split_on x [] = [[]]"
| "split_on x (y # ys) =
     (if y = x then [] # split_on x ys
      else case split_on x ys of p # ps \<Rightarrow> (y # p) # ps | [] \<Rightarrow> [[y]])"

text \<open>What precedes the first separator, and what follows it.\<close>

lemma take_to_sep: "x \<notin> set k \<Longrightarrow> takeWhile (\<lambda>y. y \<noteq> x) (k @ x # v) = k"
  by (subst takeWhile_append2) auto

lemma drop_to_sep: "x \<notin> set k \<Longrightarrow> dropWhile (\<lambda>y. y \<noteq> x) (k @ x # v) = x # v"
  by (subst dropWhile_append2) auto

section \<open>White space\<close>

text \<open>\<open>char::is_whitespace\<close>: the Unicode property \<open>White_Space\<close>.\<close>

definition is_whitespace :: "nat \<Rightarrow> bool" where
  "is_whitespace c \<longleftrightarrow>
     0x09 \<le> c \<and> c \<le> 0x0D \<or> c = 0x20 \<or> c = 0x85 \<or> c = 0xA0 \<or> c = 0x1680 \<or>
     0x2000 \<le> c \<and> c \<le> 0x200A \<or> c = 0x2028 \<or> c = 0x2029 \<or> c = 0x202F \<or> c = 0x205F \<or>
     c = 0x3000"

definition trim_start :: "nat list \<Rightarrow> nat list" where
  "trim_start = dropWhile is_whitespace"

definition trim_end :: "nat list \<Rightarrow> nat list" where
  "trim_end cs = rev (dropWhile is_whitespace (rev cs))"

definition trim :: "nat list \<Rightarrow> nat list" where
  "trim cs = trim_end (trim_start cs)"

text \<open>\<open>str::split_whitespace\<close>\<close>

function split_whitespace :: "nat list \<Rightarrow> nat list list" where
  "split_whitespace cs =
     (case trim_start cs of
        [] \<Rightarrow> []
      | c # r \<Rightarrow>
          takeWhile (\<lambda>x. \<not> is_whitespace x) (c # r)
          # split_whitespace (dropWhile (\<lambda>x. \<not> is_whitespace x) (c # r)))"
  by pat_completeness auto
termination
proof (relation "measure length")
  fix cs r :: "nat list" and c assume *: "trim_start cs = c # r"
  then have "\<not> is_whitespace c" by (metis trim_start_def dropWhile_eq_Cons_conv)
  moreover have "length (c # r) \<le> length cs"
    using * by (metis trim_start_def length_dropWhile_le)
  ultimately show "(dropWhile (\<lambda>x. \<not> is_whitespace x) (c # r), cs) \<in> measure length"
    using length_dropWhile_le [of "\<lambda>x. \<not> is_whitespace x" r] by simp
qed simp

declare split_whitespace.simps [simp del]

section \<open>Decimal integers\<close>

definition is_digit :: "nat \<Rightarrow> bool" where
  "is_digit c \<longleftrightarrow> 48 \<le> c \<and> c \<le> 57"

definition digits_value :: "nat list \<Rightarrow> nat" where
  "digits_value cs = foldl (\<lambda>a c. a * 10 + (c - 48)) 0 cs"

definition parse_digits :: "nat list \<Rightarrow> nat option" where
  "parse_digits cs = (if cs \<noteq> [] \<and> list_all is_digit cs then Some (digits_value cs) else None)"

text \<open>\<open>parse\<close> of an unsigned integer no larger than \<open>hi\<close>: one leading \<open>+\<close> is allowed.\<close>

definition parse_unsigned :: "nat \<Rightarrow> nat list \<Rightarrow> nat option" where
  "parse_unsigned hi cs =
     (case parse_digits (case cs of c # r \<Rightarrow> if c = 43 then r else cs | [] \<Rightarrow> []) of
        None \<Rightarrow> None
      | Some n \<Rightarrow> (if n \<le> hi then Some n else None))"

text \<open>\<open>parse::<i32>\<close>\<close>

definition parse_i32 :: "nat list \<Rightarrow> int option" where
  "parse_i32 cs =
     (case cs of
        c # r \<Rightarrow>
          (if c = 45 then
             (case parse_digits r of
                None \<Rightarrow> None
              | Some n \<Rightarrow> (if n \<le> 2 ^ 31 then Some (- int n) else None))
           else map_option int (parse_unsigned (2 ^ 31 - 1) cs))
      | [] \<Rightarrow> None)"

text \<open>\<open>Display\<close> of an unsigned integer.\<close>

fun show_nat :: "nat \<Rightarrow> nat list" where
  "show_nat n = (if n < 10 then [48 + n] else show_nat (n div 10) @ [48 + n mod 10])"

declare show_nat.simps [simp del]

lemma show_nat_digits: "show_nat n \<noteq> [] \<and> list_all is_digit (show_nat n) \<and> digits_value (show_nat n) = n"
proof (induction n rule: show_nat.induct)
  case (1 n)
  show ?case
  proof (cases "n < 10")
    case True
    then show ?thesis by (subst (1 2 3) show_nat.simps) (simp add: is_digit_def digits_value_def)
  next
    case False
    then have "show_nat n = show_nat (n div 10) @ [48 + n mod 10]"
      by (subst show_nat.simps) simp
    moreover have "n div 10 * 10 + n mod 10 = n" by simp
    ultimately show ?thesis using "1.IH" [OF False] by (simp add: is_digit_def digits_value_def)
  qed
qed

lemma parse_show_nat: "parse_digits (show_nat n) = Some n"
  using show_nat_digits [of n] by (simp add: parse_digits_def)

lemma show_nat_head: "show_nat n = c # r \<Longrightarrow> is_digit c"
  using show_nat_digits [of n] by simp

lemma parse_unsigned_show: "n \<le> hi \<Longrightarrow> parse_unsigned hi (show_nat n) = Some n"
  using show_nat_digits [of n] show_nat_head [of n] parse_show_nat [of n]
  by (cases "show_nat n") (auto simp: parse_unsigned_def is_digit_def)

lemma parse_i32_show: "n < 2 ^ 31 \<Longrightarrow> parse_i32 (show_nat n) = Some (int n)"
  using show_nat_digits [of n] show_nat_head [of n] parse_unsigned_show [of n "2 ^ 31 - 1"]
  by (cases "show_nat n") (auto simp: parse_i32_def is_digit_def)

section \<open>Decoding and encoding\<close>

text \<open>
  \<open>String::from_utf8_lossy\<close>: each maximal piece that starts a sequence and does not finish it,
  and each byte that starts none, becomes U+FFFD.
\<close>

fun from_utf8_lossy :: "bytes \<Rightarrow> nat list" where
  "from_utf8_lossy [] = []"
| "from_utf8_lossy (b0 # bs) =
     (if unat b0 < 0x80 then unat b0 # from_utf8_lossy bs
      else case bs of
        [] \<Rightarrow> [0xFFFD]
      | b1 # r1 \<Rightarrow>
          (if 0xC2 \<le> unat b0 \<and> unat b0 \<le> 0xDF \<and> utf8_cont b1 then
             ((unat b0 - 0xC0) * 64 + (unat b1 - 0x80)) # from_utf8_lossy r1
           else if 0xE0 \<le> unat b0 \<and> unat b0 \<le> 0xF4 \<and> utf8_second b0 b1 then
             (case r1 of
                [] \<Rightarrow> [0xFFFD]
              | b2 # r2 \<Rightarrow>
                  (if \<not> utf8_cont b2 then 0xFFFD # from_utf8_lossy r1
                   else if unat b0 \<le> 0xEF then
                     ((unat b0 - 0xE0) * 4096 + (unat b1 - 0x80) * 64 + (unat b2 - 0x80))
                       # from_utf8_lossy r2
                   else case r2 of
                     [] \<Rightarrow> [0xFFFD]
                   | b3 # r3 \<Rightarrow>
                       (if \<not> utf8_cont b3 then 0xFFFD # from_utf8_lossy r2
                        else ((unat b0 - 0xF0) * 262144 + (unat b1 - 0x80) * 4096
                            + (unat b2 - 0x80) * 64 + (unat b3 - 0x80)) # from_utf8_lossy r3)))
           else 0xFFFD # from_utf8_lossy bs))"

lemma utf8_cont_nat: "n < 256 \<Longrightarrow> utf8_cont (of_nat n) \<longleftrightarrow> 0x80 \<le> n \<and> n \<le> 0xBF"
  by (simp add: utf8_cont_def word_le_nat_alt unat_byte)

lemma utf8_second_nat:
  assumes "m < 256" and "n < 256"
  shows "utf8_second (of_nat m) (of_nat n) \<longleftrightarrow>
    (if m = 0xE0 then 0xA0 \<le> n \<and> n \<le> 0xBF else if m = 0xED then 0x80 \<le> n \<and> n \<le> 0x9F
     else if m = 0xF0 then 0x90 \<le> n \<and> n \<le> 0xBF else if m = 0xF4 then 0x80 \<le> n \<and> n \<le> 0x8F
     else 0x80 \<le> n \<and> n \<le> 0xBF)"
  using assms
  by (simp add: utf8_second_def utf8_cont_nat word_le_nat_alt word_unat_eq_iff unat_byte)

lemma decode_two:
  assumes "0xC2 \<le> m" "m \<le> 0xDF" "0x80 \<le> n" "n \<le> 0xBF"
  shows "from_utf8_lossy (of_nat m # of_nat n # r) = ((m - 0xC0) * 64 + (n - 0x80)) # from_utf8_lossy r"
  using assms
  by (subst from_utf8_lossy.simps(2)) (simp del: from_utf8_lossy.simps add: unat_byte utf8_cont_nat)

lemma decode_three:
  assumes "0xE0 \<le> m" "m \<le> 0xEF" "utf8_second (of_nat m) (of_nat n)" "n < 256" "0x80 \<le> k" "k \<le> 0xBF"
  shows "from_utf8_lossy (of_nat m # of_nat n # of_nat k # r)
    = ((m - 0xE0) * 4096 + (n - 0x80) * 64 + (k - 0x80)) # from_utf8_lossy r"
  using assms
  by (subst from_utf8_lossy.simps(2)) (simp del: from_utf8_lossy.simps add: unat_byte utf8_cont_nat)

lemma decode_four:
  assumes "0xF0 \<le> m" "m \<le> 0xF4" "utf8_second (of_nat m) (of_nat n)" "n < 256" "0x80 \<le> k" "k \<le> 0xBF"
    "0x80 \<le> j" "j \<le> 0xBF"
  shows "from_utf8_lossy (of_nat m # of_nat n # of_nat k # of_nat j # r)
    = ((m - 0xF0) * 262144 + (n - 0x80) * 4096 + (k - 0x80) * 64 + (j - 0x80)) # from_utf8_lossy r"
proof -
  have u: "unat (of_nat m :: u8) = m" "unat (of_nat n :: u8) = n" "unat (of_nat k :: u8) = k"
    "unat (of_nat j :: u8) = j" using assms by (simp_all add: unat_byte)
  have c: "utf8_cont (of_nat k)" "utf8_cont (of_nat j)" using assms by (simp_all add: utf8_cont_nat)
  have f: "\<not> m < 0x80" "\<not> (0xC2 \<le> m \<and> m \<le> 0xDF \<and> utf8_cont (of_nat n))"
    "0xE0 \<le> m \<and> m \<le> 0xF4 \<and> utf8_second (of_nat m) (of_nat n)" "\<not> m \<le> 0xEF"
    using assms by auto
  show ?thesis
    by (subst from_utf8_lossy.simps(2)) (simp only: u c f if_False if_True list.case simp_thms)
qed

text \<open>A code point in base 64, and the bounds a scalar value puts on its digits.\<close>

lemma base64_digits:
  obtains a b d e :: nat where "c = 262144 * a + 4096 * b + 64 * d + e" "b < 64" "d < 64" "e < 64"
    "c div 262144 = a" "c div 4096 mod 64 = b" "c div 64 mod 64 = d" "c mod 64 = e"
proof
  have "c = 64 * (c div 64) + c mod 64" "c div 64 = 64 * (c div 4096) + c div 64 mod 64"
    "c div 4096 = 64 * (c div 262144) + c div 4096 mod 64"
    using div_mult2_eq [of c 64 64] div_mult2_eq [of c 4096 64] by simp_all
  then show "c = 262144 * (c div 262144) + 4096 * (c div 4096 mod 64) + 64 * (c div 64 mod 64) + c mod 64"
    by linarith
qed simp_all

text \<open>The four shapes of an encoded scalar value.\<close>

lemma utf8_char_cases:
  assumes "scalar c"
  obtains (one) "c < 0x80" "utf8_char c = [of_nat c]"
  | (two) m n where "utf8_char c = [of_nat m, of_nat n]" "0xC2 \<le> m" "m \<le> 0xDF" "0x80 \<le> n" "n \<le> 0xBF"
      "c = (m - 0xC0) * 64 + (n - 0x80)"
  | (three) m n k where "utf8_char c = [of_nat m, of_nat n, of_nat k]" "0xE0 \<le> m" "m \<le> 0xEF"
      "utf8_second (of_nat m) (of_nat n)" "n < 256" "0x80 \<le> k" "k \<le> 0xBF"
      "c = (m - 0xE0) * 4096 + (n - 0x80) * 64 + (k - 0x80)"
  | (four) m n k j where "utf8_char c = [of_nat m, of_nat n, of_nat k, of_nat j]" "0xF0 \<le> m" "m \<le> 0xF4"
      "utf8_second (of_nat m) (of_nat n)" "n < 256" "0x80 \<le> k" "k \<le> 0xBF" "0x80 \<le> j" "j \<le> 0xBF"
      "c = (m - 0xF0) * 262144 + (n - 0x80) * 4096 + (k - 0x80) * 64 + (j - 0x80)"
proof -
  obtain a b d e where c: "c = 262144 * a + 4096 * b + 64 * d + e" and l: "b < 64" "d < 64" "e < 64"
    and cd: "c div 262144 = a" "c div 4096 mod 64 = b" "c div 64 mod 64 = d" "c mod 64 = e"
    by (rule base64_digits)
  have a: "a \<le> 4" "a = 4 \<longrightarrow> b < 16" using assms c by (auto simp: scalar_def)
  consider "c < 0x80" | "0x80 \<le> c" "c < 0x800" | "0x800 \<le> c" "c < 0x10000" | "0x10000 \<le> c"
    by linarith
  then show thesis
  proof cases
    case 1
    then show thesis using one by (simp add: utf8_char_def)
  next
    case 2
    then have ab: "a = 0" "b = 0" using c by auto
    have "c div 64 = d" using 2 cd(3) by simp
    then have "2 \<le> d" "d < 32" using 2 c ab l by linarith+
    moreover have "utf8_char c = [of_nat (0xC0 + d), of_nat (0x80 + e)]"
      using 2 cd \<open>c div 64 = d\<close> unfolding utf8_char_def by (simp del: of_nat_add)
    ultimately show thesis using two [of "0xC0 + d" "0x80 + e"] l c ab by (simp del: of_nat_add)
  next
    case 3
    then have a0: "a = 0" using c by auto
    have "c div 4096 = b" using 3 cd(2) by simp
    have "b < 16" "b = 0 \<longrightarrow> 32 \<le> d" using 3 c a0 l by auto
    moreover have "b = 13 \<longrightarrow> d < 32" using assms 3 c a0 l by (auto simp: scalar_def)
    ultimately have sec: "utf8_second (of_nat (0xE0 + b)) (of_nat (0x80 + d))"
      using l by (subst utf8_second_nat) auto
    have "utf8_char c = [of_nat (0xE0 + b), of_nat (0x80 + d), of_nat (0x80 + e)]"
      using 3 cd \<open>c div 4096 = b\<close> unfolding utf8_char_def by (simp del: of_nat_add)
    then show thesis
      using three [of "0xE0 + b" "0x80 + d" "0x80 + e"] sec l c a0 \<open>b < 16\<close> by (simp del: of_nat_add)
  next
    case 4
    have "a = 0 \<longrightarrow> 16 \<le> b" using 4 c l by auto
    then have sec: "utf8_second (of_nat (0xF0 + a)) (of_nat (0x80 + b))"
      using l a by (subst utf8_second_nat) auto
    have "utf8_char c
        = [of_nat (0xF0 + a), of_nat (0x80 + b), of_nat (0x80 + d), of_nat (0x80 + e)]"
      using 4 cd unfolding utf8_char_def by (simp del: of_nat_add)
    then show thesis
      using four [of "0xF0 + a" "0x80 + b" "0x80 + d" "0x80 + e"] sec l c a by (simp del: of_nat_add)
  qed
qed

lemma utf8_char_decoded:
  assumes "scalar c"
  shows "from_utf8_lossy (utf8_char c @ r) = c # from_utf8_lossy r"
  using assms
proof (cases rule: utf8_char_cases)
  case one
  then show ?thesis by (simp add: unat_byte)
next
  case (two m n)
  then show ?thesis using decode_two [of m n r] by (simp del: from_utf8_lossy.simps)
next
  case (three m n k)
  then show ?thesis using decode_three [of m n k r] by (simp del: from_utf8_lossy.simps)
next
  case (four m n k j)
  then show ?thesis using decode_four [of m n k j r] by (simp del: from_utf8_lossy.simps)
qed

lemma utf8_valid_char:
  assumes "scalar c"
  shows "utf8_valid (utf8_char c @ r) = utf8_valid r"
  using assms
proof (cases rule: utf8_char_cases)
  case one
  then show ?thesis by (simp add: word_less_nat_alt unat_byte)
next
  case (two m n)
  then show ?thesis by (simp add: word_less_nat_alt word_le_nat_alt unat_byte utf8_cont_nat)
next
  case (three m n k)
  then have "m < 256" "k < 256" by auto
  then show ?thesis using three by (simp add: word_less_nat_alt word_le_nat_alt unat_byte utf8_cont_nat)
next
  case (four m n k j)
  then have "m < 256" "k < 256" "j < 256" by auto
  then show ?thesis using four by (simp add: word_less_nat_alt word_le_nat_alt unat_byte utf8_cont_nat)
qed

lemma utf8_valid_encode: "list_all scalar cs \<Longrightarrow> utf8_valid (utf8_encode cs)"
  by (induction cs) (simp_all add: utf8_encode_def utf8_valid_char)

text \<open>Decoding what was encoded gives the text back, also where a decoder may replace.\<close>

lemma utf8_decode_encode: "list_all scalar cs \<Longrightarrow> from_utf8_lossy (utf8_encode cs) = cs"
  by (induction cs) (simp_all add: utf8_encode_def utf8_char_decoded)

end
