(* ===== verification/Paths.thy ===== *)
theory Paths
  imports Parse
begin

text \<open>
  What the program uses of Rust's \<open>Path\<close>: absolute paths, \<open>PathBuf::push\<close>, the parts of
  \<open>Path::components\<close>, \<open>Path::file_name\<close> and the chain of \<open>Path::parent\<close>.  A path is its bytes;
  byte 47 is the separator and byte 46 the dot.
\<close>

definition is_absolute :: "bytes \<Rightarrow> bool" where
  "is_absolute p \<longleftrightarrow> (case p of [] \<Rightarrow> False | b # _ \<Rightarrow> b = 47)"

definition path_parts :: "bytes \<Rightarrow> bytes list" where
  "path_parts p = filter (\<lambda>x. x \<noteq> [] \<and> x \<noteq> [46]) (split_on 47 p)"

definition file_name :: "bytes \<Rightarrow> bytes option" where
  "file_name p =
     (case rev (path_parts p) of
        [] \<Rightarrow> None
      | x # _ \<Rightarrow> (if x = [46, 46] then None else Some x))"

definition path_push :: "bytes \<Rightarrow> bytes \<Rightarrow> bytes" where
  "path_push p q =
     (if is_absolute q then q
      else if p = [] \<or> last p = 47 then p @ q else p @ 47 # q)"

text \<open>The parents of an absolute path, given by its parts: nearest first, the root last.\<close>

definition parents :: "bytes list \<Rightarrow> bytes list list" where
  "parents p = map (\<lambda>k. take k p) (rev [0..<length p])"

text \<open>A name a directory can hold, other than the two dots.\<close>

definition plain_name :: "bytes \<Rightarrow> bool" where
  "plain_name x \<longleftrightarrow> x \<noteq> [] \<and> 47 \<notin> set x \<and> x \<noteq> [46] \<and> x \<noteq> [46, 46]"

lemma split_on_not_Nil [simp]: "split_on x ys \<noteq> []"
  by (induction x ys rule: split_on.induct) (auto split: list.split)

lemma split_on_whole: "x \<notin> set ys \<Longrightarrow> split_on x ys = [ys]"
  by (induction x ys rule: split_on.induct) auto

lemma split_on_append: "split_on x (ys @ x # zs) = split_on x ys @ split_on x zs"
proof (induction x ys rule: split_on.induct)
  case (2 x y ys)
  then show ?case using split_on_not_Nil [of x ys] by (cases "split_on x ys") auto
qed simp

lemma path_parts_plain: "plain_name n \<Longrightarrow> path_parts n = [n]"
  by (simp add: path_parts_def plain_name_def split_on_whole)

lemma path_parts_slash: "path_parts (p @ 47 # q) = path_parts p @ path_parts q"
  by (simp add: path_parts_def split_on_append)

lemma plain_not_absolute: "plain_name n \<Longrightarrow> \<not> is_absolute n"
  by (cases n) (auto simp: plain_name_def is_absolute_def)

lemma path_parts_push:
  assumes "plain_name n"
  shows "path_parts (path_push p n) = path_parts p @ [n]"
proof (cases "p \<noteq> [] \<and> last p = 47")
  case True
  then obtain r where p: "p = r @ [47]" by (cases p rule: rev_cases) auto
  then have "path_push p n = r @ 47 # n"
    using assms plain_not_absolute by (simp add: path_push_def)
  moreover have "path_parts p = path_parts r"
    using path_parts_slash [of r "[]"] p by (simp add: path_parts_def)
  ultimately show ?thesis using assms by (simp add: path_parts_slash path_parts_plain)
next
  case False
  then have "path_push p n = (if p = [] then n else p @ 47 # n)"
    using plain_not_absolute [OF assms] by (auto simp: path_push_def)
  moreover have "path_parts [] = []" by (simp add: path_parts_def)
  ultimately show ?thesis using assms by (simp add: path_parts_slash path_parts_plain)
qed

lemma file_name_push: "plain_name n \<Longrightarrow> file_name (path_push p n) = Some n"
  by (simp add: file_name_def path_parts_push) (simp add: plain_name_def)

lemma length_path_push: "plain_name n \<Longrightarrow> length (path_push p n) \<le> length p + 1 + length n"
  using plain_not_absolute [of n] by (simp add: path_push_def)

lemma path_push_name_inj:
  "plain_name m \<Longrightarrow> plain_name n \<Longrightarrow> path_push p m = path_push p n \<Longrightarrow> m = n"
  using file_name_push by (metis option.inject)

end
