(* ===== verification/Pty.thy ===== *)
theory Pty
  imports Nbio Paths Frame
begin

text \<open>
  The pseudo-terminal and the session behind it: src/crates/nomux/src/pty.rs.  The terminal
  carries the scripts of its \<open>ioctl\<close>s and \<open>waitid\<close>s; \<open>/proc\<close> is a script of snapshots, one for
  each walk; \<open>reached\<close> is the log of the signals sent, in order.  A script that has run out
  answers: the resize took, the child still runs, the group is gone, \<open>/proc\<close> cannot be read.
  What \<open>Pty::spawn\<close> gives its child is in Login_Shell.
\<close>

section \<open>State\<close>

datatype wait_status = WExited i32 | WSignalled i32 | WOther

datatype pty_signal = SigHup | SigCont | SigKill

datatype reach = ReachGroup int | ReachPinned int

text \<open>
  One entry of \<open>/proc\<close> as a walk meets it: its name, or \<open>None\<close> where the directory read failed
  there; its \<open>stat\<close>; whether a pidfd could be opened; and the \<open>stat\<close> read behind that pidfd.
\<close>

record proc_entry =
  pe_name :: "bytes option"
  pe_stat :: "(bytes, errno) res"
  pe_pidfd :: bool
  pe_restat :: "(bytes, errno) res"

type_synonym snapshot = "proc_entry list option" \<comment> \<open>\<open>None\<close>: the directory could not be read\<close>

record pty =
  master :: dev
  child :: int
  observed :: bool
  tty_size :: winsize \<comment> \<open>what the last accepted \<open>TIOCSWINSZ\<close> set\<close>
  resizes :: "(unit, errno) res list"
  waits :: "(wait_status option, errno) res list"
  groups :: "bool list"
  walks :: "snapshot list"
  reached :: "(reach \<times> pty_signal) list"
  child_killed :: bool

definition HANGUP_GRACE :: nat where
  "HANGUP_GRACE = millis 500"

definition HANGUP_POLL_INTERVAL :: nat where
  "HANGUP_POLL_INTERVAL = millis 10"

section \<open>Size and outcome\<close>

definition pty_resize :: "winsize \<Rightarrow> pty \<Rightarrow> pty \<times> (unit, errno) res" where
  "pty_resize w p =
     (case resizes p of
        [] \<Rightarrow> (p\<lparr>tty_size := w\<rparr>, Ok ())
      | Ok _ # rs \<Rightarrow> (p\<lparr>tty_size := w, resizes := rs\<rparr>, Ok ())
      | Err e # rs \<Rightarrow> (p\<lparr>resizes := rs\<rparr>, Err e))"

text \<open>
  What \<open>Pty::spawn\<close> leaves, of a terminal and a child the system calls granted: the size is
  set before the child can observe it, and no outcome has been read.
\<close>

definition pty_spawn :: "(pty, errno) res \<Rightarrow> winsize \<Rightarrow> (pty, errno) res" where
  "pty_spawn granted w =
     and_then granted (\<lambda>p. Ok (p\<lparr>tty_size := w, observed := False\<rparr>))"

definition nudge_repaint :: "winsize \<Rightarrow> pty \<Rightarrow> pty \<times> (unit, errno) res" where
  "nudge_repaint w p =
     (if 1 < cols w
      then case pty_resize (w\<lparr>cols := cols w - 1\<rparr>) p of
             (p, Err e) \<Rightarrow> (p, Err e)
           | (p, Ok _) \<Rightarrow> pty_resize w p
      else pty_resize w p)"

definition needs_observation :: "pty \<Rightarrow> bool" where
  "needs_observation p \<longleftrightarrow> \<not> observed p"

text \<open>The \<open>waitid\<close> loop of \<open>Pty::try_outcome\<close>.\<close>

fun wait_script ::
  "(wait_status option, errno) res list
     \<Rightarrow> (wait_status option, errno) res \<times> (wait_status option, errno) res list" where
  "wait_script [] = (Ok None, [])"
| "wait_script (w # s) = (if w = Err EINTR then wait_script s else (w, s))"

fun outcome_of :: "wait_status \<Rightarrow> i32 \<times> exit_kind" where
  "outcome_of (WExited code) = (code, Exited)"
| "outcome_of (WSignalled sig) = (sig, Signalled)"
| "outcome_of WOther = (0, Signalled)"

definition try_outcome :: "pty \<Rightarrow> pty \<times> ((i32 \<times> exit_kind) option, errno) res" where
  "try_outcome p =
     (if observed p then (p, Ok None)
      else case wait_script (waits p) of (r, s) \<Rightarrow>
        let p = p\<lparr>waits := s\<rparr>
        in (case r of
              Err e \<Rightarrow> (p, Err e)
            | Ok None \<Rightarrow> (p, Ok None)
            | Ok (Some st) \<Rightarrow> (p\<lparr>observed := True\<rparr>, Ok (Some (outcome_of st)))))"

section \<open>The process table\<close>

text \<open>\<open>stat_tail\<close>: the fields after the last closing parenthesis.\<close>

definition stat_tail :: "bytes \<Rightarrow> nat list list option" where
  "stat_tail stat =
     (if 41 \<notin> set stat then None
      else
        let rest = rev (takeWhile (\<lambda>b. b \<noteq> 41) (rev stat))
        in map_option (\<lambda>r. split_whitespace (utf8_chars r)) (from_utf8 rest))"

text \<open>\<open>stat_session\<close>: the session and whether the process is a zombie, \<open>"Z"\<close> being code 90.\<close>

definition stat_session :: "bytes \<Rightarrow> (int \<times> bool) option" where
  "stat_session stat =
     (case stat_tail stat of
        Some (state # _ # _ # session # _) \<Rightarrow>
          map_option (\<lambda>s. (s, state = [90])) (parse_i32 session)
      | _ \<Rightarrow> None)"

datatype seen = In | Out | Unseen

definition membership :: "int \<Rightarrow> (bytes, errno) res \<Rightarrow> seen" where
  "membership sid read =
     (case read of
        Ok stat \<Rightarrow>
          (case stat_session stat of
             None \<Rightarrow> Unseen
           | Some (session, zombie) \<Rightarrow> if session = sid \<and> \<not> zombie then In else Out)
      | Err e \<Rightarrow> (if e = ENOENT \<or> e = ESRCH then Out else Unseen))"

text \<open>\<open>pinned_member\<close>: \<open>Pid::from_raw\<close> refuses zero, \<open>pidfd_open\<close> a negative number.\<close>

definition pinned_member :: "int \<Rightarrow> int \<Rightarrow> proc_entry \<Rightarrow> bool" where
  "pinned_member sid pid e \<longleftrightarrow> 0 < pid \<and> pe_pidfd e \<and> membership sid (pe_restat e) = In"

definition past :: "nat option \<Rightarrow> clock \<Rightarrow> bool \<times> clock" where
  "past deadline ck =
     (case deadline of
        None \<Rightarrow> (False, ck)
      | Some at \<Rightarrow> (case clock_now ck of (now, ck) \<Rightarrow> (at \<le> now, ck)))"

text \<open>
  The loop of \<open>walk_session\<close>.  The visitor is a function of the pid and whether it is pinned; it
  answers whether to go on, and threads a state of its own.
\<close>

type_synonym 's visit = "int \<Rightarrow> bool \<Rightarrow> 's \<Rightarrow> bool \<times> 's"

fun walk_entries ::
  "int \<Rightarrow> int \<Rightarrow> bool \<Rightarrow> nat option \<Rightarrow> 's visit \<Rightarrow> bool \<Rightarrow> proc_entry list \<Rightarrow> 's \<times> clock
     \<Rightarrow> bool \<times> 's \<times> clock" where
  "walk_entries self sid pin deadline visit complete [] (s, ck) = (complete, s, ck)"
| "walk_entries self sid pin deadline visit complete (e # es) (s, ck) =
     (case past deadline ck of (late, ck) \<Rightarrow>
        if late then (False, s, ck)
        else case pe_name e of
          None \<Rightarrow> (False, s, ck)
        | Some name \<Rightarrow>
            (case parse_i32 (map unat name) of
               None \<Rightarrow> walk_entries self sid pin deadline visit complete es (s, ck)
             | Some pid \<Rightarrow>
                 (if pid = self then walk_entries self sid pin deadline visit complete es (s, ck)
                  else case membership sid (pe_stat e) of
                    Out \<Rightarrow> walk_entries self sid pin deadline visit complete es (s, ck)
                  | Unseen \<Rightarrow> walk_entries self sid pin deadline visit False es (s, ck)
                  | In \<Rightarrow>
                      (case visit pid (pin \<and> pinned_member sid pid e) s of (go, s) \<Rightarrow>
                         if \<not> go then (True, s, ck)
                         else walk_entries self sid pin deadline visit complete es (s, ck)))))"

definition walk_session ::
  "int \<Rightarrow> int \<Rightarrow> bool \<Rightarrow> nat option \<Rightarrow> 's visit \<Rightarrow> snapshot \<Rightarrow> 's \<times> clock
     \<Rightarrow> bool \<times> 's \<times> clock" where
  "walk_session self sid pin deadline visit snap st =
     (case past deadline (snd st) of (late, ck) \<Rightarrow>
        if late then (False, fst st, ck)
        else case snap of
          None \<Rightarrow> (False, fst st, ck)
        | Some entries \<Rightarrow> walk_entries self sid pin deadline visit True entries (fst st, ck))"

section \<open>Teardown\<close>

definition next_walk :: "pty \<Rightarrow> snapshot \<times> pty" where
  "next_walk p =
     (case walks p of [] \<Rightarrow> (None, p) | w # ws \<Rightarrow> (w, p\<lparr>walks := ws\<rparr>))"

definition pty_reach :: "reach \<Rightarrow> pty_signal \<Rightarrow> pty \<Rightarrow> pty" where
  "pty_reach target sig p = p\<lparr>reached := reached p @ [(target, sig)]\<rparr>"

text \<open>\<open>test_kill_process_group\<close>\<close>

definition group_alive :: "pty \<Rightarrow> bool \<times> pty" where
  "group_alive p = (case groups p of [] \<Rightarrow> (False, p) | g # gs \<Rightarrow> (g, p\<lparr>groups := gs\<rparr>))"

definition signal_session :: "int \<Rightarrow> pty_signal \<Rightarrow> nat \<Rightarrow> pty \<times> clock \<Rightarrow> pty \<times> clock" where
  "signal_session self sig deadline st =
     (case next_walk (fst st) of (snap, p) \<Rightarrow>
      case walk_session self (child p) True (Some deadline)
             (\<lambda>pid pinned p. (True, if pinned then pty_reach (ReachPinned pid) sig p else p))
             snap (p, snd st) of
        (_, p, ck) \<Rightarrow> (p, ck))"

definition session_is_empty :: "int \<Rightarrow> nat option \<Rightarrow> pty \<times> clock \<Rightarrow> bool \<times> pty \<times> clock" where
  "session_is_empty self deadline st =
     (case next_walk (fst st) of (snap, p) \<Rightarrow>
      case walk_session self (child p) False deadline (\<lambda>_ _ _. (False, False)) snap (True, snd st) of
        (scanned, unmet, ck) \<Rightarrow> (scanned \<and> unmet, p, ck))"

text \<open>The clock only moves forward through a walk, so the loops on a deadline end.\<close>

lemma past_mono: "past deadline ck = (late, ck') \<Longrightarrow> fst ck \<le> fst ck'"
  by (auto simp: past_def split: option.splits prod.splits dest: clock_now_mono)

lemma walk_entries_mono:
  "walk_entries self sid pin deadline visit complete es st = (r, s', ck') \<Longrightarrow> fst (snd st) \<le> fst ck'"
proof (induction self sid pin deadline visit complete es st rule: walk_entries.induct)
  case (1 self sid pin deadline visit complete s ck)
  then show ?case by simp
next
  case (2 self sid pin deadline visit complete e es s ck)
  obtain late ck1 where p: "past deadline ck = (late, ck1)" by (cases "past deadline ck")
  have "fst ck \<le> fst ck1" using past_mono [OF p] .
  moreover have "fst ck1 \<le> fst ck'"
    using "2.prems" "2.IH" [OF p [symmetric]] p
    by (auto split: if_splits option.splits seen.splits prod.splits)
  ultimately show ?case by simp
qed

lemma walk_session_mono:
  "walk_session self sid pin deadline visit snap st = (r, s', ck') \<Longrightarrow> fst (snd st) \<le> fst ck'"
  by (fastforce simp: walk_session_def split: prod.splits if_splits option.splits
      dest: past_mono walk_entries_mono)

lemma session_is_empty_mono:
  "session_is_empty self deadline st = (r, p', ck') \<Longrightarrow> fst (snd st) \<le> fst ck'"
  by (auto simp: session_is_empty_def split: prod.splits dest: walk_session_mono)

lemma signal_session_mono:
  "signal_session self sig deadline st = (p', ck') \<Longrightarrow> fst (snd st) \<le> fst ck'"
  by (auto simp: signal_session_def split: prod.splits dest: walk_session_mono)

lemma signal_session_later: "fst (snd st) \<le> fst (snd (signal_session self sig deadline st))"
  by (cases "signal_session self sig deadline st") (auto dest: signal_session_mono)

text \<open>The hangup loop: whether the group and the session were last seen alive and settled.\<close>

function hangup_loop ::
  "int \<Rightarrow> nat \<Rightarrow> bool \<Rightarrow> pty \<times> clock \<Rightarrow> bool \<times> bool \<times> pty \<times> clock" where
  "hangup_loop self deadline alive (p, ck) =
     (case clock_now ck of (now, ck) \<Rightarrow>
        if deadline \<le> now then (alive, False, p, ck)
        else case group_alive p of (alive, p) \<Rightarrow>
        case session_is_empty self (Some deadline) (p, ck) of (settled, p, ck) \<Rightarrow>
          if settled then (alive, True, p, ck)
          else hangup_loop self deadline alive (p, clock_sleep HANGUP_POLL_INTERVAL ck))"
  by pat_completeness auto
termination
  by (relation "measure (\<lambda>(_, dl, _, _, ck). dl - fst ck)")
    (auto simp: clock_sleep_def HANGUP_POLL_INTERVAL_def millis_def
      dest!: clock_now_mono [OF sym] session_is_empty_mono [OF sym])

function kill_loop :: "int \<Rightarrow> nat \<Rightarrow> pty \<times> clock \<Rightarrow> pty \<times> clock" where
  "kill_loop self deadline st =
     (case signal_session self SigKill deadline st of (p, ck) \<Rightarrow>
      case session_is_empty self (Some deadline) (p, ck) of (empt, p, ck) \<Rightarrow>
        if empt then (p, ck)
        else case clock_now ck of (now, ck) \<Rightarrow>
          if deadline \<le> now then (p, ck)
          else kill_loop self deadline (p, clock_sleep HANGUP_POLL_INTERVAL ck))"
  by pat_completeness auto
termination
  by (relation "measure (\<lambda>(_, dl, _, ck). dl - fst ck)")
    (auto simp: clock_sleep_def HANGUP_POLL_INTERVAL_def millis_def
      dest!: clock_now_mono [OF sym] session_is_empty_mono [OF sym]
        order_trans [OF signal_session_later])

declare hangup_loop.simps [simp del] kill_loop.simps [simp del]

definition terminate :: "int \<Rightarrow> pty \<times> clock \<Rightarrow> pty \<times> clock" where
  "terminate self st =
     (case group_alive (fst st) of (alive, p) \<Rightarrow>
      case clock_now (snd st) of (now, ck) \<Rightarrow>
      case session_is_empty self (Some (now + HANGUP_GRACE)) (p, ck) of (settled, p, ck) \<Rightarrow>
      case clock_now ck of (now, ck) \<Rightarrow>
      case (if settled then (alive, True, p, ck)
            else
              let deadline = now + HANGUP_GRACE;
                  p = (if alive
                       then pty_reach (ReachGroup (child p)) SigCont
                              (pty_reach (ReachGroup (child p)) SigHup p)
                       else p)
              in hangup_loop self deadline alive
                   (signal_session self SigCont deadline
                     (signal_session self SigHup deadline (p, ck))))
      of (alive, settled, p, ck) \<Rightarrow>
      case (if settled then (p, ck)
            else
              let p = (if alive then pty_reach (ReachGroup (child p)) SigKill p else p)
              in case clock_now ck of (now, ck) \<Rightarrow> kill_loop self (now + HANGUP_GRACE) (p, ck))
      of (p, ck) \<Rightarrow> (p\<lparr>child_killed := True\<rparr>, ck))"

section \<open>Choosing the shell and its directory\<close>

text \<open>\<open>/bin/sh\<close>, \<open>sh\<close> and \<open>/\<close>; what the file system answers of a path is a parameter.\<close>

definition bin_sh :: bytes where
  "bin_sh = [47, 98, 105, 110, 47, 115, 104]"

definition pick_shell :: "(bytes \<Rightarrow> bool) \<Rightarrow> (bytes \<Rightarrow> bool) \<Rightarrow> bytes option \<Rightarrow> bytes \<times> bytes" where
  "pick_shell is_file executable shell =
     (let shell = (case shell of
             Some v \<Rightarrow> if is_absolute v \<and> is_file v \<and> executable v then v else bin_sh
           | None \<Rightarrow> bin_sh);
          base = (case file_name shell of
             Some name \<Rightarrow> (case from_utf8 name of Some s \<Rightarrow> s | None \<Rightarrow> [115, 104])
           | None \<Rightarrow> [115, 104])
      in (shell, 45 # base))"

definition pick_dir ::
  "(bytes \<Rightarrow> bool) \<Rightarrow> (bytes \<Rightarrow> bool) \<Rightarrow> bytes option \<Rightarrow> bytes option \<Rightarrow> bytes" where
  "pick_dir is_dir searchable home fallback =
     (case filter (\<lambda>d. is_absolute d \<and> is_dir d \<and> searchable d)
             (List.map_filter id [home, fallback]) of
        d # _ \<Rightarrow> d
      | [] \<Rightarrow> [47])"

definition child_dir ::
  "(bytes \<Rightarrow> bool) \<Rightarrow> (bytes \<Rightarrow> bool) \<Rightarrow> bytes option \<Rightarrow> bytes option \<Rightarrow> bytes" where
  "child_dir is_dir searchable home fallback =
     pick_dir is_dir searchable
       (case home of Some h \<Rightarrow> if h = [] then None else Some h | None \<Rightarrow> None) fallback"

end
