(* ===== verification/Daemon.thy ===== *)
theory Daemon
  imports Conn_Props Ring Agent Pty
begin

text \<open>
  The session daemon: src/crates/nomux/src/daemon.rs, from the state it keeps to the event loop.
  The record is the struct \<open>Daemon\<close> and, behind it, what the process meets: the clock, the
  listener's script, the answers \<open>Pty::spawn\<close> and \<open>Agent::bind\<close> will give, where the ring's deque
  will be split, and the ghost \<open>d_departed\<close>, the connections closed so far as they were dropped.
  Logging is not modelled.
\<close>

section \<open>Constants\<close>

definition DEFAULT_RING_CAPACITY :: nat where
  "DEFAULT_RING_CAPACITY = 16 * 2 ^ 20"

definition MAX_RING_CAPACITY :: nat where
  "MAX_RING_CAPACITY = 2 ^ 30"

text \<open>\<open>ring_capacity\<close>, of the characters the environment variable holds.\<close>

definition ring_capacity :: "nat list option \<Rightarrow> nat" where
  "ring_capacity requested =
     (case (case requested of
              None \<Rightarrow> None
            | Some v \<Rightarrow> parse_unsigned (2 ^ 64 - 1) (trim v)) of
        None \<Rightarrow> DEFAULT_RING_CAPACITY
      | Some n \<Rightarrow> (if 0 < n then min n MAX_RING_CAPACITY else DEFAULT_RING_CAPACITY))"

definition IDLE_TIMEOUT :: nat where
  "IDLE_TIMEOUT = secs (7 * 24 * 60 * 60)"

definition OUTCOME_GRACE :: nat where
  "OUTCOME_GRACE = secs 2"

definition IDLE_TICK :: nat where
  "IDLE_TICK = secs 3600"

definition FIRST_ATTACH_TIMEOUT :: nat where
  "FIRST_ATTACH_TIMEOUT = secs 30"

definition ACCEPT_BACKOFF :: nat where
  "ACCEPT_BACKOFF = millis 100"

definition RESIZE_RETRY :: nat where
  "RESIZE_RETRY = millis 100"

definition PENDING_HELLO_TIMEOUT :: nat where
  "PENDING_HELLO_TIMEOUT = secs 5"

definition MAX_PENDING_INPUT :: nat where
  "MAX_PENDING_INPUT = 2 ^ 20"

definition ABANDON_PENDING_WRITE :: nat where
  "ABANDON_PENDING_WRITE = 8 * 2 ^ 20"

text \<open>The buffer \<open>event_loop\<close> reads everything through.\<close>

definition READ_BUF :: nat where
  "READ_BUF = 64 * 1024"

section \<open>State\<close>

record attached =
  at_conn :: conn
  terminal_end_sent :: bool
  sent_through :: u64
  at_ctrl_l :: bool \<comment> \<open>\<open>repaint_ctrl_l\<close>\<close>
  repaint_due :: bool

text \<open>\<open>Attached::greeting\<close>\<close>

definition greeting :: "conn \<Rightarrow> attached" where
  "greeting c = \<lparr>at_conn = c, terminal_end_sent = False, sent_through = 0, at_ctrl_l = False,
     repaint_due = False\<rparr>"

text \<open>The stop reasons, by the line each becomes.\<close>

datatype stop_why = StopSignalled | StopTerminal | StopShell | StopNeverAttached | StopIdle

record daemon =
  d_listener :: "os_accept list"
  d_child_pipe :: dev
  d_stop :: "stop_why option"
  d_ring :: ring
  d_pty :: "pty option"
  d_client :: "attached option"
  d_pending :: "(conn \<times> nat) option"
  d_agent :: "agent option"
  d_in_applied :: u64
  d_pending_input :: bytes
  d_win :: winsize
  d_applied_win :: "winsize option"
  d_child_signalled :: bool
  d_terminal_closed_at :: "nat option"
  d_outcome :: "(i32 \<times> exit_kind) option"
  d_accept_retry :: "nat option"
  d_agent_accept_retry :: "nat option"
  d_last_detach :: nat
  d_clock :: clock
  d_ours :: u32 \<comment> \<open>\<open>getuid\<close>\<close>
  d_self :: int \<comment> \<open>\<open>std::process::id\<close>\<close>
  d_agent_path :: bytes
  d_agent_bound :: "(os_accept list, errno) res"
  d_spawned :: "(pty, errno) res"
  d_splits :: "nat list"
  d_departed :: "conn list"
  d_unlinked :: bool

text \<open>\<open>Instant::now()\<close>\<close>

definition d_now :: "daemon \<Rightarrow> nat \<times> daemon" where
  "d_now d = (case clock_now (d_clock d) of (now, ck) \<Rightarrow> (now, d\<lparr>d_clock := ck\<rparr>))"

text \<open>The daemon \<open>start\<close> builds around a ring; what it runs in is that of \<open>env\<close>.\<close>

definition daemon_new :: "ring \<Rightarrow> daemon \<Rightarrow> daemon" where
  "daemon_new r env =
     (let d = env\<lparr>d_stop := None, d_ring := r, d_pty := None, d_client := None, d_pending := None,
          d_agent := None, d_in_applied := 0, d_pending_input := [],
          d_win := \<lparr>cols = 0, rows = 0, xpixel = 0, ypixel = 0\<rparr>, d_applied_win := None,
          d_child_signalled := False, d_terminal_closed_at := None, d_outcome := None,
          d_accept_retry := None, d_agent_accept_retry := None, d_departed := [],
          d_unlinked := False\<rparr>
      in case d_now d of (now, d) \<Rightarrow> d\<lparr>d_last_detach := now\<rparr>)"

section \<open>What the client is told, and how it goes\<close>

definition detach_deadline :: "daemon \<Rightarrow> nat option" where
  "detach_deadline d =
     (let limit = (if d_pty d = None then FIRST_ATTACH_TIMEOUT else IDLE_TIMEOUT)
      in if d_client d = None then Some (d_last_detach d + limit) else None)"

definition input_is_saturated :: "daemon \<Rightarrow> bool" where
  "input_is_saturated d \<longleftrightarrow> MAX_PENDING_INPUT \<le> length (d_pending_input d)"

definition input_backlog :: "daemon \<Rightarrow> bool" where
  "input_backlog d \<longleftrightarrow> \<not> input_is_saturated d \<and>
     (case d_client d of None \<Rightarrow> False | Some at \<Rightarrow> 0 < buffered (at_conn at))"

definition tell_client :: "frame \<Rightarrow> daemon \<Rightarrow> daemon" where
  "tell_client f d =
     (case d_client d of
        None \<Rightarrow> d
      | Some at \<Rightarrow> d\<lparr>d_client := Some (at\<lparr>at_conn := fst (conn_send f (at_conn at))\<rparr>)\<rparr>)"

definition stop_reason :: "daemon \<Rightarrow> stop_why option \<times> daemon" where
  "stop_reason d =
     (case d_stop d of
        Some why \<Rightarrow> (Some why, d)
      | None \<Rightarrow>
          (case detach_deadline d of
             None \<Rightarrow> (None, d)
           | Some at \<Rightarrow>
               (case d_now d of (now, d) \<Rightarrow>
                  (if at \<le> now
                   then Some (if d_pty d = None then StopNeverAttached else StopIdle)
                   else None, d))))"

definition on_detached :: "daemon \<Rightarrow> daemon" where
  "on_detached d =
     (case d_now d of (now, d) \<Rightarrow>
        let d = d\<lparr>d_last_detach := now\<rparr>
        in (case d_agent d of
              None \<Rightarrow> d
            | Some a \<Rightarrow>
                (case agent_generation a of
                   None \<Rightarrow> d
                 | Some g \<Rightarrow>
                     (case close_from_client g (d_clock d) a of (a, ck) \<Rightarrow>
                        d\<lparr>d_agent := Some a, d_clock := ck\<rparr>))))"

definition drop_client :: "daemon \<Rightarrow> daemon" where
  "drop_client d =
     (case d_client d of
        None \<Rightarrow> d
      | Some at \<Rightarrow>
          on_detached (d\<lparr>d_client := None,
            d_departed := d_departed d @ [fst (flush_some (at_conn at))]\<rparr>))"

definition reject :: "error_code \<Rightarrow> rstr \<Rightarrow> daemon \<Rightarrow> daemon" where
  "reject code message d = drop_client (tell_client (Error code message) d)"

text \<open>The messages, as the bytes of the string literals.\<close>

definition msg :: "string \<Rightarrow> rstr" where
  "msg s = map (\<lambda>c. of_nat (of_char c)) s"

definition evict :: "daemon \<Rightarrow> daemon" where
  "evict d =
     (case d_client d of
        None \<Rightarrow> d
      | Some at \<Rightarrow>
          (case close_with (d_clock d) (Some (Error Takeover (msg ''another client attached'')))
                  (at_conn at) of (c, ck) \<Rightarrow>
             on_detached (d\<lparr>d_client := None, d_clock := ck, d_departed := d_departed d @ [c]\<rparr>)))"

definition close_agent_channel :: "daemon \<Rightarrow> daemon" where
  "close_agent_channel d =
     (case d_agent d of
        None \<Rightarrow> d
      | Some a \<Rightarrow>
          (case forget a of (a, g) \<Rightarrow>
             let d = d\<lparr>d_agent := Some a\<rparr>
             in (case g of None \<Rightarrow> d | Some g \<Rightarrow> tell_client (AgentClose g) d)))"

section \<open>Frames from the client\<close>

definition on_input :: "u64 \<Rightarrow> bytes \<Rightarrow> daemon \<Rightarrow> daemon" where
  "on_input offset data d =
     (let fin = sat_add64 offset (length data)
      in if d_in_applied d < offset then reject InputGap (msg ''input stream skipped ahead'') d
         else
           let d = (if d_in_applied d < fin
                    then
                      let d = (if d_terminal_closed_at d = None
                               then d\<lparr>d_pending_input := d_pending_input d
                                      @ drop (unat (d_in_applied d - offset)) data\<rparr>
                               else d)
                      in d\<lparr>d_in_applied := fin\<rparr>
                    else d)
           in tell_client (InputAck (d_in_applied d)) d)"

fun handle_frame :: "frame \<Rightarrow> daemon \<Rightarrow> daemon" where
  "handle_frame (Input offset data) d = on_input offset data d"
| "handle_frame (Resize w) d = d\<lparr>d_win := w\<rparr>"
| "handle_frame Ping d = tell_client Pong d"
| "handle_frame Detach d = drop_client d"
| "handle_frame (AgentData g data) d =
     (case d_agent d of
        None \<Rightarrow> d
      | Some a \<Rightarrow>
          (case deliver g data a of (a, ok) \<Rightarrow>
             let d = d\<lparr>d_agent := Some a\<rparr> in if ok then d else close_agent_channel d))"
| "handle_frame (AgentClose g) d =
     (case d_agent d of
        None \<Rightarrow> d
      | Some a \<Rightarrow>
          (case close_from_client g (d_clock d) a of (a, ck) \<Rightarrow>
             d\<lparr>d_agent := Some a, d_clock := ck\<rparr>))"
| "handle_frame (Hello _) d = reject Protocol (msg ''this connection has already greeted'') d"
| "handle_frame _ d = reject Protocol (msg ''frame is not valid from a client'') d"

text \<open>
  No frame makes the client more to decode: it is left with the receive buffer it had, or gone.
\<close>

definition to_decode :: "daemon \<Rightarrow> nat" where
  "to_decode d = (case d_client d of None \<Rightarrow> 0 | Some at \<Rightarrow> Suc (buffered (at_conn at)))"

lemma on_detached_client [simp]: "d_client (on_detached d) = d_client d"
  by (auto simp: on_detached_def d_now_def Let_def split: prod.splits option.splits)

lemma drop_client_client [simp]: "d_client (drop_client d) = None"
  by (auto simp: drop_client_def split: option.splits)

lemma reject_client [simp]: "d_client (reject code m d) = None"
  by (simp add: reject_def)

lemma to_decode_tell [simp]: "to_decode (tell_client f d) = to_decode d"
  by (simp add: to_decode_def tell_client_def buffered_def conn_send_simps split: option.split)

lemma to_decode_close_agent [simp]: "to_decode (close_agent_channel d) = to_decode d"
proof -
  have "to_decode (d\<lparr>d_agent := a\<rparr>) = to_decode d" for a by (simp add: to_decode_def)
  then show ?thesis
    by (simp add: close_agent_channel_def Let_def split: option.split prod.split)
qed

lemma to_decode_gone: "d_client d = None \<Longrightarrow> to_decode d = 0"
  by (simp add: to_decode_def)

lemma to_decode_on_input: "to_decode (on_input offset data d) \<le> to_decode d"
proof (cases "d_in_applied d < offset")
  case True
  then show ?thesis by (simp add: on_input_def to_decode_gone)
next
  case False
  have "to_decode (d\<lparr>d_in_applied := x\<rparr>) = to_decode d" "to_decode (d\<lparr>d_pending_input := y\<rparr>) = to_decode d"
    "to_decode (d\<lparr>d_pending_input := y, d_in_applied := x\<rparr>) = to_decode d" for x y
    by (simp_all add: to_decode_def)
  then show ?thesis using False by (simp add: on_input_def Let_def)
qed

lemma to_decode_fields [simp]:
  "to_decode (d\<lparr>d_win := w\<rparr>) = to_decode d"
  "to_decode (d\<lparr>d_agent := a\<rparr>) = to_decode d"
  "to_decode (d\<lparr>d_agent := a, d_clock := ck\<rparr>) = to_decode d"
  by (simp_all add: to_decode_def)

lemma to_decode_handle: "to_decode (handle_frame f d) \<le> to_decode d"
  by (cases f)
    (simp_all add: to_decode_gone to_decode_on_input Let_def split: option.split prod.split)

lemma to_decode_taken:
  assumes "take_frame (at_conn at) = (c, Ok (Some (t, payload)))" and "d_client d = Some at"
  shows "to_decode (handle_frame f (d\<lparr>d_client := Some (at\<lparr>at_conn := c\<rparr>)\<rparr>)) < to_decode d"
proof -
  have "buffered c < buffered (at_conn at)"
    using take_frame_keeps(7) [OF assms(1) refl] .
  then have "to_decode (d\<lparr>d_client := Some (at\<lparr>at_conn := c\<rparr>)\<rparr>) < to_decode d"
    using assms(2) by (simp add: to_decode_def)
  then show ?thesis by (rule le_less_trans [OF to_decode_handle])
qed

text \<open>The decode loop of \<open>read_client\<close>: whether it went on to the end-of-file test behind it.\<close>

function read_frames :: "daemon \<Rightarrow> bool \<times> daemon" where
  "read_frames d =
     (if input_is_saturated d then (False, d)
      else case d_client d of
        None \<Rightarrow> (False, d)
      | Some at \<Rightarrow>
          (case take_frame (at_conn at) of (c, r) \<Rightarrow>
             let d = d\<lparr>d_client := Some (at\<lparr>at_conn := c\<rparr>)\<rparr>
             in (case r of
                   Ok (Some (t, payload)) \<Rightarrow>
                     (case frame_decode t payload of
                        Ok f \<Rightarrow> read_frames (handle_frame f d)
                      | Err _ \<Rightarrow> (False, reject Protocol (msg ''unparseable frame payload'') d))
                 | Ok None \<Rightarrow> (True, d)
                 | Err _ \<Rightarrow> (False, reject Protocol (msg ''unparseable frame header'') d))))"
  by pat_completeness auto
termination
  by (relation "measure to_decode") (auto intro: to_decode_taken [OF sym])

declare read_frames.simps [simp del]

definition read_client :: "daemon \<Rightarrow> daemon" where
  "read_client d =
     (case d_client d of
        None \<Rightarrow> d
      | Some at \<Rightarrow>
          (case (if eof (at_conn at) then (at_conn at, Ok ()) else fill READ_BUF (at_conn at)) of
             (c, r) \<Rightarrow>
               let d = d\<lparr>d_client := Some (at\<lparr>at_conn := c\<rparr>)\<rparr>
               in if \<not> is_ok r then drop_client d
                  else case read_frames d of (broke, d) \<Rightarrow>
                    if broke \<and> (case d_client d of None \<Rightarrow> False
                        | Some at \<Rightarrow> eof (at_conn at) \<and> buffered (at_conn at) \<noteq> 0)
                    then reject Protocol (msg ''truncated frame at end of input'') d
                    else d))"

section \<open>Attaching\<close>

definition start_session :: "hello \<Rightarrow> daemon \<Rightarrow> daemon" where
  "start_session h d =
     (let d = (if agent_forward h
               then (case agent_bind (d_agent_path d) (d_agent_bound d) of
                       Ok a \<Rightarrow> d\<lparr>d_agent := Some a\<rparr>
                     | Err _ \<Rightarrow> d)
               else d)
      in (case pty_spawn (d_spawned d) (win h) of
            Ok p \<Rightarrow> d\<lparr>d_pty := Some p\<rparr>
          | Err _ \<Rightarrow>
              (reject Internal (msg ''failed to start the session shell'') d)
                \<lparr>d_stop := Some StopShell\<rparr>))"

definition apply_win :: "daemon \<Rightarrow> daemon" where
  "apply_win d =
     (if d_applied_win d = Some (d_win d) then d
      else case d_pty d of
        None \<Rightarrow> d
      | Some p \<Rightarrow>
          (case pty_resize (d_win d) p of (p, r) \<Rightarrow>
             d\<lparr>d_pty := Some p, d_applied_win := (if is_ok r then Some (d_win d) else None)\<rparr>))"

text \<open>Where a client resumes: its own offset clamped into the ring, or the oldest byte.\<close>

definition resume_point :: "u64 \<Rightarrow> ring \<Rightarrow> u64" where
  "resume_point offset r =
     (if offset = RESUME_FROM_START then base r else max (min offset (ring_end r)) (base r))"

definition on_hello :: "hello \<Rightarrow> daemon \<Rightarrow> daemon" where
  "on_hello h d =
     (let d = d\<lparr>d_win := win h, d_applied_win := None\<rparr>;
          d = (if d_pty d = None then start_session h d else d)
      in if d_pty d = None then d
         else
           let ok = \<lparr>resume_from = resume_point (out_offset h) (d_ring d),
                     in_applied = d_in_applied d, agent = (d_agent d \<noteq> None)\<rparr>;
               gap = hello_ok_gap ok (out_offset h);
               d = (case d_client d of
                      None \<Rightarrow> d
                    | Some at \<Rightarrow>
                        d\<lparr>d_client := Some (at\<lparr>sent_through := resume_from ok,
                           at_ctrl_l := repaint_ctrl_l h, repaint_due := gap\<rparr>)\<rparr>)
           in tell_client (HelloOk ok) d)"

section \<open>The terminal\<close>

definition on_terminal_closed :: "daemon \<Rightarrow> daemon" where
  "on_terminal_closed d =
     (let d = (if d_terminal_closed_at d = None
               then case d_now d of (now, d) \<Rightarrow> d\<lparr>d_terminal_closed_at := Some now\<rparr>
               else d)
      in d\<lparr>d_pending_input := []\<rparr>)"

definition read_pty :: "daemon \<Rightarrow> daemon" where
  "read_pty d =
     (case d_pty d of
        None \<Rightarrow> d
      | Some p \<Rightarrow>
          (case read_or_eof READ_BUF (master p) of (r, m) \<Rightarrow>
             let d = d\<lparr>d_pty := Some (p\<lparr>master := m\<rparr>)\<rparr>
             in (case r of
                   Data bs \<Rightarrow> d\<lparr>d_ring := ring_push bs (d_ring d)\<rparr>
                 | Eof \<Rightarrow> on_terminal_closed d
                 | WouldBlock \<Rightarrow> d
                 | Failed _ \<Rightarrow>
                     (let d = reject Internal (msg ''terminal read failed'') d
                      in if d_stop d = None then d\<lparr>d_stop := Some StopTerminal\<rparr> else d))))"

definition write_pty :: "daemon \<Rightarrow> daemon" where
  "write_pty d =
     (case d_pty d of
        None \<Rightarrow> d
      | Some p \<Rightarrow>
          (case drain_to (d_pending_input d) (master p) of (r, q, m) \<Rightarrow>
             d\<lparr>d_pty := Some (p\<lparr>master := m\<rparr>),
               d_pending_input := (if is_ok r then q else [])\<rparr>))"

definition worth_a_waitpid :: "daemon \<Rightarrow> bool" where
  "worth_a_waitpid d \<longleftrightarrow>
     d_child_signalled d \<or>
     d_terminal_closed_at d \<noteq> None \<and>
       (d_outcome d = None \<or>
        (case d_pty d of None \<Rightarrow> False | Some p \<Rightarrow> needs_observation p))"

text \<open>The first half of \<open>collect_outcome\<close>: what \<open>observed\<close> is bound to.\<close>

definition observe_child :: "daemon \<Rightarrow> daemon \<times> (i32 \<times> exit_kind) option" where
  "observe_child d =
     (if worth_a_waitpid d
      then case d_pty d of
          None \<Rightarrow> (d, None)
        | Some p \<Rightarrow>
            (case try_outcome p of (p, r) \<Rightarrow>
               let d = d\<lparr>d_pty := Some p\<rparr>
               in (case r of
                     Ok found \<Rightarrow> (d, found)
                   | Err _ \<Rightarrow>
                       (if d_terminal_closed_at d \<noteq> None
                        then d\<lparr>d_outcome := Some (0, Unknown)\<rparr> else d, None)))
      else (d, None))"

definition collect_outcome :: "daemon \<Rightarrow> daemon" where
  "collect_outcome d =
     (case observe_child d of (d, found) \<Rightarrow>
        let d = d\<lparr>d_child_signalled := False\<rparr>
        in if d_outcome d \<noteq> None then d
           else case found of
             Some r \<Rightarrow> d\<lparr>d_outcome := Some r\<rparr>
           | None \<Rightarrow>
               (case d_terminal_closed_at d of
                  None \<Rightarrow> d
                | Some closed_at \<Rightarrow>
                    (case d_now d of (now, d) \<Rightarrow>
                       if OUTCOME_GRACE \<le> now - closed_at
                       then d\<lparr>d_outcome := Some (0, Unknown)\<rparr> else d)))"

section \<open>Output\<close>

definition repaint :: "daemon \<Rightarrow> bool \<times> daemon" where
  "repaint d =
     (if d_terminal_closed_at d \<noteq> None then (True, d)
      else if (case d_client d of None \<Rightarrow> False | Some at \<Rightarrow> at_ctrl_l at) then
        (if input_is_saturated d then (False, d)
         else (True, d\<lparr>d_pending_input := d_pending_input d @ [0x0c]\<rparr>))
      else case d_pty d of
        None \<Rightarrow> (True, d)
      | Some p \<Rightarrow>
          (case nudge_repaint (d_win d) p of (p, r) \<Rightarrow>
             let d = d\<lparr>d_pty := Some p\<rparr>
             in (True, if is_ok r then d else d\<lparr>d_applied_win := None\<rparr>)))"

text \<open>Where the deque is split this time.\<close>

definition next_split :: "daemon \<Rightarrow> nat \<times> daemon" where
  "next_split d =
     (case d_splits d of [] \<Rightarrow> (0, d) | k # ks \<Rightarrow> (k, d\<lparr>d_splits := ks\<rparr>))"

text \<open>The loop over the slices: the connection and the offset queued through.\<close>

fun pump_parts :: "bytes list \<Rightarrow> conn \<times> u64 \<Rightarrow> conn \<times> u64" where
  "pump_parts [] (c, through) = (c, through)"
| "pump_parts (part # parts) (c, through) =
     (if part = [] then pump_parts parts (c, through)
      else
        let want = through + of_nat (length part)
        in case send_output through part c of (c, through) \<Rightarrow>
             if through \<noteq> want then (c, through) else pump_parts parts (c, through))"

text \<open>The first half of \<open>pump_output\<close>: the gap, then the ring.\<close>

definition pump_ring :: "nat \<Rightarrow> ring \<Rightarrow> attached \<Rightarrow> attached" where
  "pump_ring split_at r at =
     (if queued (at_conn at) < MAX_PENDING_WRITE \<and> sent_through at < ring_end r
      then
        let at = (if sent_through at < base r
                  then at\<lparr>at_conn := fst (conn_send (Gap (base r)) (at_conn at)),
                          sent_through := base r, repaint_due := True\<rparr>
                  else at)
        in case pump_parts (slices_from split_at r (sent_through at))
                  (at_conn at, sent_through at) of (c, through) \<Rightarrow>
             at\<lparr>at_conn := c, sent_through := through\<rparr>
      else at)"

text \<open>The rest of \<open>pump_output\<close>: the \<open>Exit\<close>, then the repaint.\<close>

definition exit_due :: "daemon \<Rightarrow> attached \<Rightarrow> (nat \<times> i32 \<times> exit_kind) option" where
  "exit_due d at =
     (if terminal_end_sent at \<or> sent_through at < ring_end (d_ring d) then None
      else case (d_terminal_closed_at d, d_outcome d) of
        (Some closed_at, Some o') \<Rightarrow> Some (closed_at, o') | _ \<Rightarrow> None)"

definition send_exit :: "daemon \<Rightarrow> attached \<Rightarrow> attached \<times> daemon" where
  "send_exit d at =
     (case exit_due d at of
        None \<Rightarrow> (at, d)
      | Some (closed_at, status, kind) \<Rightarrow>
          (case d_now d of (now, d) \<Rightarrow>
             (at\<lparr>at_conn := fst (conn_send
                   (Exit status kind (u32_or_max ((now - closed_at) div secs 1))) (at_conn at)),
                 terminal_end_sent := True\<rparr>, d)))"

definition settle_repaint :: "daemon \<Rightarrow> daemon" where
  "settle_repaint d =
     (case d_client d of
        None \<Rightarrow> d
      | Some at \<Rightarrow>
          (if repaint_due at \<and> ring_end (d_ring d) \<le> sent_through at
           then case repaint d of (done, d) \<Rightarrow>
             if done
             then (case d_client d of
                     None \<Rightarrow> d
                   | Some at \<Rightarrow> d\<lparr>d_client := Some (at\<lparr>repaint_due := False\<rparr>)\<rparr>)
             else d
           else d))"

definition pump_output :: "daemon \<Rightarrow> daemon" where
  "pump_output d =
     (case d_client d of
        None \<Rightarrow> d
      | Some at \<Rightarrow>
          (case next_split d of (k, d) \<Rightarrow>
           case send_exit d (pump_ring k (d_ring d) at) of (at, d) \<Rightarrow>
             settle_repaint (d\<lparr>d_client := Some at\<rparr>)))"

definition write_client :: "daemon \<Rightarrow> daemon" where
  "write_client d =
     (case d_client d of
        None \<Rightarrow> d
      | Some at \<Rightarrow>
          (case flush_some (at_conn at) of (c, r) \<Rightarrow>
             let d = d\<lparr>d_client := Some (at\<lparr>at_conn := c\<rparr>)\<rparr>;
                 finished = (\<not> is_ok r \<or> ABANDON_PENDING_WRITE \<le> queued c \<or>
                   terminal_end_sent at \<and> eof c \<and> queued c = 0)
             in if finished then drop_client d else d))"

section \<open>The agent\<close>

definition accept_agent :: "daemon \<Rightarrow> daemon" where
  "accept_agent d =
     (case d_agent d of
        None \<Rightarrow> d
      | Some a \<Rightarrow>
          (case agent_accept (d_client d \<noteq> None) (d_ours d) (d_clock d) a of (a, ck, r) \<Rightarrow>
             let d = d\<lparr>d_agent := Some a, d_clock := ck\<rparr>
             in (case r of
                   Opened g \<Rightarrow> tell_client (AgentOpen g) d
                 | AcceptFailed \<Rightarrow>
                     (case d_now d of (now, d) \<Rightarrow>
                        d\<lparr>d_agent_accept_retry := Some (now + ACCEPT_BACKOFF)\<rparr>)
                 | AcceptIdle \<Rightarrow> d)))"

text \<open>The second half of \<open>service_agent_channel\<close>, reached unless the flush ended the channel.\<close>

definition read_agent_channel :: "daemon \<Rightarrow> daemon" where
  "read_agent_channel d =
     (case d_agent d of
        None \<Rightarrow> d
      | Some a \<Rightarrow>
          (let g = agent_generation a
           in case agent_read READ_BUF (d_clock d) a of (a, ck, r) \<Rightarrow>
             let d = d\<lparr>d_agent := Some a, d_clock := ck\<rparr>
             in (case r of
                   Data data \<Rightarrow>
                     (case (g, d_client d) of
                        (Some g, Some at) \<Rightarrow>
                          d\<lparr>d_client := Some (at\<lparr>at_conn := send_agent_data g data (at_conn at)\<rparr>)\<rparr>
                      | _ \<Rightarrow> d)
                 | Eof \<Rightarrow> close_agent_channel d
                 | Failed _ \<Rightarrow> close_agent_channel d
                 | WouldBlock \<Rightarrow> d)))"

definition service_agent_channel :: "poll_flag set \<Rightarrow> daemon \<Rightarrow> daemon" where
  "service_agent_channel events d =
     (case d_agent d of
        None \<Rightarrow> d
      | Some a \<Rightarrow>
          (case (if POUT \<in> events then agent_flush (d_clock d) a else (a, d_clock d, FlushOpen)) of
             (a, ck, r) \<Rightarrow>
               let d = d\<lparr>d_agent := Some a, d_clock := ck\<rparr>
               in (case r of
                     FlushFinished \<Rightarrow> d\<lparr>d_agent := Some (fst (forget a))\<rparr>
                   | FlushFailed \<Rightarrow> close_agent_channel d
                   | FlushOpen \<Rightarrow> (if readable events then read_agent_channel d else d))))"

section \<open>Arrivals\<close>

fun accept_script :: "os_accept list \<Rightarrow> (peer, errno) res \<times> os_accept list" where
  "accept_script [] = kernel_accept []"
| "accept_script (a # s) =
     (if a = AcErr EINTR then accept_script s else kernel_accept (a # s))"

definition accept :: "daemon \<Rightarrow> daemon" where
  "accept d =
     (case accept_script (d_listener d) of (r, s) \<Rightarrow>
        let d = d\<lparr>d_listener := s\<rparr>
        in (case r of
              Ok p \<Rightarrow>
                (if \<not> peer_is_ours (d_ours d) p then d
                 else if p_nonblock p
                 then case d_now d of (now, d) \<Rightarrow>
                   d\<lparr>d_pending := Some (conn_new (p_dev p), now + PENDING_HELLO_TIMEOUT)\<rparr>
                 else d\<lparr>d_pending := None\<rparr>)
            | Err e \<Rightarrow>
                (if e = EAGAIN then d
                 else case d_now d of (now, d) \<Rightarrow>
                   d\<lparr>d_accept_retry := Some (now + ACCEPT_BACKOFF)\<rparr>)))"

definition reject_pending :: "error_code \<Rightarrow> rstr \<Rightarrow> daemon \<Rightarrow> daemon" where
  "reject_pending code message d =
     (case d_pending d of
        None \<Rightarrow> d
      | Some (c, _) \<Rightarrow>
          (case close_with (d_clock d) (Some (Error code message)) c of (c, ck) \<Rightarrow>
             d\<lparr>d_pending := None, d_clock := ck, d_departed := d_departed d @ [c]\<rparr>))"

text \<open>From the version check on: what \<open>read_pending\<close> does with a greeting.\<close>

definition greet :: "hello \<Rightarrow> daemon \<Rightarrow> daemon" where
  "greet h d =
     (if protocol h \<noteq> PROTOCOL_VERSION
      then reject_pending Version (msg ''protocol version mismatch'') d
      else
        let d = (if d_client d \<noteq> None then read_client d else d)
        in if if_detached h \<and> d_client d \<noteq> None
           then reject_pending AlreadyAttached (msg ''another client is already attached'') d
           else
             let d = evict d;
                 d = d\<lparr>d_client := map_option (\<lambda>(c, _). greeting c) (d_pending d), d_pending := None\<rparr>
             in read_client (on_hello h d))"

definition read_pending :: "daemon \<Rightarrow> daemon" where
  "read_pending d =
     (case d_pending d of
        None \<Rightarrow> d
      | Some (c, deadline) \<Rightarrow>
          (case fill READ_BUF c of (c, r) \<Rightarrow>
             if \<not> is_ok r then d\<lparr>d_pending := None\<rparr>
             else case take_frame c of (c, r) \<Rightarrow>
               let d = d\<lparr>d_pending := Some (c, deadline)\<rparr>
               in (case r of
                     Ok None \<Rightarrow> (if eof c then d\<lparr>d_pending := None\<rparr> else d)
                   | Err _ \<Rightarrow> reject_pending Protocol (msg ''unparseable frame header'') d
                   | Ok (Some (t, payload)) \<Rightarrow>
                       (if t \<noteq> TyHello
                        then reject_pending Protocol
                               (msg ''first frame from a client must be Hello'') d
                        else case frame_decode t payload of
                          Ok (Hello h) \<Rightarrow> greet h d
                        | _ \<Rightarrow> reject_pending Protocol (msg ''unparseable Hello'') d))))"

section \<open>The poll set\<close>

datatype source =
  SrcListener | SrcStop | SrcChild | SrcPty | SrcClient | SrcPending | SrcAgentListener
| SrcAgentChannel

definition SINGLE_SOURCES :: "source list" where
  "SINGLE_SOURCES =
     [SrcListener, SrcStop, SrcChild, SrcPty, SrcClient, SrcPending, SrcAgentListener,
      SrcAgentChannel]"

fun watch_for :: "daemon \<Rightarrow> source \<Rightarrow> poll_flag set option" where
  "watch_for d SrcListener =
     (if d_accept_retry d = None \<and> d_pending d = None then Some {PIN} else None)"
| "watch_for d SrcStop = Some {PIN}"
| "watch_for d SrcChild = Some {PIN}"
| "watch_for d SrcPty =
     (if d_pty d \<noteq> None \<and> d_terminal_closed_at d = None
      then Some ({PIN} \<union> (if d_pending_input d \<noteq> [] then {POUT} else {}))
      else None)"
| "watch_for d SrcClient =
     (case d_client d of
        None \<Rightarrow> None
      | Some at \<Rightarrow>
          Some ((if input_is_saturated d \<or> eof (at_conn at) then {} else {PIN}) \<union>
                (if 0 < queued (at_conn at) \<or> sent_through at < ring_end (d_ring d)
                 then {POUT} else {})))"
| "watch_for d SrcPending = (if d_pending d \<noteq> None then Some {PIN} else None)"
| "watch_for d SrcAgentListener =
     (case d_agent d of
        None \<Rightarrow> None
      | Some a \<Rightarrow>
          (if d_agent_accept_retry d = None \<and> \<not> is_serving a then Some {PIN} else None))"
| "watch_for d SrcAgentChannel =
     (case d_agent d of
        None \<Rightarrow> None
      | Some a \<Rightarrow>
          (case agent_watch a of
             None \<Rightarrow> None
           | Some (wants_write, wants_read) \<Rightarrow>
               let saturated = (case d_client d of None \<Rightarrow> False
                     | Some at \<Rightarrow> MAX_PENDING_WRITE \<le> queued (at_conn at));
                   flags = (if saturated \<or> \<not> wants_read then {} else {PIN}) \<union>
                     (if wants_write then {POUT} else {})
               in if flags = {} then None else Some flags))"

text \<open>\<open>watches\<close>: what is registered, in order.\<close>

definition watches :: "daemon \<Rightarrow> (source \<times> poll_flag set) list" where
  "watches d = List.map_filter (\<lambda>s. map_option (\<lambda>m. (s, m)) (watch_for d s)) SINGLE_SOURCES"

text \<open>How long to sleep, in nanoseconds.\<close>

definition poll_deadlines :: "nat \<Rightarrow> daemon \<Rightarrow> nat list" where
  "poll_deadlines now d =
     List.map_filter id
       [d_accept_retry d, d_agent_accept_retry d, map_option snd (d_pending d),
        (case d_agent d of None \<Rightarrow> None | Some a \<Rightarrow> agent_deadline a),
        (if d_outcome d = None
         then map_option (\<lambda>closed_at. closed_at + OUTCOME_GRACE) (d_terminal_closed_at d) else None),
        (if d_pty d \<noteq> None \<and> d_client d \<noteq> None \<and> d_terminal_closed_at d = None \<and>
            d_applied_win d \<noteq> Some (d_win d)
         then Some (now + RESIZE_RETRY) else None)]"

definition poll_timeout :: "daemon \<Rightarrow> nat \<times> daemon" where
  "poll_timeout d =
     (case (case detach_deadline d of
              None \<Rightarrow> (IDLE_TICK, d)
            | Some at \<Rightarrow> (case d_now d of (now, d) \<Rightarrow> (min (at - now) IDLE_TICK, d))) of
        (remaining, d) \<Rightarrow>
      case (if d_pty d \<noteq> None \<and> d_client d \<noteq> None \<and> d_terminal_closed_at d = None \<and>
               d_applied_win d \<noteq> Some (d_win d)
            then d_now d else (0, d)) of (now, d) \<Rightarrow>
      (case poll_deadlines now d of
         [] \<Rightarrow> (remaining, d)
       | at # ats \<Rightarrow>
           (case d_now d of (now, d) \<Rightarrow> (min remaining (foldl min at ats - now), d))))"

text \<open>
  What \<open>poll\<close> may answer: a failure, or readiness for what was registered -- the flags asked
  for, and the three that are reported whatever was asked.
\<close>

datatype os_poll = PollReady "source \<Rightarrow> poll_flag set" | PollErr errno

definition revents_of :: "(source \<times> poll_flag set) list \<Rightarrow> (source \<Rightarrow> poll_flag set) \<Rightarrow> source \<Rightarrow> poll_flag set" where
  "revents_of watched answer s =
     (case map_of watched s of
        None \<Rightarrow> {}
      | Some asked \<Rightarrow> answer s \<inter> (asked \<union> {PHUP, PERR, PNVAL}))"

text \<open>The deadlines \<open>wait\<close> expires before it registers anything.\<close>

definition expire :: "nat option \<Rightarrow> nat \<Rightarrow> nat option" where
  "expire retry now = (case retry of Some at \<Rightarrow> if at \<le> now then None else Some at | None \<Rightarrow> None)"

definition expire_deadlines :: "daemon \<Rightarrow> daemon" where
  "expire_deadlines d =
     (case d_now d of (now, d) \<Rightarrow>
        let d = d\<lparr>d_accept_retry := expire (d_accept_retry d) now,
                  d_agent_accept_retry := expire (d_agent_accept_retry d) now,
                  d_pending := (case d_pending d of
                      Some (c, at) \<Rightarrow> if at \<le> now then None else Some (c, at)
                    | None \<Rightarrow> None)\<rparr>
        in (case d_agent d of
              None \<Rightarrow> d
            | Some a \<Rightarrow>
                (case close_if_idle now a of (a, g) \<Rightarrow>
                   let d = d\<lparr>d_agent := Some a\<rparr>
                   in (case g of None \<Rightarrow> d | Some g \<Rightarrow> tell_client (AgentClose g) d))))"

definition wait :: "os_poll \<Rightarrow> daemon \<Rightarrow> (source \<Rightarrow> poll_flag set, errno) res \<times> daemon" where
  "wait answer d =
     (let d = expire_deadlines d;
          watched = watches d
      in case poll_timeout d of (_, d) \<Rightarrow>
        (case answer of
           PollReady ready \<Rightarrow> (Ok (revents_of watched ready), d)
         | PollErr e \<Rightarrow> (if e = EINTR then (Ok (\<lambda>_. {}), d) else (Err e, d))))"

section \<open>One pass\<close>

text \<open>Emptying the self-pipe of \<open>SIGCHLD\<close>: reads of 64 bytes while they come back full.\<close>

fun drain_pipe :: "nat \<Rightarrow> dev \<Rightarrow> dev" where
  "drain_pipe 0 p = p"
| "drain_pipe (Suc fuel) p =
     (case nbio_read 64 p of
        (Ok bs, p) \<Rightarrow> (if length bs = 64 then drain_pipe fuel p else p)
      | (Err _, p) \<Rightarrow> p)"

text \<open>Every full read takes 64 bytes of what is left, so that much fuel is enough.\<close>

definition pipe_fuel :: "dev \<Rightarrow> nat" where
  "pipe_fuel p = Suc (length (script_bytes (reads p)))"

definition note_signals :: "(source \<Rightarrow> poll_flag set) \<Rightarrow> daemon \<Rightarrow> daemon" where
  "note_signals revents d =
     (let d = (if readable (revents SrcStop) \<and> d_stop d = None
               then d\<lparr>d_stop := Some StopSignalled\<rparr> else d)
      in if readable (revents SrcChild)
         then d\<lparr>d_child_signalled := True,
                d_child_pipe := drain_pipe (pipe_fuel (d_child_pipe d)) (d_child_pipe d)\<rparr>
         else d)"

definition poll_once :: "(source \<Rightarrow> poll_flag set) \<Rightarrow> daemon \<Rightarrow> daemon" where
  "poll_once revents d =
     (let d = note_signals revents d;
          client_events = revents SrcClient;
          d = (if readable (revents SrcPty) then read_pty d else d);
          d = (if readable client_events \<or> input_backlog d then read_client d else d);
          d = (if PHUP \<in> client_events \<or> PERR \<in> client_events then drop_client d else d);
          serving = (d_stop d = None);
          d = (if serving \<and> readable (revents SrcPending) then read_pending d else d);
          d = (if serving \<and> readable (revents SrcListener) then accept d else d);
          agent_events = revents SrcAgentChannel;
          d = (if agent_events \<noteq> {} then service_agent_channel agent_events d else d);
          d = (if d_stop d = None \<and> readable (revents SrcAgentListener) then accept_agent d else d);
          d = apply_win d;
          d = write_pty d;
          d = (if input_backlog d then read_client d else d);
          d = collect_outcome d;
          d = pump_output d
      in write_client d)"

definition shutdown :: "daemon \<Rightarrow> daemon" where
  "shutdown d =
     (let d = (case d_client d of
                 None \<Rightarrow> d
               | Some at \<Rightarrow>
                   (case close_with (d_clock d) None (at_conn at) of (c, ck) \<Rightarrow>
                      on_detached (d\<lparr>d_client := None, d_clock := ck,
                        d_departed := d_departed d @ [c]\<rparr>)));
          d = d\<lparr>d_pending := None\<rparr>;
          d = (case d_pty d of
                 None \<Rightarrow> d
               | Some p \<Rightarrow>
                   (case terminate (d_self d) (p, d_clock d) of (_, ck) \<Rightarrow>
                      d\<lparr>d_pty := None, d_clock := ck\<rparr>))
      in d\<lparr>d_unlinked := True\<rparr>)"

text \<open>
  \<open>event_loop\<close> over what \<open>poll\<close> will answer, one answer a pass; the loop of a session that is
  still going when the answers run out is \<open>None\<close>.
\<close>

fun event_loop :: "os_poll list \<Rightarrow> daemon \<Rightarrow> (unit, errno) res option \<times> daemon" where
  "event_loop answers d =
     (case stop_reason d of
        (Some _, d) \<Rightarrow> (Some (Ok ()), d)
      | (None, d) \<Rightarrow>
          (case answers of
             [] \<Rightarrow> (None, d)
           | answer # answers \<Rightarrow>
               (case wait answer d of
                  (Err e, d) \<Rightarrow> (Some (Err e), d)
                | (Ok revents, d) \<Rightarrow> event_loop answers (poll_once revents d))))"

end
