(* ===== verification/Daemon_Untouched.thy ===== *)
theory Daemon_Untouched
  imports Daemon
begin

text \<open>
  What the daemon's operations leave alone.  An observation that ignores the fields the client,
  its departure and the agent may move is the same after every one of the operations that only
  touch those; proved once in the locale, and interpreted for each observation that is needed.
\<close>

locale untouched =
  fixes F :: "daemon \<Rightarrow> 'o"
  assumes upd_client: "F (d\<lparr>d_client := cl\<rparr>) = F d"
    and upd_departed: "F (d\<lparr>d_departed := cs\<rparr>) = F d"
    and upd_agent: "F (d\<lparr>d_agent := ag\<rparr>) = F d"
    and upd_clock: "F (d\<lparr>d_clock := ck\<rparr>) = F d"
    and upd_last_detach: "F (d\<lparr>d_last_detach := t\<rparr>) = F d"
    and upd_in_applied: "F (d\<lparr>d_in_applied := x\<rparr>) = F d"
    and upd_pending_input: "F (d\<lparr>d_pending_input := q\<rparr>) = F d"
    and upd_win: "F (d\<lparr>d_win := w\<rparr>) = F d"
    and upd_agent_retry: "F (d\<lparr>d_agent_accept_retry := at\<rparr>) = F d"
begin

lemmas upds = upd_client upd_departed upd_agent upd_clock upd_last_detach upd_in_applied
  upd_pending_input upd_win upd_agent_retry

lemma now: "F (snd (d_now d)) = F d"
  by (simp add: d_now_def upds split: prod.split)

lemma now_eq: "d_now d = (t, d') \<Longrightarrow> F d' = F d"
  using now [of d] by simp

lemma tell: "F (tell_client f d) = F d"
  by (simp add: tell_client_def upds split: option.split)

lemma detached: "F (on_detached d) = F d"
proof -
  obtain t d1 where n: "d_now d = (t, d1)" by (cases "d_now d")
  show ?thesis
    using now_eq [OF n] n
    by (simp add: on_detached_def Let_def upds split: option.split prod.split)
qed

lemma drop_client: "F (drop_client d) = F d"
  using detached [of "d\<lparr>d_client := None, d_departed := cs\<rparr>" for cs]
  by (simp add: drop_client_def upds split: option.split)

lemma reject: "F (reject code m d) = F d"
  by (simp add: reject_def drop_client tell)

lemma evict: "F (evict d) = F d"
  by (simp add: evict_def detached upds split: option.split prod.split)

lemma close_agent: "F (close_agent_channel d) = F d"
  by (simp add: close_agent_channel_def Let_def tell upds split: option.split prod.split)

lemma on_input: "F (on_input offset data d) = F d"
  by (simp add: on_input_def Let_def tell reject upds)

lemma handle: "F (handle_frame f d) = F d"
  by (cases f)
    (simp_all add: Let_def on_input tell drop_client reject close_agent upds
      split: option.split prod.split)

lemma frames: "F (snd (read_frames d)) = F d"
proof (induction d rule: read_frames.induct)
  case (1 d)
  show ?case
  proof (cases "input_is_saturated d \<or> d_client d = None")
    case True
    then show ?thesis by (subst read_frames.simps) (auto split: option.split)
  next
    case False
    then obtain at where at: "d_client d = Some at" by auto
    obtain c r where tf: "take_frame (at_conn at) = (c, r)" by (cases "take_frame (at_conn at)")
    show ?thesis
    proof (cases "\<exists>t payload f. r = Ok (Some (t, payload)) \<and> frame_decode t payload = Ok f")
      case True
      then obtain t payload f where r: "r = Ok (Some (t, payload))" "frame_decode t payload = Ok f"
        by blast
      let ?d = "handle_frame f (d\<lparr>d_client := Some (at\<lparr>at_conn := c\<rparr>)\<rparr>)"
      have "read_frames d = read_frames ?d"
        using False at tf r by (subst read_frames.simps) simp
      moreover have "F (snd (read_frames ?d)) = F ?d"
        using "1.IH" [OF _ at tf [symmetric] refl r(1) refl refl r(2)] False by simp
      ultimately show ?thesis by (simp add: handle upds)
    next
      case no: False
      then show ?thesis
        using False at tf
        by (subst read_frames.simps) (auto simp: Let_def reject upds split: res.split option.split)
    qed
  qed
qed

lemma read_client: "F (read_client d) = F d"
proof (cases "d_client d")
  case (Some at)
  obtain c r where p: "(if eof (at_conn at) then (at_conn at, Ok ()) else fill READ_BUF (at_conn at)) = (c, r)"
    by (cases "if eof (at_conn at) then (at_conn at, Ok ()) else fill READ_BUF (at_conn at)")
  let ?d = "d\<lparr>d_client := Some (at\<lparr>at_conn := c\<rparr>)\<rparr>"
  obtain broke d2 where rf: "read_frames ?d = (broke, d2)" by (cases "read_frames ?d")
  have "F d2 = F d" using frames [of ?d] rf by (simp add: upds)
  then show ?thesis
    using Some p rf by (simp add: read_client_def Let_def drop_client reject upds)
qed (simp add: read_client_def)

lemma write_client: "F (write_client d) = F d"
  by (simp add: write_client_def Let_def drop_client upds split: option.split prod.split)

lemma accept_agent: "F (accept_agent d) = F d"
proof (cases "d_agent d")
  case (Some a)
  obtain a' ck r where ac: "agent_accept (d_client d \<noteq> None) (d_ours d) (d_clock d) a = (a', ck, r)"
    by (cases "agent_accept (d_client d \<noteq> None) (d_ours d) (d_clock d) a")
  let ?d = "d\<lparr>d_agent := Some a', d_clock := ck\<rparr>"
  obtain t d2 where n: "d_now ?d = (t, d2)" by (cases "d_now ?d")
  have "F d2 = F d" using now_eq [OF n] by (simp add: upds)
  then show ?thesis
    using Some ac n by (simp add: accept_agent_def Let_def tell upds split: accept_outcome.split)
qed (simp add: accept_agent_def)

lemma read_agent: "F (read_agent_channel d) = F d"
  by (simp add: read_agent_channel_def Let_def close_agent upds
      split: option.split prod.split read_outcome.split)

lemma service_agent: "F (service_agent_channel events d) = F d"
  by (simp add: service_agent_channel_def Let_def close_agent read_agent upds
      split: option.split prod.split flush_outcome.split)

end

interpretation pending_kept: untouched d_pending by unfold_locales simp_all

interpretation pty_kept: untouched d_pty by unfold_locales simp_all

interpretation ring_kept: untouched d_ring by unfold_locales simp_all

interpretation closed_kept: untouched d_terminal_closed_at by unfold_locales simp_all

interpretation outcome_kept: untouched d_outcome by unfold_locales simp_all

interpretation stop_kept: untouched d_stop by unfold_locales simp_all

interpretation listener_kept: untouched d_listener by unfold_locales simp_all

lemmas client_leaves_alone [simp] =
  pending_kept.read_client pty_kept.read_client ring_kept.read_client closed_kept.read_client
  outcome_kept.read_client stop_kept.read_client listener_kept.read_client
  pending_kept.drop_client pty_kept.drop_client ring_kept.drop_client closed_kept.drop_client
  outcome_kept.drop_client stop_kept.drop_client listener_kept.drop_client
  pending_kept.reject pty_kept.reject ring_kept.reject closed_kept.reject
  outcome_kept.reject stop_kept.reject listener_kept.reject
  pending_kept.detached pty_kept.detached ring_kept.detached closed_kept.detached
  outcome_kept.detached stop_kept.detached listener_kept.detached
  pending_kept.tell pty_kept.tell ring_kept.tell closed_kept.tell
  outcome_kept.tell stop_kept.tell listener_kept.tell
  pending_kept.evict pty_kept.evict ring_kept.evict closed_kept.evict
  outcome_kept.evict stop_kept.evict listener_kept.evict
  pty_kept.write_client closed_kept.write_client outcome_kept.write_client
  stop_kept.write_client listener_kept.write_client
  pty_kept.service_agent closed_kept.service_agent outcome_kept.service_agent
  stop_kept.service_agent listener_kept.service_agent
  pty_kept.accept_agent closed_kept.accept_agent outcome_kept.accept_agent
  stop_kept.accept_agent listener_kept.accept_agent

end
