(* ===== verification/Agent_Props.thy ===== *)
theory Agent_Props
  imports Agent
begin

text \<open>
  What agent forwarding promises: a bounded queue, a slot whose generations keep late frames away
  from its next holder, bytes handed on in order and once, and deadlines that give the slot back.
\<close>

section \<open>Runs\<close>

datatype agent_op =
  AgAccept bool | AgRead nat | AgDeliver u32 bytes | AgFlush | AgClose u32 | AgExpire nat | AgForget

fun agent_step :: "u32 \<Rightarrow> agent_op \<Rightarrow> agent \<times> clock \<Rightarrow> agent \<times> clock" where
  "agent_step ours (AgAccept serving) (a, ck) =
     (case agent_accept serving ours ck a of (a, ck, _) \<Rightarrow> (a, ck))"
| "agent_step ours (AgRead n) (a, ck) = (case agent_read n ck a of (a, ck, _) \<Rightarrow> (a, ck))"
| "agent_step ours (AgDeliver g d) (a, ck) = (fst (deliver g d a), ck)"
| "agent_step ours AgFlush (a, ck) = (case agent_flush ck a of (a, ck, _) \<Rightarrow> (a, ck))"
| "agent_step ours (AgClose g) (a, ck) = close_from_client g ck a"
| "agent_step ours (AgExpire now) (a, ck) = (fst (close_if_idle now a), ck)"
| "agent_step ours AgForget (a, ck) = (fst (forget a), ck)"

section \<open>The queue\<close>

definition queue_bounded :: "agent \<Rightarrow> bool" where
  "queue_bounded a \<longleftrightarrow>
     (case ag_channel a of None \<Rightarrow> True | Some chan \<Rightarrow> length (ch_pending chan) \<le> MAX_CHANNEL_QUEUE)"

text \<open>A flush in one equation: what moved, when, and what is left of the channel.\<close>

lemma touch_eq: "touch ck chan = (chan\<lparr>idle_deadline := fst (clock_now ck) + AGENT_IDLE_TIMEOUT\<rparr>,
    snd (clock_now ck))"
  by (simp add: touch_def split: prod.split)

lemma drain_to_shape:
  assumes "drain_to q d = (r, q', d')"
  shows "accepted d' @ q' = accepted d @ q" and "length q' \<le> length q"
proof -
  obtain r0 q0 s0 out where ds: "drain_script q (writes d) = (r0, q0, s0, out)"
    by (cases "drain_script q (writes d)") auto
  have "out @ q0 = q" using drain_script_conserves [OF ds] by simp
  then show "accepted d' @ q' = accepted d @ q" and "length q' \<le> length q"
    using assms ds by (auto simp: drain_to_def split: if_splits)
qed

lemma agent_flush_Some:
  assumes "ag_channel a = Some chan" and "agent_flush ck a = (a', ck', r)"
  obtains chan' where "ag_channel a' = Some chan'"
    and "a' = a\<lparr>ag_channel := Some chan'\<rparr>"
    and "generation chan' = generation chan" and "closing chan' = closing chan"
    and "accepted (ch_stream chan') @ ch_pending chan' = accepted (ch_stream chan) @ ch_pending chan"
    and "length (ch_pending chan') \<le> length (ch_pending chan)"
    and "closing chan \<Longrightarrow> r = FlushOpen \<Longrightarrow> ch_pending chan' \<noteq> []"
    and "\<not> closing chan \<Longrightarrow> r \<noteq> FlushFinished"
    and "closing chan \<Longrightarrow> r \<noteq> FlushFailed"
    and "idle_deadline chan' = (if length (ch_pending chan') \<noteq> length (ch_pending chan)
      then fst (clock_now ck) + AGENT_IDLE_TIMEOUT else idle_deadline chan)"
proof -
  obtain r0 q d where dr: "drain_to (ch_pending chan) (ch_stream chan) = (r0, q, d)"
    by (cases "drain_to (ch_pending chan) (ch_stream chan)")
  let ?c1 = "chan\<lparr>ch_pending := q, ch_stream := d\<rparr>"
  let ?c2 = "if length q \<noteq> length (ch_pending chan) then fst (touch ck ?c1) else ?c1"
  have "ag_channel a' = Some ?c2" "a' = a\<lparr>ag_channel := Some ?c2\<rparr>"
    "closing chan \<Longrightarrow> r = FlushOpen \<Longrightarrow> q \<noteq> []" "\<not> closing chan \<Longrightarrow> r \<noteq> FlushFinished"
    "closing chan \<Longrightarrow> r \<noteq> FlushFailed"
    using assms dr by (auto simp: agent_flush_def Let_def touch_eq split: prod.splits if_splits)
  then show thesis
    using drain_to_shape [OF dr] by (intro that [of ?c2]) (auto simp: touch_eq)
qed

lemma agent_flush_None: "ag_channel a = None \<Longrightarrow> agent_flush ck a = (a, ck, FlushFinished)"
  by (simp add: agent_flush_def)

lemma agent_accept_channel:
  assumes "agent_accept serving ours ck a = (a', ck', r)"
  shows "(case r of
      Opened g \<Rightarrow> g = next_generation a \<and> next_generation a' = g + 1 \<and> ag_channel a = None \<and> serving \<and>
        (\<exists>p rest. ag_listener a = AcOk p # rest \<and> p_uid p = Ok ours \<and>
          ag_channel a' = Some \<lparr>generation = g, ch_stream = p_dev p, ch_pending = [],
            closing = False, idle_deadline = fst (clock_now ck) + AGENT_IDLE_TIMEOUT\<rparr>)
    | _ \<Rightarrow> ag_channel a' = ag_channel a \<and> next_generation a' = next_generation a)"
proof -
  obtain k s where "kernel_accept (ag_listener a) = (k, s)" by (cases "kernel_accept (ag_listener a)")
  moreover have "k = Ok p \<Longrightarrow> ag_listener a = AcOk p # s" for p
    using calculation by (cases "ag_listener a" rule: kernel_accept.cases) auto
  ultimately show ?thesis
    using assms
    by (auto simp: agent_accept_def is_serving_def Let_def peer_is_ours_iff
        split: if_splits res.splits prod.splits)
qed

lemma agent_read_channel:
  assumes "agent_read n ck a = (a', ck', r)"
  shows "(case ag_channel a of None \<Rightarrow> a' = a \<and> r = Eof
    | Some chan \<Rightarrow> (if closing chan then a' = a \<and> r = WouldBlock
      else \<exists>chan'. ag_channel a' = Some chan' \<and> a' = a\<lparr>ag_channel := Some chan'\<rparr> \<and>
        generation chan' = generation chan \<and> closing chan' = closing chan \<and>
        ch_pending chan' = ch_pending chan \<and>
        accepted (ch_stream chan') = accepted (ch_stream chan)))"
proof (cases "ag_channel a")
  case (Some chan)
  obtain r0 d where rd: "read_or_eof n (ch_stream chan) = (r0, d)"
    by (cases "read_or_eof n (ch_stream chan)")
  have "accepted d = accepted (ch_stream chan)"
    using read_or_eof_accepted [of n "ch_stream chan"] rd by simp
  then show ?thesis
    using Some rd assms
    by (auto simp: agent_read_def touch_eq Let_def split: if_splits read_outcome.splits)
qed (use assms in \<open>simp add: agent_read_def\<close>)

lemma close_from_client_cases:
  assumes "close_from_client g ck a = (a', ck')"
  shows "(\<forall>chan. ag_channel a = Some chan \<longrightarrow> generation chan \<noteq> g) \<and> a' = a \<and> ck' = ck \<or>
    (\<exists>chan a1 ck1 r. ag_channel a = Some chan \<and> generation chan = g \<and>
       agent_flush ck (a\<lparr>ag_channel := Some (chan\<lparr>closing := True\<rparr>)\<rparr>) = (a1, ck1, r) \<and>
       (if r \<noteq> FlushOpen then a' = a1\<lparr>ag_channel := None\<rparr>
        else \<exists>chan1. ag_channel a1 = Some chan1 \<and>
          a' = a1\<lparr>ag_channel := Some (chan1\<lparr>idle_deadline :=
            min (idle_deadline chan1) (fst (clock_now ck1) + AGENT_ABANDON_GRACE)\<rparr>)\<rparr>))"
proof (cases "\<exists>chan. ag_channel a = Some chan \<and> generation chan = g")
  case True
  then obtain chan where chan: "ag_channel a = Some chan" "generation chan = g" by blast
  let ?a = "a\<lparr>ag_channel := Some (chan\<lparr>closing := True\<rparr>)\<rparr>"
  obtain a1 ck1 r where fl: "agent_flush ck ?a = (a1, ck1, r)" by (cases "agent_flush ck ?a")
  obtain chan1 where "ag_channel a1 = Some chan1"
    by (rule agent_flush_Some [OF _ fl, of "chan\<lparr>closing := True\<rparr>"]) simp_all
  moreover obtain now ck2 where "clock_now ck1 = (now, ck2)" by (cases "clock_now ck1")
  ultimately show ?thesis
    using assms chan fl
    by (auto simp: close_from_client_def forget_def Let_def simp del: split_paired_Ex split: if_splits)
next
  case False
  then show ?thesis
    using assms by (auto simp: close_from_client_def split: option.splits)
qed

text \<open>What every operation does to the slot, in one case distinction.\<close>

lemma deliver_channel:
  assumes "deliver g d a = (a', ok)"
  shows "a' = a \<and> (\<not> ok \<longrightarrow> (\<exists>chan. ag_channel a = Some chan \<and> generation chan = g \<and>
      \<not> closing chan \<and> MAX_CHANNEL_QUEUE < length (ch_pending chan) + length d)) \<or>
    ok \<and> (\<exists>chan. ag_channel a = Some chan \<and> generation chan = g \<and> \<not> closing chan \<and>
      length (ch_pending chan) + length d \<le> MAX_CHANNEL_QUEUE \<and>
      a' = a\<lparr>ag_channel := Some (chan\<lparr>ch_pending := ch_pending chan @ d\<rparr>)\<rparr>)"
  using assms by (auto simp: deliver_def split: option.splits if_splits)

lemma close_if_idle_eq:
  "close_if_idle now a = (case ag_channel a of
      Some chan \<Rightarrow> if idle_deadline chan \<le> now
        then (a\<lparr>ag_channel := None\<rparr>, if closing chan then None else Some (generation chan))
        else (a, None)
    | None \<Rightarrow> (a, None))"
  by (auto simp: close_if_idle_def agent_deadline_def agent_generation_def forget_def
      split: option.splits)

lemma queue_bounded_step:
  assumes "queue_bounded a"
  shows "queue_bounded (fst (agent_step ours op (a, ck)))"
proof (cases op)
  case (AgAccept serving)
  obtain a' ck' r where "agent_accept serving ours ck a = (a', ck', r)"
    by (cases "agent_accept serving ours ck a")
  then show ?thesis
    using AgAccept assms agent_accept_channel [of serving ours ck a a' ck' r]
    by (auto simp: queue_bounded_def split: accept_outcome.splits)
next
  case (AgRead n)
  obtain a' ck' r where "agent_read n ck a = (a', ck', r)" by (cases "agent_read n ck a")
  then show ?thesis
    using AgRead assms agent_read_channel [of n ck a a' ck' r]
    by (auto simp: queue_bounded_def split: option.splits if_splits)
next
  case (AgDeliver g d)
  obtain a' ok where "deliver g d a = (a', ok)" by (cases "deliver g d a")
  then show ?thesis
    using AgDeliver assms deliver_channel [of g d a a' ok] by (auto simp: queue_bounded_def)
next
  case AgFlush
  obtain a' ck' r where fl: "agent_flush ck a = (a', ck', r)" by (cases "agent_flush ck a")
  show ?thesis
  proof (cases "ag_channel a")
    case None
    then show ?thesis using AgFlush assms fl agent_flush_None by simp
  next
    case (Some chan)
    then show ?thesis
      using AgFlush assms fl agent_flush_Some [OF Some fl] by (fastforce simp: queue_bounded_def)
  qed
next
  case (AgClose g)
  obtain a' ck' where cc: "close_from_client g ck a = (a', ck')" by (cases "close_from_client g ck a")
  show ?thesis
  proof (cases "\<exists>chan. ag_channel a = Some chan \<and> generation chan = g")
    case False
    then show ?thesis using AgClose assms cc close_from_client_cases [OF cc] by auto
  next
    case True
    then obtain chan a1 ck1 r where chan: "ag_channel a = Some chan"
      and fl: "agent_flush ck (a\<lparr>ag_channel := Some (chan\<lparr>closing := True\<rparr>)\<rparr>) = (a1, ck1, r)"
      and a': "if r \<noteq> FlushOpen then a' = a1\<lparr>ag_channel := None\<rparr>
        else \<exists>chan1. ag_channel a1 = Some chan1 \<and>
          a' = a1\<lparr>ag_channel := Some (chan1\<lparr>idle_deadline :=
            min (idle_deadline chan1) (fst (clock_now ck1) + AGENT_ABANDON_GRACE)\<rparr>)\<rparr>"
      using close_from_client_cases [OF cc] by auto
    obtain chan1 where "ag_channel a1 = Some chan1" "length (ch_pending chan1) \<le> length (ch_pending chan)"
      by (rule agent_flush_Some [OF _ fl, of "chan\<lparr>closing := True\<rparr>"]) simp_all
    then show ?thesis
      using AgClose cc chan a' assms by (auto simp: queue_bounded_def split: if_splits)
  qed
next
  case (AgExpire now)
  then show ?thesis
    using assms by (auto simp: close_if_idle_eq queue_bounded_def split: option.splits)
qed (simp_all add: forget_def queue_bounded_def)

interpretation agent_run: preserved_step "agent_step ours" "\<lambda>s. queue_bounded (fst s)" for ours
proof
  show "queue_bounded (fst (agent_step ours op s))" if "queue_bounded (fst s)" for op s
    using queue_bounded_step [of "fst s" ours op "snd s"] that by simp
qed

lemma queue_bounded_bind: "agent_bind path bound = Ok a \<Longrightarrow> queue_bounded a"
  by (auto simp: agent_bind_def and_then_eq_Ok queue_bounded_def)

text \<open>
  Whatever the client, the local peer and the clock do, the queue of the served connection
  never exceeds its cap; a frame that would take it past the cap is refused whole, and that is
  the only reason a delivery is ever refused.
\<close>

theorem agent_queue_bounded:
  assumes "agent_bind path bound = Ok a0"
  shows "case fst (fold (agent_step ours) ops (a0, ck)) of a \<Rightarrow>
    (\<forall>chan. ag_channel a = Some chan \<longrightarrow> length (ch_pending chan) \<le> MAX_CHANNEL_QUEUE) \<and>
    (snd (deliver g d a) \<longleftrightarrow> \<not> (\<exists>chan. ag_channel a = Some chan \<and> generation chan = g \<and>
       \<not> closing chan \<and> MAX_CHANNEL_QUEUE < length (ch_pending chan) + length d))"
proof -
  have "queue_bounded (fst (fold (agent_step ours) ops (a0, ck)))"
    by (rule agent_run.run_inv) (simp add: queue_bounded_bind [OF assms])
  then show ?thesis by (auto simp: queue_bounded_def deliver_def split: option.splits)
qed

theorem agent_queue_bounded_witness:
  "case ag_channel (fst (fold (agent_step 1000)
      [AgAccept True, AgDeliver 0 [1, 2], AgFlush]
      (\<lparr>ag_listener = [AcOk \<lparr>p_dev = \<lparr>reads = [], writes = [WrOk 1], accepted = []\<rparr>,
          p_uid = Ok 1000, p_nonblock = True\<rparr>],
        ag_path = [47], ag_channel = None, next_generation = 0\<rparr>, (0, [])))) of
     None \<Rightarrow> True | Some chan \<Rightarrow> length (ch_pending chan) \<le> MAX_CHANNEL_QUEUE"
  using agent_queue_bounded [of "[47]"
      "Ok [AcOk \<lparr>p_dev = \<lparr>reads = [], writes = [WrOk 1], accepted = []\<rparr>,
          p_uid = Ok 1000, p_nonblock = True\<rparr>]" _ 1000
      "[AgAccept True, AgDeliver 0 [1, 2], AgFlush]" "(0, [])" 0 "[]"]
  by (auto simp: agent_bind_def split: option.split)

section \<open>The bytes of one connection\<close>

text \<open>The operations that leave generation \<open>g\<close> in its slot, and what a run of them queues for it.\<close>

fun keeps_slot :: "u32 \<Rightarrow> agent_op \<Rightarrow> bool" where
  "keeps_slot g (AgClose g') \<longleftrightarrow> g' \<noteq> g"
| "keeps_slot g (AgExpire _) \<longleftrightarrow> False"
| "keeps_slot g AgForget \<longleftrightarrow> False"
| "keeps_slot g _ \<longleftrightarrow> True"

fun kept :: "u32 \<Rightarrow> u32 \<Rightarrow> agent_op list \<Rightarrow> agent \<times> clock \<Rightarrow> bytes" where
  "kept ours g [] s = []"
| "kept ours g (op # ops) s =
     (case op of AgDeliver g' d \<Rightarrow> if g' = g \<and> snd (deliver g' d (fst s)) then d else [] | _ \<Rightarrow> [])
     @ kept ours g ops (agent_step ours op s)"

lemma channel_step:
  assumes "ag_channel a = Some chan" and "\<not> closing chan" and "keeps_slot (generation chan) op"
  obtains chan' where "ag_channel (fst (agent_step ours op (a, ck))) = Some chan'"
    and "generation chan' = generation chan" and "\<not> closing chan'"
    and "accepted (ch_stream chan') @ ch_pending chan' =
      accepted (ch_stream chan) @ ch_pending chan @ kept ours (generation chan) [op] (a, ck)"
proof (cases op)
  case (AgAccept serving)
  have "agent_accept serving ours ck a = (a, ck, AcceptIdle)"
    using assms(1) by (simp add: agent_accept_def is_serving_def)
  then show thesis using AgAccept assms by (intro that) auto
next
  case (AgRead n)
  obtain a' ck' r where "agent_read n ck a = (a', ck', r)" by (cases "agent_read n ck a")
  then show thesis
    using AgRead assms agent_read_channel [of n ck a a' ck' r]
    by (auto intro: that)
next
  case (AgDeliver g d)
  obtain a' ok where "deliver g d a = (a', ok)" by (cases "deliver g d a")
  then show thesis
    using AgDeliver assms deliver_channel [of g d a a' ok]
    by (cases "generation chan = g") (auto intro!: that simp: deliver_def split: if_splits)
next
  case AgFlush
  obtain a' ck' r where fl: "agent_flush ck a = (a', ck', r)" by (cases "agent_flush ck a")
  obtain chan' where "ag_channel a' = Some chan'" "generation chan' = generation chan"
    "closing chan' = closing chan"
    "accepted (ch_stream chan') @ ch_pending chan' = accepted (ch_stream chan) @ ch_pending chan"
    by (rule agent_flush_Some [OF assms(1) fl])
  then show thesis using AgFlush fl assms by (intro that [of chan']) auto
next
  case (AgClose g)
  then have "close_from_client g ck a = (a, ck)"
    using assms by (auto simp: close_from_client_def)
  then show thesis using AgClose assms by (intro that) auto
qed (use assms in auto)



section \<open>Giving the slot back\<close>

text \<open>
  A client's close frees the slot at once when nothing is left to hand on, and otherwise
  leaves a closing channel with a queue, from which nothing is read, due within the abandon
  grace of the moment the close returned; and when that deadline passes the slot is freed and
  the client is owed nothing.
\<close>

theorem client_close_is_bounded:
  assumes "ag_channel a = Some chan" and "close_from_client (generation chan) ck a = (a', ck')"
  shows "case ag_channel a' of
      None \<Rightarrow> \<not> is_serving a'
    | Some chan' \<Rightarrow> closing chan' \<and> generation chan' = generation chan \<and> ch_pending chan' \<noteq> [] \<and>
        agent_read n ck' a' = (a', ck', WouldBlock) \<and>
        idle_deadline chan' \<le> fst ck' + AGENT_ABANDON_GRACE \<and>
        close_if_idle (max now (idle_deadline chan')) a' = (a'\<lparr>ag_channel := None\<rparr>, None)"
proof -
  let ?a = "a\<lparr>ag_channel := Some (chan\<lparr>closing := True\<rparr>)\<rparr>"
  obtain a1 ck1 r where fl: "agent_flush ck ?a = (a1, ck1, r)" by (cases "agent_flush ck ?a")
  obtain chan1 where c1: "ag_channel a1 = Some chan1" "generation chan1 = generation chan"
    "closing chan1" "r = FlushOpen \<Longrightarrow> ch_pending chan1 \<noteq> []"
    by (rule agent_flush_Some [OF _ fl, of "chan\<lparr>closing := True\<rparr>"]) simp_all
  obtain t ck2 where now: "clock_now ck1 = (t, ck2)" by (cases "clock_now ck1")
  show ?thesis
  proof (cases "r = FlushOpen")
    case False
    then have "a' = a1\<lparr>ag_channel := None\<rparr>"
      using assms fl by (auto simp: close_from_client_def forget_def Let_def)
    then show ?thesis by (simp add: is_serving_def)
  next
    case True
    then have "a' = a1\<lparr>ag_channel := Some (chan1\<lparr>idle_deadline :=
        min (idle_deadline chan1) (t + AGENT_ABANDON_GRACE)\<rparr>)\<rparr>" and "ck' = ck2"
      using assms fl c1 now by (auto simp: close_from_client_def Let_def)
    then show ?thesis
      using True c1 clock_now_mono [OF now]
      by (auto simp: agent_read_def close_if_idle_eq)
  qed
qed

theorem client_close_is_bounded_witness:
  "idle_deadline \<lparr>generation = 0, ch_stream = \<lparr>reads = [], writes = [], accepted = []\<rparr>,
     ch_pending = [5], closing = True, idle_deadline = secs 8\<rparr> \<le> secs 7 + AGENT_ABANDON_GRACE"
  using client_close_is_bounded
    [of "\<lparr>ag_listener = [], ag_path = [], ag_channel = Some \<lparr>generation = 0,
           ch_stream = \<lparr>reads = [], writes = [], accepted = []\<rparr>, ch_pending = [5],
           closing = False, idle_deadline = secs 60\<rparr>, next_generation = 1\<rparr>"
        "\<lparr>generation = 0, ch_stream = \<lparr>reads = [], writes = [], accepted = []\<rparr>,
           ch_pending = [5], closing = False, idle_deadline = secs 60\<rparr>"
        "(secs 7, [])" _ "(secs 7, [])" 1 0]
  by (simp add: close_from_client_def agent_flush_def drain_to_def secs_def AGENT_ABANDON_GRACE_def)

text \<open>
  A closing channel whose peer takes even one byte is given a whole idle timeout again: the
  deadline after a flush is a minute past the clock whenever anything moved, closing or not, so
  the abandon grace bounds only a peer that takes nothing.
\<close>

theorem progress_restarts_the_minute:
  assumes "ag_channel a = Some chan" and "agent_flush ck a = (a', ck', r)"
  shows "\<exists>chan'. ag_channel a' = Some chan' \<and> closing chan' = closing chan \<and>
    idle_deadline chan' = (if length (ch_pending chan') < length (ch_pending chan)
      then fst (clock_now ck) + AGENT_IDLE_TIMEOUT else idle_deadline chan)"
proof -
  obtain chan' where c: "ag_channel a' = Some chan'" "closing chan' = closing chan"
    "length (ch_pending chan') \<le> length (ch_pending chan)"
    "idle_deadline chan' = (if length (ch_pending chan') \<noteq> length (ch_pending chan)
      then fst (clock_now ck) + AGENT_IDLE_TIMEOUT else idle_deadline chan)"
    by (rule agent_flush_Some [OF assms])
  then show ?thesis by auto
qed

theorem progress_restarts_the_minute_witness:
  "\<exists>chan'. ag_channel (fst (agent_flush (secs 7, [])
      \<lparr>ag_listener = [], ag_path = [], ag_channel = Some \<lparr>generation = 0,
         ch_stream = \<lparr>reads = [], writes = [WrOk 1], accepted = []\<rparr>, ch_pending = [5, 6],
         closing = True, idle_deadline = secs 8\<rparr>, next_generation = 1\<rparr>)) = Some chan' \<and>
    closing chan' \<and> idle_deadline chan' = secs 67"
proof -
  let ?chan = "\<lparr>generation = 0, ch_stream = \<lparr>reads = [], writes = [WrOk 1], accepted = []\<rparr>,
      ch_pending = [5, 6], closing = True, idle_deadline = secs 8\<rparr>"
  let ?a = "\<lparr>ag_listener = [], ag_path = [], ag_channel = Some ?chan, next_generation = 1\<rparr>"
  obtain a' ck' r where fl: "agent_flush (secs 7, []) ?a = (a', ck', r)"
    by (cases "agent_flush (secs 7, []) ?a")
  obtain chan' where "ag_channel a' = Some chan'" "closing chan'" and
    dl: "idle_deadline chan' = (if length (ch_pending chan') < 2
      then secs 7 + AGENT_IDLE_TIMEOUT else secs 8)"
    using progress_restarts_the_minute [OF _ fl, of ?chan] by auto
  moreover have "length (ch_pending chan') < 2"
    using fl calculation(1)
    by (auto simp: agent_flush_def drain_to_def touch_eq)
  ultimately show ?thesis using fl by (simp add: AGENT_IDLE_TIMEOUT_def secs_def)
qed

end
