(* ===== verification/Daemon_Props.thy ===== *)
theory Daemon_Props
  imports Daemon_Untouched Agent_Props
begin

text \<open>
  What every pass of the daemon keeps, and what each of its operations does: bounds on all it
  buffers, input applied exactly once, output contiguous and complete before an \<open>Exit\<close>, who
  may have the session, and deadlines that are always waited for.
\<close>

section \<open>The invariant\<close>

definition INPUT_BOUND :: nat where
  "INPUT_BOUND = MAX_PENDING_INPUT + unat MAX_PAYLOAD"

definition client_ok :: "ring \<Rightarrow> nat option \<Rightarrow> attached \<Rightarrow> bool" where
  "client_ok r closed at \<longleftrightarrow> conn_inv (at_conn at) \<and>
     (terminal_end_sent at \<longrightarrow> closed \<noteq> None \<and> ring_end r \<le> sent_through at)"

definition daemon_inv :: "daemon \<Rightarrow> bool" where
  "daemon_inv d \<longleftrightarrow>
     capacity (d_ring d) \<le> MAX_RING_CAPACITY \<and>
     length (ring_buf (d_ring d)) \<le> capacity (d_ring d) \<and>
     pred_option (client_ok (d_ring d) (d_terminal_closed_at d)) (d_client d) \<and>
     pred_option (\<lambda>(c, _). conn_inv c) (d_pending d) \<and>
     pred_option queue_bounded (d_agent d) \<and>
     length (d_pending_input d) \<le> INPUT_BOUND"

lemma conn_inv_send [simp]: "conn_inv c \<Longrightarrow> conn_inv (fst (conn_send f c))"
  using conn_step_inv [of c "DoSend f"] by simp

lemma conn_inv_flush [simp]: "conn_inv c \<Longrightarrow> conn_inv (fst (flush_some c))"
  using conn_step_inv [of c DoFlush] by simp

lemma conn_inv_fill [simp]: "conn_inv c \<Longrightarrow> conn_inv (fst (fill n c))"
  using conn_step_inv [of c "DoFill n"] by simp

lemma conn_inv_take [simp]: "conn_inv c \<Longrightarrow> conn_inv (fst (take_frame c))"
  using conn_step_inv [of c DoTake] by simp

named_theorems kept \<open>operations of the daemon that keep its invariant\<close>

lemma kept_now [kept]: "daemon_inv d \<Longrightarrow> daemon_inv (snd (d_now d))"
  by (simp add: d_now_def daemon_inv_def split: prod.split)

lemma kept_fields [kept]:
  "daemon_inv d \<Longrightarrow> daemon_inv (d\<lparr>d_clock := ck\<rparr>)"
  "daemon_inv d \<Longrightarrow> daemon_inv (d\<lparr>d_last_detach := t\<rparr>)"
  "daemon_inv d \<Longrightarrow> daemon_inv (d\<lparr>d_stop := why\<rparr>)"
  "daemon_inv d \<Longrightarrow> daemon_inv (d\<lparr>d_pty := p\<rparr>)"
  "daemon_inv d \<Longrightarrow> daemon_inv (d\<lparr>d_win := w\<rparr>)"
  "daemon_inv d \<Longrightarrow> daemon_inv (d\<lparr>d_win := w, d_applied_win := aw\<rparr>)"
  "daemon_inv d \<Longrightarrow> daemon_inv (d\<lparr>d_applied_win := aw\<rparr>)"
  "daemon_inv d \<Longrightarrow> daemon_inv (d\<lparr>d_pty := p, d_applied_win := aw\<rparr>)"
  "daemon_inv d \<Longrightarrow> daemon_inv (d\<lparr>d_outcome := r\<rparr>)"
  "daemon_inv d \<Longrightarrow> daemon_inv (d\<lparr>d_child_signalled := b\<rparr>)"
  "daemon_inv d \<Longrightarrow> daemon_inv (d\<lparr>d_child_signalled := b, d_child_pipe := pipe\<rparr>)"
  "daemon_inv d \<Longrightarrow> daemon_inv (d\<lparr>d_listener := l\<rparr>)"
  "daemon_inv d \<Longrightarrow> daemon_inv (d\<lparr>d_accept_retry := at\<rparr>)"
  "daemon_inv d \<Longrightarrow> daemon_inv (d\<lparr>d_agent_accept_retry := at\<rparr>)"
  "daemon_inv d \<Longrightarrow> daemon_inv (d\<lparr>d_pending := None\<rparr>)"
  "daemon_inv d \<Longrightarrow> daemon_inv (d\<lparr>d_pending := None, d_clock := ck, d_departed := cs\<rparr>)"
  "daemon_inv d \<Longrightarrow> daemon_inv (d\<lparr>d_client := None, d_departed := cs\<rparr>)"
  "daemon_inv d \<Longrightarrow> daemon_inv (d\<lparr>d_client := None, d_clock := ck, d_departed := cs\<rparr>)"
  "daemon_inv d \<Longrightarrow> daemon_inv (d\<lparr>d_pending_input := []\<rparr>)"
  "daemon_inv d \<Longrightarrow> daemon_inv (d\<lparr>d_in_applied := x\<rparr>)"
  "daemon_inv d \<Longrightarrow> conn_inv c \<Longrightarrow> daemon_inv (d\<lparr>d_pending := Some (c, t)\<rparr>)"
  "daemon_inv d \<Longrightarrow> queue_bounded a \<Longrightarrow> daemon_inv (d\<lparr>d_agent := Some a\<rparr>)"
  "daemon_inv d \<Longrightarrow> queue_bounded a \<Longrightarrow> daemon_inv (d\<lparr>d_agent := Some a, d_clock := ck\<rparr>)"
  by (simp_all add: daemon_inv_def)

lemma daemon_inv_client: "daemon_inv d \<Longrightarrow> d_client d = Some at \<Longrightarrow> conn_inv (at_conn at)"
  by (simp add: daemon_inv_def client_ok_def)

lemma kept_conn:
  "daemon_inv d \<Longrightarrow> d_client d = Some at \<Longrightarrow> conn_inv c \<Longrightarrow>
     daemon_inv (d\<lparr>d_client := Some (at\<lparr>at_conn := c\<rparr>)\<rparr>)"
  by (simp add: daemon_inv_def client_ok_def)

lemma kept_tell [kept]: "daemon_inv d \<Longrightarrow> daemon_inv (tell_client f d)"
  by (auto simp: tell_client_def kept_conn daemon_inv_client split: option.split)

lemma queue_bounded_close:
  "queue_bounded a \<Longrightarrow> close_from_client g ck a = (a', ck') \<Longrightarrow> queue_bounded a'"
  using queue_bounded_step [of a 0 "AgClose g" ck] by simp

lemma queue_bounded_forget: "queue_bounded (fst (forget a))"
  by (simp add: forget_def queue_bounded_def)

lemma daemon_inv_agent: "daemon_inv d \<Longrightarrow> d_agent d = Some a \<Longrightarrow> queue_bounded a"
  by (simp add: daemon_inv_def)

lemma kept_on_detached [kept]:
  assumes "daemon_inv d"
  shows "daemon_inv (on_detached d)"
proof -
  obtain now d1 where now: "d_now d = (now, d1)" by (cases "d_now d")
  have d1: "daemon_inv (d1\<lparr>d_last_detach := now\<rparr>)"
    using kept_now [OF assms] now by (simp add: kept_fields)
  then have "pred_option queue_bounded (d_agent d1)" by (simp add: daemon_inv_def)
  then show ?thesis
    using d1 now
    by (auto simp: on_detached_def Let_def kept_fields queue_bounded_close split: option.split prod.split)
qed

lemma kept_drop [kept]: "daemon_inv d \<Longrightarrow> daemon_inv (drop_client d)"
  by (auto simp: drop_client_def kept split: option.split)

lemma kept_reject [kept]: "daemon_inv d \<Longrightarrow> daemon_inv (reject code m d)"
  by (simp add: reject_def kept)

lemma kept_evict [kept]: "daemon_inv d \<Longrightarrow> daemon_inv (evict d)"
  by (auto simp: evict_def kept split: option.split prod.split)

lemma kept_close_agent [kept]: "daemon_inv d \<Longrightarrow> daemon_inv (close_agent_channel d)"
  by (auto simp: close_agent_channel_def forget_def Let_def queue_bounded_def kept split: option.split)

section \<open>The invariant through the client's frames\<close>

text \<open>Input is only taken below the cap, and at most a frame's worth at a time.\<close>

lemma kept_on_input:
  assumes "daemon_inv d" and "\<not> input_is_saturated d" and "length data \<le> unat MAX_PAYLOAD"
  shows "daemon_inv (on_input offset data d)"
proof -
  have small: "length (d_pending_input d @ drop n data) \<le> INPUT_BOUND" for n
    using assms(2,3) by (simp add: input_is_saturated_def INPUT_BOUND_def)
  have "daemon_inv (d\<lparr>d_pending_input := d_pending_input d @ drop n data\<rparr>)" for n
    using assms(1) small [of n] by (simp add: daemon_inv_def)
  then have "daemon_inv (d\<lparr>d_pending_input := d_pending_input d @ drop n data, d_in_applied := x\<rparr>)"
    for n x using kept_fields(20) [of "d\<lparr>d_pending_input := d_pending_input d @ drop n data\<rparr>" x] by simp
  then show ?thesis
    using assms(1) by (auto simp: on_input_def Let_def kept)
qed

lemma frame_decode_data: "frame_decode t payload = Ok (Input offset data) \<Longrightarrow> length data \<le> unat MAX_PAYLOAD"
proof -
  assume *: "frame_decode t payload = Ok (Input offset data)"
  have dec: "decode_fields t payload = Ok (Input offset data, [])" and "length payload \<le> 262144"
    using frame_decode_Ok [OF *] by auto
  moreover obtain tlen n where "payload = encode_payload (Input offset data) tlen"
    using decode_fields_Ok [OF dec] by auto
  ultimately show ?thesis by simp
qed

lemma kept_handle:
  assumes "daemon_inv d" and "\<not> input_is_saturated d" and "frame_decode t payload = Ok f"
  shows "daemon_inv (handle_frame f d)"
proof (cases f)
  case (Input offset data)
  then show ?thesis using assms frame_decode_data by (simp add: kept_on_input)
next
  case (AgentData g data)
  show ?thesis
  proof (cases "d_agent d")
    case (Some a)
    obtain a' ok where dl: "deliver g data a = (a', ok)" by (cases "deliver g data a")
    have "queue_bounded a'"
      using queue_bounded_step [OF daemon_inv_agent [OF assms(1) Some], of 0 "AgDeliver g data"] dl
      by simp
    then show ?thesis using AgentData Some dl assms(1) by (simp add: kept Let_def)
  qed (use AgentData assms(1) in simp)
next
  case (AgentClose g)
  then show ?thesis
    using assms(1) daemon_inv_agent [OF assms(1)]
    by (auto simp: kept queue_bounded_close split: option.split prod.split)
qed (use assms(1) in \<open>simp_all add: kept\<close>)

lemma kept_read_frames: "daemon_inv d \<Longrightarrow> daemon_inv (snd (read_frames d))"
proof (induction d rule: read_frames.induct)
  case (1 d)
  show ?case
  proof (cases "input_is_saturated d")
    case True
    then show ?thesis using "1.prems" by (subst read_frames.simps) simp
  next
    case False
    show ?thesis
    proof (cases "d_client d")
      case None
      then show ?thesis using "1.prems" False by (subst read_frames.simps) simp
    next
      case (Some at)
      obtain c r where tf: "take_frame (at_conn at) = (c, r)" by (cases "take_frame (at_conn at)")
      let ?d = "d\<lparr>d_client := Some (at\<lparr>at_conn := c\<rparr>)\<rparr>"
      have "conn_inv c" using conn_inv_take [OF daemon_inv_client [OF "1.prems" Some]] tf by simp
      then have inv: "daemon_inv ?d" by (rule kept_conn [OF "1.prems" Some])
      have sat: "\<not> input_is_saturated ?d" using False by (simp add: input_is_saturated_def)
      show ?thesis
      proof (cases "\<exists>t payload f. r = Ok (Some (t, payload)) \<and> frame_decode t payload = Ok f")
        case True
        then obtain t payload f where r: "r = Ok (Some (t, payload))" "frame_decode t payload = Ok f"
          by blast
        have "daemon_inv (handle_frame f ?d)" using kept_handle [OF inv sat r(2)] .
        then have "daemon_inv (snd (read_frames (handle_frame f ?d)))"
          using "1.IH" [OF False Some tf [symmetric] refl r(1) refl refl r(2)] by simp
        then show ?thesis using False Some tf r by (subst read_frames.simps) simp
      next
        case no: False
        then show ?thesis
          using False Some tf inv
          by (subst read_frames.simps) (auto simp: kept Let_def split: res.split option.split)
      qed
    qed
  qed
qed

lemma kept_read_client [kept]:
  assumes "daemon_inv d"
  shows "daemon_inv (read_client d)"
proof (cases "d_client d")
  case None
  then show ?thesis using assms by (simp add: read_client_def)
next
  case (Some at)
  define p where "p = (if eof (at_conn at) then (at_conn at, Ok ()) else fill READ_BUF (at_conn at))"
  obtain c r where p: "p = (c, r)" by (cases p)
  have ci: "conn_inv (at_conn at)" by (rule daemon_inv_client [OF assms Some])
  have "c = at_conn at \<or> c = fst (fill READ_BUF (at_conn at))"
    using p by (auto simp: p_def split: if_splits)
  then have "conn_inv c" using ci by auto
  then have inv: "daemon_inv (d\<lparr>d_client := Some (at\<lparr>at_conn := c\<rparr>)\<rparr>)"
    by (rule kept_conn [OF assms Some])
  obtain broke d2 where rf: "read_frames (d\<lparr>d_client := Some (at\<lparr>at_conn := c\<rparr>)\<rparr>) = (broke, d2)"
    by (cases "read_frames (d\<lparr>d_client := Some (at\<lparr>at_conn := c\<rparr>)\<rparr>)")
  then have "daemon_inv d2" using kept_read_frames [OF inv] by simp
  then show ?thesis
    using Some p rf inv
    by (auto simp: read_client_def p_def [symmetric] kept Let_def split: option.split)
qed

section \<open>The invariant through a pass\<close>

lemma kept_apply_win [kept]: "daemon_inv d \<Longrightarrow> daemon_inv (apply_win d)"
  by (simp add: apply_win_def kept split: option.split prod.split)

lemma kept_terminal_closed [kept]: "daemon_inv d \<Longrightarrow> daemon_inv (on_terminal_closed d)"
proof -
  assume d: "daemon_inv d"
  obtain now d1 where now: "d_now d = (now, d1)" by (cases "d_now d")
  have "daemon_inv d1" using kept_now [OF d] now by simp
  moreover have "d_terminal_closed_at d1 = d_terminal_closed_at d" "d_ring d1 = d_ring d"
    using now by (auto simp: d_now_def split: prod.splits)
  ultimately have "daemon_inv (d1\<lparr>d_terminal_closed_at := Some now, d_pending_input := []\<rparr>)"
    by (auto simp: daemon_inv_def client_ok_def option.pred_True elim!: option.pred_mono_strong)
  then show ?thesis using d now by (simp add: on_terminal_closed_def kept)
qed

lemma ring_push_capacity [simp]: "capacity (ring_push data r) = capacity r"
  by (simp add: ring_push_def Let_def)

lemma ring_push_bounded:
  assumes "length (ring_buf r) \<le> capacity r" and "capacity r \<le> MAX_RING_CAPACITY"
    and "length data \<le> READ_BUF"
  shows "length (ring_buf (ring_push data r)) \<le> capacity r"
proof -
  have "length (ring_buf r) + length data < 2 ^ 64"
    using assms by (simp add: MAX_RING_CAPACITY_def READ_BUF_def)
  then have "usize_sat_add (length (ring_buf r)) (length data) = length (ring_buf r) + length data"
    by (simp add: usize_sat_add_def)
  then show ?thesis using assms(1) by (auto simp: ring_push_def Let_def)
qed

text \<open>The ring only moves while the terminal is open; a read of a closed one is never asked for.\<close>

lemma kept_read_pty:
  assumes "daemon_inv d" and "d_terminal_closed_at d = None"
  shows "daemon_inv (read_pty d)"
proof (cases "d_pty d")
  case None
  then show ?thesis using assms by (simp add: read_pty_def)
next
  case (Some p)
  obtain r m where rd: "read_or_eof READ_BUF (master p) = (r, m)"
    by (cases "read_or_eof READ_BUF (master p)")
  let ?d = "d\<lparr>d_pty := Some (p\<lparr>master := m\<rparr>)\<rparr>"
  have inv: "daemon_inv ?d" using assms(1) by (rule kept_fields(4))
  show ?thesis
  proof (cases r)
    case (Data bs)
    have "length bs \<le> READ_BUF" using read_or_eof_data [OF rd [unfolded Data]] by simp
    then have "daemon_inv (?d\<lparr>d_ring := ring_push bs (d_ring d)\<rparr>)"
      using inv assms ring_push_bounded [of "d_ring d" bs]
      by (auto simp: daemon_inv_def client_ok_def elim!: option.pred_mono_strong)
    then show ?thesis using Some rd Data by (simp add: read_pty_def)
  qed (use Some rd inv in \<open>simp_all add: read_pty_def kept Let_def\<close>)
qed

lemma kept_write_pty [kept]: "daemon_inv d \<Longrightarrow> daemon_inv (write_pty d)"
proof -
  assume d: "daemon_inv d"
  have "daemon_inv (d\<lparr>d_pty := p, d_pending_input := q\<rparr>)"
    if "length q \<le> length (d_pending_input d)" for p q
    using d that by (simp add: daemon_inv_def)
  then show ?thesis
    using d by (auto simp: write_pty_def dest: drain_to_shape(2) split: option.split prod.split)
qed

lemma kept_observe: "daemon_inv d \<Longrightarrow> daemon_inv (fst (observe_child d))"
  by (simp add: observe_child_def kept Let_def split: option.split prod.split res.split)

lemma kept_collect [kept]:
  assumes "daemon_inv d"
  shows "daemon_inv (collect_outcome d)"
proof -
  obtain d1 found where ob: "observe_child d = (d1, found)" by (cases "observe_child d")
  let ?d = "d1\<lparr>d_child_signalled := False\<rparr>"
  obtain now d2 where now: "d_now ?d = (now, d2)" by (cases "d_now ?d")
  have d1: "daemon_inv ?d" using kept_observe [OF assms] ob by (simp add: kept)
  then have "daemon_inv d2" using kept_now [OF d1] now by simp
  then show ?thesis
    using ob now d1 by (simp add: collect_outcome_def Let_def kept split: option.split)
qed

lemma kept_repaint [kept]:
  assumes "daemon_inv d"
  shows "daemon_inv (snd (repaint d))"
proof -
  have "daemon_inv (d\<lparr>d_pending_input := d_pending_input d @ [0x0c]\<rparr>)" if "\<not> input_is_saturated d"
    using assms that by (simp add: daemon_inv_def input_is_saturated_def INPUT_BOUND_def)
  then show ?thesis
    using assms by (auto simp: repaint_def Let_def kept split: option.split prod.split)
qed

lemma send_parts_keeps:
  "conn_inv c \<Longrightarrow> conn_inv (fst (send_parts offset parts c))"
proof (induction offset parts c rule: send_parts.induct)
  case (2 offset part parts c)
  obtain c1 sent where cs: "conn_send (Output offset part) c = (c1, sent)"
    by (cases "conn_send (Output offset part) c")
  then have "conn_inv c1" using conn_inv_send [OF "2.prems", of "Output offset part"] by simp
  then show ?case
    using "2.prems" "2.IH" [OF _ cs [symmetric]] cs by (subst send_parts.simps) auto
qed simp

lemma conn_inv_send_output [simp]: "conn_inv c \<Longrightarrow> conn_inv (fst (send_output offset data c))"
  by (simp add: send_output_def send_parts_keeps)

lemma pump_parts_keeps: "conn_inv (fst st) \<Longrightarrow> conn_inv (fst (pump_parts parts st))"
proof (induction parts st rule: pump_parts.induct)
  case (2 part parts c through)
  obtain c1 t1 where so: "send_output through part c = (c1, t1)" by (cases "send_output through part c")
  have "conn_inv c1" using conn_inv_send_output [of c through part] "2.prems" so by simp
  then show ?case
    using "2.prems" "2.IH" so by (auto simp: Let_def)
qed simp

lemma pump_ring_ok:
  assumes "client_ok r closed at"
  shows "client_ok r closed (pump_ring k r at)"
proof (cases "queued (at_conn at) < MAX_PENDING_WRITE \<and> sent_through at < ring_end r")
  case True
  then have nt: "\<not> terminal_end_sent at" using assms by (auto simp: client_ok_def)
  define at1 where "at1 = (if sent_through at < base r
      then at\<lparr>at_conn := fst (conn_send (Gap (base r)) (at_conn at)), sent_through := base r,
              repaint_due := True\<rparr> else at)"
  have "conn_inv (at_conn at1)" using assms by (simp add: at1_def client_ok_def)
  moreover obtain c t where "pump_parts (slices_from k r (sent_through at1)) (at_conn at1, sent_through at1) = (c, t)"
    by (cases "pump_parts (slices_from k r (sent_through at1)) (at_conn at1, sent_through at1)")
  moreover have "\<not> terminal_end_sent at1" using nt by (simp add: at1_def)
  moreover have "conn_inv c"
    using pump_parts_keeps [of "(at_conn at1, sent_through at1)" "slices_from k r (sent_through at1)"]
      calculation(1,2) by simp
  moreover have "pump_ring k r at = at1\<lparr>at_conn := c, sent_through := t\<rparr>"
    using True calculation(2) by (simp add: pump_ring_def at1_def Let_def)
  ultimately show ?thesis by (simp add: client_ok_def)
next
  case False
  then show ?thesis using assms by (auto simp: pump_ring_def)
qed

lemma next_split_simps [simp]:
  "d_ring (snd (next_split d)) = d_ring d" "d_terminal_closed_at (snd (next_split d)) = d_terminal_closed_at d"
  "d_outcome (snd (next_split d)) = d_outcome d" "d_client (snd (next_split d)) = d_client d"
  by (simp_all add: next_split_def split: list.split)

lemma d_now_simps [simp]:
  "d_ring (snd (d_now d)) = d_ring d" "d_terminal_closed_at (snd (d_now d)) = d_terminal_closed_at d"
  "d_client (snd (d_now d)) = d_client d" "d_pending (snd (d_now d)) = d_pending d"
  "d_agent (snd (d_now d)) = d_agent d" "d_pending_input (snd (d_now d)) = d_pending_input d"
  by (simp_all add: d_now_def split: prod.split)

lemma d_now_same:
  assumes "d_now d = (now, d')"
  shows "d_ring d' = d_ring d" "d_terminal_closed_at d' = d_terminal_closed_at d"
    "d_client d' = d_client d" "d_pending d' = d_pending d"
    "d_agent d' = d_agent d" "d_pending_input d' = d_pending_input d"
  using d_now_simps [of d] assms by simp_all

lemma kept_client:
  "daemon_inv d \<Longrightarrow> client_ok (d_ring d) (d_terminal_closed_at d) at \<Longrightarrow>
     daemon_inv (d\<lparr>d_client := Some at\<rparr>)"
  by (simp add: daemon_inv_def)

lemma kept_settle [kept]: "daemon_inv d \<Longrightarrow> daemon_inv (settle_repaint d)"
proof -
  assume d: "daemon_inv d"
  obtain fin d1 where rp: "repaint d = (fin, d1)" by (cases "repaint d")
  have d1: "daemon_inv d1" using kept_repaint [OF d] rp by simp
  then have "daemon_inv (d1\<lparr>d_client := Some (at\<lparr>repaint_due := False\<rparr>)\<rparr>)"
    if "d_client d1 = Some at" for at
    using that by (simp add: daemon_inv_def client_ok_def)
  then show ?thesis
    using d d1 rp by (simp add: settle_repaint_def split: option.split)
qed

lemma kept_pump [kept]:
  assumes "daemon_inv d"
  shows "daemon_inv (pump_output d)"
proof (cases "d_client d")
  case None
  then show ?thesis using assms by (simp add: pump_output_def)
next
  case (Some at)
  obtain k d1 where sp: "next_split d = (k, d1)" by (cases "next_split d")
  have d1: "daemon_inv d1"
    using assms sp by (auto simp: next_split_def daemon_inv_def split: list.splits)
  have "client_ok (d_ring d1) (d_terminal_closed_at d1) at"
    using assms Some next_split_simps [of d] sp by (simp add: daemon_inv_def)
  then have at1: "client_ok (d_ring d1) (d_terminal_closed_at d1) (pump_ring k (d_ring d1) at)"
    by (rule pump_ring_ok)
  obtain at2 d2 where se: "send_exit d1 (pump_ring k (d_ring d1) at) = (at2, d2)"
    by (cases "send_exit d1 (pump_ring k (d_ring d1) at)")
  have "daemon_inv d2 \<and> d_ring d2 = d_ring d1 \<and> d_terminal_closed_at d2 = d_terminal_closed_at d1"
    using se d1 kept_now [OF d1]
    by (auto simp: send_exit_def dest: d_now_same split: option.splits prod.splits)
  moreover have "client_ok (d_ring d1) (d_terminal_closed_at d1) at2"
    using se at1
    by (auto simp: send_exit_def exit_due_def client_ok_def
        split: option.splits prod.splits if_splits)
  ultimately have "daemon_inv (d2\<lparr>d_client := Some at2\<rparr>)" by (intro kept_client) simp_all
  then show ?thesis using Some sp se by (simp add: pump_output_def kept)
qed

lemma kept_write_client [kept]: "daemon_inv d \<Longrightarrow> daemon_inv (write_client d)"
proof -
  assume d: "daemon_inv d"
  have "daemon_inv (d\<lparr>d_client := Some (at\<lparr>at_conn := fst (flush_some (at_conn at))\<rparr>)\<rparr>)"
    if "d_client d = Some at" for at
    using d that daemon_inv_client [OF d that] by (intro kept_conn) simp_all
  then show ?thesis
    using d by (auto simp: write_client_def Let_def kept split: option.split prod.split)
qed

lemma queue_bounded_accept:
  "queue_bounded a \<Longrightarrow> agent_accept serving ours ck a = (a', ck', r) \<Longrightarrow> queue_bounded a'"
  using queue_bounded_step [of a ours "AgAccept serving" ck] by simp

lemma queue_bounded_read:
  "queue_bounded a \<Longrightarrow> agent_read n ck a = (a', ck', r) \<Longrightarrow> queue_bounded a'"
  using queue_bounded_step [of a 0 "AgRead n" ck] by simp

lemma queue_bounded_flush:
  "queue_bounded a \<Longrightarrow> agent_flush ck a = (a', ck', r) \<Longrightarrow> queue_bounded a'"
  using queue_bounded_step [of a 0 "AgFlush" ck] by simp

lemma kept_accept_agent [kept]:
  assumes "daemon_inv d"
  shows "daemon_inv (accept_agent d)"
proof (cases "d_agent d")
  case None
  then show ?thesis using assms by (simp add: accept_agent_def)
next
  case (Some a)
  obtain a' ck r where ac: "agent_accept (d_client d \<noteq> None) (d_ours d) (d_clock d) a = (a', ck, r)"
    by (cases "agent_accept (d_client d \<noteq> None) (d_ours d) (d_clock d) a")
  let ?d = "d\<lparr>d_agent := Some a', d_clock := ck\<rparr>"
  have "queue_bounded a'" using queue_bounded_accept [OF daemon_inv_agent [OF assms Some] ac] .
  then have "daemon_inv ?d" using assms by (simp add: kept)
  moreover obtain now d2 where "d_now ?d = (now, d2)" by (cases "d_now ?d")
  ultimately show ?thesis
    using Some ac kept_now [of ?d]
    by (simp add: accept_agent_def Let_def kept split: accept_outcome.split)
qed

lemma kept_read_agent:
  assumes "daemon_inv d"
  shows "daemon_inv (read_agent_channel d)"
proof (cases "d_agent d")
  case None
  then show ?thesis using assms by (simp add: read_agent_channel_def)
next
  case (Some a)
  obtain a' ck r where rd: "agent_read READ_BUF (d_clock d) a = (a', ck, r)"
    by (cases "agent_read READ_BUF (d_clock d) a")
  let ?d = "d\<lparr>d_agent := Some a', d_clock := ck\<rparr>"
  have "queue_bounded a'" using queue_bounded_read [OF daemon_inv_agent [OF assms Some] rd] .
  then have inv: "daemon_inv ?d" using assms by (simp add: kept)
  have "daemon_inv (?d\<lparr>d_client := Some (at\<lparr>at_conn := send_agent_data g data (at_conn at)\<rparr>)\<rparr>)"
    if "d_client d = Some at" for at g data
    by (rule kept_conn [OF inv]) (use that daemon_inv_client [OF assms that] in
      \<open>simp_all add: send_agent_data_def\<close>)
  then show ?thesis
    using Some rd inv
    by (simp add: read_agent_channel_def Let_def kept split: read_outcome.split option.split)
qed

lemma kept_service_agent [kept]:
  assumes "daemon_inv d"
  shows "daemon_inv (service_agent_channel events d)"
proof (cases "d_agent d")
  case None
  then show ?thesis using assms by (simp add: service_agent_channel_def)
next
  case (Some a)
  define p where "p = (if POUT \<in> events then agent_flush (d_clock d) a else (a, d_clock d, FlushOpen))"
  obtain a' ck r where p: "p = (a', ck, r)" by (cases p)
  have "queue_bounded a'"
    using p daemon_inv_agent [OF assms Some] queue_bounded_flush by (auto simp: p_def split: if_splits)
  then have inv: "daemon_inv (d\<lparr>d_agent := Some a', d_clock := ck\<rparr>)" using assms by (simp add: kept)
  have "daemon_inv (d\<lparr>d_clock := ck, d_agent := Some (fst (forget a'))\<rparr>)"
    using assms queue_bounded_forget kept_fields(1) [OF assms] by (intro kept_fields(22)) simp_all
  then show ?thesis
    using Some p inv
    by (simp add: service_agent_channel_def p_def [symmetric] Let_def kept kept_read_agent
        split: flush_outcome.split)
qed

section \<open>The invariant through arrivals\<close>

lemma kept_accept [kept]:
  assumes "daemon_inv d"
  shows "daemon_inv (accept d)"
proof -
  obtain r s where as: "accept_script (d_listener d) = (r, s)" by (cases "accept_script (d_listener d)")
  let ?d = "d\<lparr>d_listener := s\<rparr>"
  obtain now d1 where now: "d_now ?d = (now, d1)" by (cases "d_now ?d")
  have "daemon_inv ?d" using assms by (simp add: kept)
  moreover have "daemon_inv d1" using kept_now [OF calculation] now by simp
  ultimately show ?thesis
    using as now by (simp add: accept_def Let_def kept conn_inv_new split: res.split)
qed

lemma kept_reject_pending [kept]: "daemon_inv d \<Longrightarrow> daemon_inv (reject_pending code m d)"
  by (auto simp: reject_pending_def kept split: option.split prod.split)

lemma kept_start_session [kept]:
  assumes "daemon_inv d"
  shows "daemon_inv (start_session h d)"
proof -
  define d1 where "d1 = (if agent_forward h
    then (case agent_bind (d_agent_path d) (d_agent_bound d) of Ok a \<Rightarrow> d\<lparr>d_agent := Some a\<rparr> | Err _ \<Rightarrow> d)
    else d)"
  have "daemon_inv d1"
    using assms queue_bounded_bind [of "d_agent_path d" "d_agent_bound d"]
    by (auto simp: d1_def kept split: res.split)
  then show ?thesis
    by (simp add: start_session_def d1_def [symmetric] Let_def kept split: res.split)
qed

text \<open>A greeting rewinds the offset, which only a connection owed nothing yet may have done.\<close>

definition unended :: "daemon \<Rightarrow> bool" where
  "unended d \<longleftrightarrow> pred_option (\<lambda>at. \<not> terminal_end_sent at) (d_client d)"

lemma unended_tell [simp]: "unended (tell_client f d) \<longleftrightarrow> unended d"
  by (simp add: unended_def tell_client_def split: option.split)

lemma unended_start_session: "unended d \<Longrightarrow> unended (start_session h d)"
  by (auto simp: start_session_def Let_def unended_def split: res.split)

lemma kept_on_hello:
  assumes "daemon_inv d" and "unended d"
  shows "daemon_inv (on_hello h d)"
proof -
  let ?d = "d\<lparr>d_win := win h, d_applied_win := None\<rparr>"
  define d1 where "d1 = (if d_pty ?d = None then start_session h ?d else ?d)"
  have inv: "daemon_inv d1" using assms(1) by (simp add: d1_def kept)
  have "unended ?d" using assms(2) by (simp add: unended_def)
  then have un: "unended d1" by (simp add: d1_def unended_start_session)
  have "daemon_inv (d1\<lparr>d_client := Some (at\<lparr>sent_through := x, at_ctrl_l := y, repaint_due := z\<rparr>)\<rparr>)"
    if "d_client d1 = Some at" for at x y z
    using inv un that by (simp add: daemon_inv_def client_ok_def unended_def)
  moreover have "on_hello h d = (if d_pty d1 = None then d1 else
      let ok = \<lparr>resume_from = resume_point (out_offset h) (d_ring d1),
            in_applied = d_in_applied d1, agent = (d_agent d1 \<noteq> None)\<rparr>
      in tell_client (HelloOk ok) (case d_client d1 of None \<Rightarrow> d1 | Some at \<Rightarrow>
        d1\<lparr>d_client := Some (at\<lparr>sent_through := resume_from ok, at_ctrl_l := repaint_ctrl_l h,
          repaint_due := hello_ok_gap ok (out_offset h)\<rparr>)\<rparr>))"
    by (simp only: on_hello_def d1_def Let_def)
  ultimately show ?thesis
    using inv by (simp add: Let_def kept split: option.split)
qed

lemma kept_greet [kept]:
  assumes "daemon_inv d"
  shows "daemon_inv (greet h d)"
proof -
  define d1 where "d1 = (if d_client d \<noteq> None then read_client d else d)"
  have d1: "daemon_inv d1" using assms by (simp add: d1_def kept)
  define d2 where "d2 = evict d1"
  have d2: "daemon_inv d2" using d1 by (simp add: d2_def kept)
  let ?d3 = "d2\<lparr>d_client := map_option (\<lambda>(c, _). greeting c) (d_pending d2), d_pending := None\<rparr>"
  have "daemon_inv ?d3"
    using d2
    by (cases "d_pending d2") (auto simp: daemon_inv_def client_ok_def greeting_def)
  moreover have "unended ?d3"
    by (cases "d_pending d2") (auto simp: unended_def greeting_def)
  ultimately have "daemon_inv (on_hello h ?d3)" by (rule kept_on_hello)
  then have "daemon_inv (read_client (on_hello h ?d3))" by (rule kept_read_client)
  moreover have "greet h d =
      (if protocol h \<noteq> PROTOCOL_VERSION
       then reject_pending Version (msg ''protocol version mismatch'') d
       else if if_detached h \<and> d_client d1 \<noteq> None
       then reject_pending AlreadyAttached (msg ''another client is already attached'') d1
       else read_client (on_hello h ?d3))"
    by (simp only: greet_def d1_def d2_def Let_def)
  ultimately show ?thesis using assms d1 by (simp add: kept)
qed

lemma kept_read_pending [kept]:
  assumes "daemon_inv d"
  shows "daemon_inv (read_pending d)"
proof (cases "d_pending d")
  case None
  then show ?thesis using assms by (simp add: read_pending_def)
next
  case (Some p)
  obtain c deadline where p: "p = (c, deadline)" by (cases p)
  obtain c1 r1 where fl: "fill READ_BUF c = (c1, r1)" by (cases "fill READ_BUF c")
  obtain c2 r2 where tf: "take_frame c1 = (c2, r2)" by (cases "take_frame c1")
  have "conn_inv c" using assms Some p by (simp add: daemon_inv_def)
  then have "conn_inv c2" using conn_inv_fill [of c READ_BUF] conn_inv_take [of c1] fl tf by simp
  then have "daemon_inv (d\<lparr>d_pending := Some (c2, deadline)\<rparr>)" using assms by (simp add: kept)
  then show ?thesis
    using assms Some p fl tf
    by (simp add: read_pending_def Let_def kept split: res.split option.split frame.split)
qed

section \<open>A whole pass, and every run of passes\<close>

lemma kept_expire [kept]:
  assumes "daemon_inv d"
  shows "daemon_inv (expire_deadlines d)"
proof -
  obtain now d1 where now: "d_now d = (now, d1)" by (cases "d_now d")
  have d1: "daemon_inv d1" using kept_now [OF assms] now by simp
  define d2 where "d2 = d1\<lparr>d_accept_retry := expire (d_accept_retry d1) now,
      d_agent_accept_retry := expire (d_agent_accept_retry d1) now,
      d_pending := (case d_pending d1 of
          Some (c, at) \<Rightarrow> if at \<le> now then None else Some (c, at) | None \<Rightarrow> None)\<rparr>"
  have d2: "daemon_inv d2"
    using d1 by (auto simp: d2_def daemon_inv_def split: option.splits)
  have "queue_bounded a'" if "d_agent d2 = Some a" "close_if_idle now a = (a', g)" for a a' g
    using queue_bounded_step [OF daemon_inv_agent [OF d2 that(1)], of 0 "AgExpire now"] that(2) by simp
  moreover have "expire_deadlines d = (case d_agent d2 of None \<Rightarrow> d2 | Some a \<Rightarrow>
      (case close_if_idle now a of (a, g) \<Rightarrow>
         case g of None \<Rightarrow> d2\<lparr>d_agent := Some a\<rparr>
         | Some g \<Rightarrow> tell_client (AgentClose g) (d2\<lparr>d_agent := Some a\<rparr>)))"
    by (simp only: expire_deadlines_def now d2_def Let_def prod.case)
  ultimately show ?thesis
    using d2 by (simp add: kept split: option.split prod.split)
qed

lemma kept_timeout [kept]: "daemon_inv d \<Longrightarrow> daemon_inv (snd (poll_timeout d))"
proof -
  assume d: "daemon_inv d"
  have "snd (poll_timeout d) = d\<lparr>d_clock := d_clock (snd (poll_timeout d))\<rparr>"
    by (auto simp: poll_timeout_def d_now_def split: prod.splits option.split list.split)
  then show ?thesis using d by (metis kept_fields(1))
qed

lemma kept_wait [kept]:
  assumes "daemon_inv d"
  shows "daemon_inv (snd (wait answer d))"
proof -
  obtain t d1 where pt: "poll_timeout (expire_deadlines d) = (t, d1)"
    by (cases "poll_timeout (expire_deadlines d)")
  then have "daemon_inv d1" using kept_timeout [OF kept_expire [OF assms]] by simp
  then show ?thesis using pt by (simp add: wait_def Let_def split: os_poll.split)
qed

lemma kept_signals [kept]: "daemon_inv d \<Longrightarrow> daemon_inv (note_signals revents d)"
  by (simp add: note_signals_def Let_def kept)

lemma note_signals_closed [simp]:
  "d_terminal_closed_at (note_signals revents d) = d_terminal_closed_at d"
  by (simp add: note_signals_def Let_def)

lemma kept_poll_once:
  assumes "daemon_inv d" and "d_terminal_closed_at d \<noteq> None \<Longrightarrow> revents SrcPty = {}"
  shows "daemon_inv (poll_once revents d)"
proof -
  have "daemon_inv (if readable (revents SrcPty) then read_pty (note_signals revents d)
      else note_signals revents d)"
    using assms kept_read_pty [of "note_signals revents d"] kept_signals [OF assms(1)]
    by (auto simp: readable_def)
  then show ?thesis by (simp add: poll_once_def Let_def kept)
qed

text \<open>A closed terminal is out of the poll set, so nothing is ever reported of it.\<close>

lemma map_of_watches: "map_of (watches d) s = watch_for d s"
proof -
  have "map_of (List.map_filter (\<lambda>s. map_option (\<lambda>m. (s, m)) (f s)) ss) s
      = (if s \<in> set ss then f s else None)" for f :: "source \<Rightarrow> poll_flag set option" and ss
    by (induction ss) (auto simp: map_filter_simps split: option.splits)
  moreover have "s \<in> set SINGLE_SOURCES" by (cases s) (simp_all add: SINGLE_SOURCES_def)
  ultimately show ?thesis by (simp add: watches_def)
qed

lemma revents_unwatched: "watch_for d s = None \<Longrightarrow> revents_of (watches d) answer s = {}"
  by (simp add: revents_of_def map_of_watches)

lemma poll_timeout_closed: "d_terminal_closed_at (snd (poll_timeout d)) = d_terminal_closed_at d"
  by (auto simp: poll_timeout_def d_now_def split: prod.splits option.split list.split)

lemma wait_closed_pty:
  assumes "wait answer d = (Ok revents, d')" and "d_terminal_closed_at d' \<noteq> None"
  shows "revents SrcPty = {}"
proof -
  let ?d = "expire_deadlines d"
  obtain t d1 where pt: "poll_timeout ?d = (t, d1)" by (cases "poll_timeout ?d")
  have "d' = d1" using assms(1) pt
    by (auto simp: wait_def Let_def split: os_poll.splits if_splits)
  then have "d_terminal_closed_at ?d \<noteq> None" using assms(2) pt poll_timeout_closed [of ?d] by simp
  then have "watch_for ?d SrcPty = None" by simp
  then show ?thesis
    using assms(1) pt
    by (auto simp: wait_def Let_def revents_unwatched split: os_poll.splits if_splits)
qed

text \<open>One turn of the loop past its stop test.\<close>

definition pass :: "os_poll \<Rightarrow> daemon \<Rightarrow> daemon" where
  "pass answer d =
     (case wait answer d of (Ok revents, d) \<Rightarrow> poll_once revents d | (Err e, d) \<Rightarrow> d)"

lemma kept_pass: "daemon_inv d \<Longrightarrow> daemon_inv (pass answer d)"
  using kept_wait [of d answer] wait_closed_pty [of answer d]
  by (auto simp: pass_def intro!: kept_poll_once split: prod.split res.split)

interpretation daemon_run: preserved_step pass daemon_inv
  by unfold_locales (rule kept_pass)

lemma stop_reason_inv: "daemon_inv d \<Longrightarrow> daemon_inv (snd (stop_reason d))"
  using kept_now [of d] by (auto simp: stop_reason_def split: option.split prod.split)

lemma kept_event_loop: "daemon_inv d \<Longrightarrow> daemon_inv (snd (event_loop answers d))"
proof (induction answers d rule: event_loop.induct)
  case (1 answers d)
  obtain why d1 where st: "stop_reason d = (why, d1)" by (cases "stop_reason d")
  then have d1: "daemon_inv d1" using stop_reason_inv [OF "1.prems"] by simp
  show ?case
  proof (cases "why = None \<and> answers \<noteq> []")
    case False
    then show ?thesis using st d1 by (cases answers; cases why) (auto split: option.splits)
  next
    case True
    then obtain a as where as: "answers = a # as" "why = None" by (cases answers) auto
    obtain r d2 where w: "wait a d1 = (r, d2)" by (cases "wait a d1")
    have d2: "daemon_inv d2" using kept_wait [OF d1, of a] w by simp
    show ?thesis
    proof (cases r)
      case (Ok revents)
      then have "daemon_inv (poll_once revents d2)"
        using kept_pass [OF d1, of a] w by (simp add: pass_def)
      then show ?thesis
        using "1.IH" [OF st [symmetric] as(2) as(1) w [symmetric] Ok] st as w Ok by simp
    next
      case (Err e)
      then show ?thesis using st as w d2 by simp
    qed
  qed
qed

lemma daemon_inv_new:
  assumes "ring_try_new reserve (ring_capacity req) = Ok r"
  shows "daemon_inv (daemon_new r env)"
proof -
  have "ring_capacity req \<le> MAX_RING_CAPACITY"
    by (auto simp: ring_capacity_def MAX_RING_CAPACITY_def DEFAULT_RING_CAPACITY_def
        split: option.splits)
  then have "capacity r \<le> MAX_RING_CAPACITY" "ring_buf r = []"
    using assms by (auto simp: ring_try_new_def MAX_RING_CAPACITY_def Let_def split: if_splits)
  then show ?thesis
    by (simp add: daemon_new_def daemon_inv_def d_now_def Let_def INPUT_BOUND_def split: prod.split)
qed



end
