(* ===== verification/Daemon_Input.thy ===== *)
theory Daemon_Input
  imports Daemon_Props
begin

text \<open>
  Client input and attaching: every byte of the input stream reaches the terminal once and in
  order whatever clients resend, and who may take the session from whom.
\<close>

section \<open>Input\<close>

text \<open>What the child's terminal has been given or is about to be.\<close>

definition pty_bytes :: "daemon \<Rightarrow> bytes" where
  "pty_bytes d =
     (case d_pty d of None \<Rightarrow> [] | Some p \<Rightarrow> accepted (master p)) @ d_pending_input d"

text \<open>A frame's data is a piece of the one stream the client is replaying.\<close>

definition piece_of :: "bytes \<Rightarrow> u64 \<Rightarrow> bytes \<Rightarrow> bool" where
  "piece_of S offset data \<longleftrightarrow>
     unat offset + length data \<le> length S \<and> data = take (length data) (drop (unat offset) S)"

definition slice :: "nat \<Rightarrow> nat \<Rightarrow> 'a list \<Rightarrow> 'a list" where
  "slice i j xs = take (j - i) (drop i xs)"

lemma slice_append: "i \<le> j \<Longrightarrow> j \<le> k \<Longrightarrow> slice i j xs @ slice j k xs = slice i k xs"
proof -
  assume *: "i \<le> j" "j \<le> k"
  have "take (k - i) (drop i xs) = take (j - i) (drop i xs) @ take (k - i - (j - i)) (drop (j - i) (drop i xs))"
    using * by (metis take_add diff_le_mono le_add_diff_inverse)
  moreover have "drop (j - i) (drop i xs) = drop j xs" "k - i - (j - i) = k - j" using * by simp_all
  ultimately show ?thesis by (simp add: slice_def)
qed

lemma slice_self [simp]: "slice i i xs = []"
  by (simp add: slice_def)

lemma piece_of_drop:
  assumes "piece_of S offset data" and "unat offset \<le> k" and "k \<le> unat offset + length data"
  shows "drop (k - unat offset) data = slice k (unat offset + length data) S"
proof -
  have "drop (k - unat offset) data
      = drop (k - unat offset) (take (length data) (drop (unat offset) S))"
    using assms(1) by (simp add: piece_of_def)
  also have "\<dots> = take (length data - (k - unat offset)) (drop k S)"
    using assms(2) by (simp add: drop_take)
  also have "length data - (k - unat offset) = unat offset + length data - k" using assms(2) by simp
  finally show ?thesis by (simp add: slice_def)
qed

lemma input_kept [simp]:
  "d_in_applied (tell_client f d) = d_in_applied d"
  "d_pending_input (tell_client f d) = d_pending_input d"
  "d_departed (tell_client f d) = d_departed d" "d_agent (tell_client f d) = d_agent d"
  "d_win (tell_client f d) = d_win d"
  "d_in_applied (on_detached d) = d_in_applied d"
  "d_pending_input (on_detached d) = d_pending_input d" "d_departed (on_detached d) = d_departed d"
  "d_in_applied (drop_client d) = d_in_applied d"
  "d_pending_input (drop_client d) = d_pending_input d"
  "d_in_applied (reject code m d) = d_in_applied d"
  "d_pending_input (reject code m d) = d_pending_input d"
  by (auto simp: reject_def drop_client_def tell_client_def on_detached_def d_now_def Let_def
      split: prod.splits option.splits)

text \<open>One frame: a gap changes nothing; otherwise the part not seen before is queued.\<close>

lemma on_input_piece:
  assumes "piece_of S offset data" and "length S < 2 ^ 64" and "d_terminal_closed_at d = None"
  defines "before \<equiv> unat (d_in_applied d)" and "after \<equiv> unat (d_in_applied (on_input offset data d))"
  shows "after = (if before < unat offset then before else max before (unat offset + length data))"
    and "d_pending_input (on_input offset data d) = d_pending_input d @ slice before after S"
    and "d_pty (on_input offset data d) = d_pty d"
    and "d_terminal_closed_at (on_input offset data d) = None"
proof -
  let ?fin_off = "unat offset + length data"
  have fits: "?fin_off < 2 ^ 64" using assms(1,2) by (simp add: piece_of_def)
  then have fin: "unat (sat_add64 offset (length data)) = ?fin_off"
    by (simp add: unat_sat_add64)
  show after: "after = (if before < unat offset then before else max before ?fin_off)"
    using fin by (auto simp: on_input_def after_def before_def Let_def word_less_nat_alt max_def)
  show "d_pending_input (on_input offset data d) = d_pending_input d @ slice before after S"
  proof (cases "before < unat offset \<or> ?fin_off \<le> before")
    case True
    then have "after = before" using after by auto
    moreover have "d_pending_input (on_input offset data d) = d_pending_input d"
      using True fin by (auto simp: on_input_def before_def Let_def word_less_nat_alt)
    ultimately show ?thesis by simp
  next
    case False
    then have le: "unat offset \<le> before" "before < ?fin_off" by auto
    then have "d_pending_input (on_input offset data d) = d_pending_input d
        @ drop (before - unat offset) data"
      using fin assms(3)
      by (auto simp: on_input_def before_def Let_def word_less_nat_alt unat_diff64 word_le_nat_alt)
    also have "drop (before - unat offset) data = slice before ?fin_off S"
      using le by (intro piece_of_drop [OF assms(1)]) simp_all
    finally show ?thesis using after le by simp
  qed
  show "d_pty (on_input offset data d) = d_pty d" and "d_terminal_closed_at (on_input offset data d) = None"
    using assms(3) by (simp_all add: on_input_def Let_def)
qed

text \<open>The operations input meets: frames of any client, drains into the terminal, departures.\<close>

datatype input_op = InFrame u64 bytes | InDrain | InDetach

fun input_step :: "input_op \<Rightarrow> daemon \<Rightarrow> daemon" where
  "input_step (InFrame offset data) d = on_input offset data d"
| "input_step InDrain d = write_pty d"
| "input_step InDetach d = drop_client d"

text \<open>A terminal none of whose coming writes fails for good.\<close>

definition writable :: "os_write list \<Rightarrow> bool" where
  "writable s \<longleftrightarrow> (\<forall>w \<in> set s. w \<noteq> WrOk 0 \<and> (\<forall>e. w = WrErr e \<longrightarrow> e = EAGAIN \<or> e = EINTR))"

definition healthy :: "daemon \<Rightarrow> bool" where
  "healthy d \<longleftrightarrow> d_terminal_closed_at d = None \<and>
     (\<exists>p. d_pty d = Some p \<and> writable (writes (master p)))"

lemma drain_script_writable:
  "writable s \<Longrightarrow> q \<noteq> [] \<Longrightarrow> drain_script q s = (r, q', s', out) \<Longrightarrow> r = Ok () \<and> writable s'"
proof (induction q s arbitrary: q' s' out rule: drain_script.induct)
  case (1 q)
  then show ?case by (simp add: writable_def)
next
  case (2 q w s)
  have s: "writable s" using "2.prems"(1) by (simp add: writable_def)
  show ?case
  proof (cases w)
    case (WrOk n)
    then have "0 < min n (length q)" using "2.prems"(1,2) by (simp add: writable_def)
    then show ?thesis using WrOk "2.prems" s by (auto simp: min_def split: if_splits)
  next
    case (WrErr e)
    then have "e = EAGAIN \<or> e = EINTR" using "2.prems"(1) by (simp add: writable_def)
    then show ?thesis using WrErr "2.prems" "2.IH" s by (auto split: if_splits)
  qed
qed

lemma write_pty_healthy:
  assumes "healthy d"
  shows "healthy (write_pty d)" and "pty_bytes (write_pty d) = pty_bytes d"
    and "d_in_applied (write_pty d) = d_in_applied d"
proof -
  obtain p where p: "d_pty d = Some p" "writable (writes (master p))" "d_terminal_closed_at d = None"
    using assms by (auto simp: healthy_def)
  obtain r q m where dr: "drain_to (d_pending_input d) (master p) = (r, q, m)"
    by (cases "drain_to (d_pending_input d) (master p)")
  have ok: "r = Ok () \<and> writable (writes m)"
    using dr p(2)
    by (auto simp: drain_to_def split: if_splits prod.splits dest: drain_script_writable)
  show "healthy (write_pty d)" using p dr ok by (simp add: write_pty_def healthy_def)
  show "pty_bytes (write_pty d) = pty_bytes d"
    using p dr ok drain_to_shape(1) [OF dr] by (simp add: write_pty_def pty_bytes_def)
  show "d_in_applied (write_pty d) = d_in_applied d" using p dr by (simp add: write_pty_def)
qed



text \<open>
  One frame, on every branch: ahead of the stream it is refused, the client let go and
  nothing applied; otherwise the applied offset becomes the larger of what it was and the
  frame's finish (saturating at the last offset a \<open>u64\<close> holds), past what the child has it moves
  without queueing anything, and the client is told the new offset.
\<close>

theorem on_input_branches:
  "if d_in_applied d < offset
   then d_client (on_input offset data d) = None \<and> d_in_applied (on_input offset data d) = d_in_applied d \<and>
        d_pending_input (on_input offset data d) = d_pending_input d
   else unat (d_in_applied (on_input offset data d)) =
          max (unat (d_in_applied d)) (min (unat offset + length data) (2 ^ 64 - 1)) \<and>
        d_pending_input (on_input offset data d) = d_pending_input d @
          (if d_terminal_closed_at d = None \<and> d_in_applied d < sat_add64 offset (length data)
           then drop (unat (d_in_applied d) - unat offset) data else []) \<and>
        d_client (on_input offset data d) = map_option
          (\<lambda>at. at\<lparr>at_conn := fst (conn_send (InputAck (d_in_applied (on_input offset data d)))
             (at_conn at))\<rparr>) (d_client d)"
proof (cases "d_in_applied d < offset")
  case True
  then show ?thesis by (simp add: on_input_def)
next
  case False
  let ?fin = "sat_add64 offset (length data)"
  have diff: "unat (d_in_applied d - offset) = unat (d_in_applied d) - unat offset"
    using False by (simp add: unat_diff64)
  have fin: "unat ?fin = min (unat offset + length data) (2 ^ 64 - 1)" by (rule unat_sat_add64)
  have a: "d_in_applied (on_input offset data d) = (if d_in_applied d < ?fin then ?fin else d_in_applied d)"
    using False by (simp add: on_input_def Let_def)
  have "unat (if d_in_applied d < ?fin then ?fin else d_in_applied d)
      = max (unat (d_in_applied d)) (unat ?fin)"
    by (auto simp: word_less_nat_alt max_def)
  moreover have "d_client (on_input offset data d) = map_option
          (\<lambda>at. at\<lparr>at_conn := fst (conn_send (InputAck (d_in_applied (on_input offset data d)))
             (at_conn at))\<rparr>) (d_client d)"
    unfolding a using False
    by (cases "d_client d") (simp_all add: on_input_def tell_client_def Let_def)
  moreover have "d_pending_input (on_input offset data d) = d_pending_input d @
          (if d_terminal_closed_at d = None \<and> d_in_applied d < ?fin
           then drop (unat (d_in_applied d) - unat offset) data else [])"
    using False diff by (simp add: on_input_def Let_def)
  ultimately show ?thesis using False a fin by simp
qed

section \<open>Who has the session\<close>

text \<open>A refusal of the connection that is not attached yet.\<close>

definition refused_with :: "conn \<Rightarrow> error_code \<Rightarrow> rstr \<Rightarrow> conn \<Rightarrow> bool" where
  "refused_with c code m c' \<longleftrightarrow>
     transcript c' = transcript c @ preamble_due c @ wire (Error code m)"

lemma reject_pending_spec:
  assumes "d_pending d = Some (c, deadline)" and "conn_ok c"
  shows "\<exists>c' ck. reject_pending code m d
      = d\<lparr>d_pending := None, d_clock := ck, d_departed := d_departed d @ [c']\<rparr> \<and>
    refused_with c code m c'"
proof -
  obtain c' ck where cw: "close_with (d_clock d) (Some (Error code m)) c = (c', ck)"
    by (cases "close_with (d_clock d) (Some (Error code m)) c")
  have "refused_with c code m c'"
    using close_with_transcript [OF assms(2), of "d_clock d" "Some (Error code m)"] cw
    by (simp add: refused_with_def)
  then show ?thesis
    using assms(1) cw by (intro exI [of _ c'] exI [of _ ck]) (simp add: reject_pending_def)
qed

lemma evict_spec:
  assumes "d_client d = Some at" and "conn_ok (at_conn at)"
  shows "d_client (evict d) = None" and "d_pending (evict d) = d_pending d"
    and "\<exists>c'. d_departed (evict d) = d_departed d @ [c'] \<and>
      refused_with (at_conn at) Takeover (msg ''another client attached'') c'"
proof -
  let ?f = "Error Takeover (msg ''another client attached'')"
  obtain c' ck where cw: "close_with (d_clock d) (Some ?f) (at_conn at) = (c', ck)"
    by (cases "close_with (d_clock d) (Some ?f) (at_conn at)")
  have "refused_with (at_conn at) Takeover (msg ''another client attached'') c'"
    using close_with_transcript [OF assms(2), of "d_clock d" "Some ?f"] cw
    by (simp add: refused_with_def)
  then show "\<exists>c'. d_departed (evict d) = d_departed d @ [c'] \<and>
      refused_with (at_conn at) Takeover (msg ''another client attached'') c'"
    using assms(1) cw by (auto simp: evict_def)
  show "d_client (evict d) = None" and "d_pending (evict d) = d_pending d"
    using assms(1) cw by (simp_all add: evict_def)
qed

text \<open>
  C11. A greeting decides who has the session.  A wrong protocol version costs the incumbent
  nothing at all: only the newcomer's slot and the list of closed connections change, and the
  newcomer is told why.  Otherwise what the incumbent had already delivered is read first; a
  newcomer that would only take a free session is then refused with the incumbent kept, and any
  other takes over: the incumbent's connection ends with everything queued for it followed by
  the takeover error, and the newcomer alone is greeted.
\<close>

theorem greet_decides:
  assumes "daemon_inv d" and "d_pending d = Some (c, deadline)"
  shows "let drained = (if d_client d = None then d else read_client d) in
    if protocol h \<noteq> PROTOCOL_VERSION then
      \<exists>c' ck. refused_with c Version (msg ''protocol version mismatch'') c' \<and>
        greet h d = d\<lparr>d_pending := None, d_clock := ck, d_departed := d_departed d @ [c']\<rparr>
    else if if_detached h \<and> d_client drained \<noteq> None then
      \<exists>c' ck. refused_with c AlreadyAttached (msg ''another client is already attached'') c' \<and>
        greet h d = drained\<lparr>d_pending := None, d_clock := ck, d_departed := d_departed drained @ [c']\<rparr>
    else
      \<exists>mid. greet h d = read_client (on_hello h mid) \<and> d_client mid = Some (greeting c) \<and>
        d_pending mid = None \<and>
        (case d_client drained of
           None \<Rightarrow> mid = drained\<lparr>d_client := Some (greeting c), d_pending := None\<rparr>
         | Some at \<Rightarrow> \<exists>c'. d_departed mid = d_departed drained @ [c'] \<and>
             refused_with (at_conn at) Takeover (msg ''another client attached'') c')"
proof -
  define d1 where "d1 = (if d_client d = None then d else read_client d)"
  have d1: "daemon_inv d1" using assms(1) by (simp add: d1_def kept)
  have pend: "d_pending d1 = Some (c, deadline)" using assms(2) by (simp add: d1_def)
  have cok: "conn_ok c" using assms by (simp add: daemon_inv_def conn_inv_def)
  have eq: "greet h d = (if protocol h \<noteq> PROTOCOL_VERSION
      then reject_pending Version (msg ''protocol version mismatch'') d
      else if if_detached h \<and> d_client d1 \<noteq> None
      then reject_pending AlreadyAttached (msg ''another client is already attached'') d1
      else read_client (on_hello h ((evict d1)\<lparr>d_client :=
        map_option (\<lambda>(c, _). greeting c) (d_pending (evict d1)), d_pending := None\<rparr>)))"
    by (auto simp: greet_def d1_def Let_def)
  let ?mid = "(evict d1)\<lparr>d_client := map_option (\<lambda>(c, _). greeting c) (d_pending (evict d1)),
    d_pending := None\<rparr>"
  have mid: "d_client ?mid = Some (greeting c) \<and> d_pending ?mid = None \<and>
      (case d_client d1 of
         None \<Rightarrow> ?mid = d1\<lparr>d_client := Some (greeting c), d_pending := None\<rparr>
       | Some at \<Rightarrow> \<exists>c'. d_departed ?mid = d_departed d1 @ [c'] \<and>
           refused_with (at_conn at) Takeover (msg ''another client attached'') c')"
  proof (cases "d_client d1")
    case None
    then have "evict d1 = d1" by (simp add: evict_def)
    then show ?thesis using pend None by simp
  next
    case (Some at)
    have "conn_ok (at_conn at)" using daemon_inv_client [OF d1 Some] by (simp add: conn_inv_def)
    then show ?thesis using evict_spec [OF Some] pend Some by simp
  qed
  note versions = reject_pending_spec [OF assms(2) cok, of Version "msg ''protocol version mismatch''"]
  note attached =
    reject_pending_spec [OF pend cok, of AlreadyAttached "msg ''another client is already attached''"]
  consider "protocol h \<noteq> PROTOCOL_VERSION"
    | "protocol h = PROTOCOL_VERSION" "if_detached h \<and> d_client d1 \<noteq> None"
    | "protocol h = PROTOCOL_VERSION" "\<not> (if_detached h \<and> d_client d1 \<noteq> None)" by blast
  then show ?thesis
  proof cases
    case 1
    then show ?thesis unfolding Let_def d1_def [symmetric] eq using versions by (simp only: simp_thms if_True) blast
  next
    case 2
    then show ?thesis unfolding Let_def d1_def [symmetric] eq using attached by (simp only: simp_thms if_True if_False) blast
  next
    case 3
    then have "greet h d = read_client (on_hello h ?mid)" using eq by auto
    then show ?thesis
      unfolding Let_def d1_def [symmetric] using 3 mid by (simp only: simp_thms if_False) blast
  qed
qed

theorem greet_decides_witness:
  "\<forall>env. \<exists>c' ck. refused_with (conn_new \<lparr>reads = [], writes = [], accepted = []\<rparr>) Version
       (msg ''protocol version mismatch'') c' \<and>
     greet \<lparr>protocol = 10, agent_forward = False, repaint_ctrl_l = False, if_detached = False,
         out_offset = 0, win = \<lparr>cols = 80, rows = 24, xpixel = 0, ypixel = 0\<rparr>, term_var = []\<rparr>
       ((daemon_new \<lparr>ring_buf = [], capacity = 16777216, base = 0\<rparr> env)
          \<lparr>d_pending := Some (conn_new \<lparr>reads = [], writes = [], accepted = []\<rparr>, 5)\<rparr>)
     = (daemon_new \<lparr>ring_buf = [], capacity = 16777216, base = 0\<rparr> env)
         \<lparr>d_pending := None, d_clock := ck,
          d_departed := d_departed (daemon_new \<lparr>ring_buf = [], capacity = 16777216, base = 0\<rparr> env) @ [c']\<rparr>"
proof
  fix env :: daemon
  let ?r = "\<lparr>ring_buf = [], capacity = 16777216, base = 0\<rparr>"
  let ?c = "conn_new \<lparr>reads = [], writes = [], accepted = []\<rparr>"
  let ?h = "\<lparr>protocol = 10, agent_forward = False, repaint_ctrl_l = False, if_detached = False,
      out_offset = 0, win = \<lparr>cols = 80, rows = 24, xpixel = 0, ypixel = 0\<rparr>, term_var = []\<rparr>"
  have "ring_try_new (\<lambda>_. True) (ring_capacity None) = Ok ?r"
    by (simp add: ring_try_new_def ring_capacity_def DEFAULT_RING_CAPACITY_def)
  then have inv: "daemon_inv ((daemon_new ?r env)\<lparr>d_pending := Some (?c, 5)\<rparr>)"
    by (intro kept_fields(21) daemon_inv_new conn_inv_new)
  have "protocol ?h \<noteq> PROTOCOL_VERSION" by (simp add: PROTOCOL_VERSION_def)
  then show "\<exists>c' ck. refused_with ?c Version (msg ''protocol version mismatch'') c' \<and>
      greet ?h ((daemon_new ?r env)\<lparr>d_pending := Some (?c, 5)\<rparr>)
      = (daemon_new ?r env)\<lparr>d_pending := None, d_clock := ck,
          d_departed := d_departed (daemon_new ?r env) @ [c']\<rparr>"
    using greet_decides [OF inv, of ?c 5 ?h] by (simp add: Let_def)
qed

section \<open>Resuming\<close>

text \<open>
  C12. A greeting on a running session resumes its client where it left off: the offset it is
  told is its own, clamped into what the ring retains of the history \<open>h\<close> -- the oldest byte for
  a client that wants everything -- reading from there yields every byte of the history from
  that offset on, the applied input offset is the session's own, and a repaint is owed exactly
  when bytes the client asked for are gone.
\<close>

theorem resume_exactly:
  assumes "ring_window cap (d_ring d) hist" and "d_pty d \<noteq> None" and "d_client d = Some at"
    and "conn_ok (at_conn at)"
  shows "\<exists>at' r. d_client (on_hello h d) = Some at' \<and> sent_through at' = r \<and>
    transcript (at_conn at') = transcript (at_conn at) @ preamble_due (at_conn at) @
      wire (HelloOk \<lparr>resume_from = r, in_applied = d_in_applied d, agent = (d_agent d \<noteq> None)\<rparr>) \<and>
    unat r = (if out_offset h = RESUME_FROM_START then length hist - cap
              else max (min (unat (out_offset h)) (length hist)) (length hist - cap)) \<and>
    concat (slices_from k (d_ring d) r) = drop (unat r) hist \<and>
    (repaint_due at' \<longleftrightarrow> out_offset h \<noteq> RESUME_FROM_START \<and> unat (out_offset h) < length hist - cap) \<and>
    d_in_applied (on_hello h d) = d_in_applied d \<and> d_win (on_hello h d) = win h \<and>
    d_applied_win (on_hello h d) = None"
proof -
  let ?r = "resume_point (out_offset h) (d_ring d)"
  note lo = ring_win.window_lo [OF assms(1)] and hi = ring_win.window_hi [OF assms(1)]
  have r: "unat ?r = (if out_offset h = RESUME_FROM_START then length hist - cap
              else max (min (unat (out_offset h)) (length hist)) (length hist - cap))"
    using lo hi by (auto simp: resume_point_def min_def max_def word_le_nat_alt)
  have sl: "concat (slices_from k (d_ring d) ?r) = drop (unat ?r) hist"
    using ring_win.window_slices [OF assms(1), of k ?r] r by (auto simp: max_def min_def)
  have gap: "out_offset h < ?r \<longleftrightarrow>
      out_offset h \<noteq> RESUME_FROM_START \<and> unat (out_offset h) < length hist - cap"
  proof (cases "out_offset h = RESUME_FROM_START")
    case True
    have "\<not> RESUME_FROM_START < ?r" by (simp add: RESUME_FROM_START_def not_less)
    then show ?thesis using True by simp
  next
    case False
    then show ?thesis using r by (auto simp: word_less_nat_alt)
  qed
  obtain p where "d_pty d = Some p" using assms(2) by auto
  then show ?thesis
    using assms(3,4) r sl gap
    by (simp add: on_hello_def Let_def tell_client_def hello_ok_gap_def conn_send_transcript)
qed

theorem resume_exactly_witness:
  "\<forall>env p. let d = env\<lparr>d_ring := \<lparr>ring_buf = [3, 4, 5, 6], capacity = 4, base = 2\<rparr>, d_pty := Some p,
        d_client := Some (greeting (conn_new \<lparr>reads = [], writes = [], accepted = []\<rparr>))\<rparr>;
      h = \<lparr>protocol = 11, agent_forward = False, repaint_ctrl_l = False, if_detached = False,
         out_offset = 1, win = \<lparr>cols = 80, rows = 24, xpixel = 0, ypixel = 0\<rparr>, term_var = []\<rparr>
    in \<exists>at' r. d_client (on_hello h d) = Some at' \<and> sent_through at' = r \<and> unat r = 2 \<and> repaint_due at'"
proof (intro allI)
  fix env :: daemon and p :: pty
  let ?c = "conn_new \<lparr>reads = [], writes = [], accepted = []\<rparr>"
  let ?d = "env\<lparr>d_ring := \<lparr>ring_buf = [3, 4, 5, 6], capacity = 4, base = 2\<rparr>, d_pty := Some p,
      d_client := Some (greeting ?c)\<rparr>"
  let ?h = "\<lparr>protocol = 11, agent_forward = False, repaint_ctrl_l = False, if_detached = False,
      out_offset = 1, win = \<lparr>cols = 80, rows = 24, xpixel = 0, ypixel = 0\<rparr>, term_var = []\<rparr>"
  have "ring_window 4 (d_ring ?d) [1, 2, 3, 4, 5, 6]" by (simp add: ring_window_def)
  moreover have "d_pty ?d \<noteq> None" "d_client ?d = Some (greeting ?c)" by simp_all
  moreover have "conn_ok (at_conn (greeting ?c))" by (simp add: greeting_def conn_new_def conn_ok_def)
  moreover have "out_offset ?h \<noteq> RESUME_FROM_START" by (simp add: RESUME_FROM_START_def)
  ultimately have "\<exists>at' r. d_client (on_hello ?h ?d) = Some at' \<and> sent_through at' = r \<and>
      unat r = 2 \<and> repaint_due at'"
    using resume_exactly [of 4 ?d "[1, 2, 3, 4, 5, 6]" "greeting ?c" ?h 0] by auto
  then show "let d = ?d; h = ?h in \<exists>at' r. d_client (on_hello h d) = Some at' \<and> sent_through at' = r \<and>
      unat r = 2 \<and> repaint_due at'"
    by (simp only: Let_def)
qed

end
