(* ===== verification/Daemon_Output.thy ===== *)
theory Daemon_Output
  imports Daemon_Input
begin

text \<open>
  Output, the end of a session, and time: contiguous output behind at most one reported gap, an
  \<open>Exit\<close> only behind all of it, an outcome that never changes, a poll that wakes for every
  deadline, and the reasons the loop ends.
\<close>

section \<open>Pumping the ring\<close>

lemma output_frames_append:
  "output_frames offset (ps @ qs) =
     output_frames offset ps @ output_frames (offset + of_nat (length (concat ps))) qs"
  by (induction ps arbitrary: offset) (simp_all add: ac_simps)

lemma of_nat64_eq:
  assumes "(of_nat m :: u64) = of_nat n" and "m < 2 ^ 64" and "n < 2 ^ 64"
  shows "m = n"
proof -
  have "unat (of_nat m :: u64) = unat (of_nat n :: u64)" using assms(1) by simp
  then show ?thesis using assms(2,3) by (simp add: unat_of_nat_small)
qed

lemma pump_parts_spec:
  assumes "conn_ok c" and "length (concat parts) < 2 ^ 64"
    and "pump_parts parts (c, through) = (c', through')"
  shows "\<exists>sent. through' = through + of_nat (length (concat sent)) \<and>
    concat sent = take (length (concat sent)) (concat parts) \<and>
    length (concat sent) \<le> length (concat parts) \<and>
    transcript c' = transcript c
      @ (if sent = [] then [] else preamble_due c @ wires (output_frames through sent)) \<and>
    preamble_due c' = (if sent = [] then preamble_due c else []) \<and> conn_ok c' \<and>
    (length (concat sent) < length (concat parts) \<longrightarrow> MAX_PENDING_WRITE \<le> queued c')"
  using assms
proof (induction parts arbitrary: c through)
  case Nil
  then show ?case by (intro exI [of _ "[]"]) simp
next
  case (Cons part parts)
  show ?case
  proof (cases "part = []")
    case True
    then show ?thesis using Cons.IH [of c through] Cons.prems by simp
  next
    case False
    obtain c1 t1 where so: "send_output through part c = (c1, t1)"
      by (cases "send_output through part c")
    obtain sent where s: "t1 = through + of_nat (length (concat sent))"
      "concat sent = take (length (concat sent)) part" "length (concat sent) \<le> length part"
      "transcript c1 = transcript c
        @ (if sent = [] then [] else preamble_due c @ wires (output_frames through sent))"
      "preamble_due c1 = (if sent = [] then preamble_due c else [])" "conn_ok c1"
      "length (concat sent) < length part \<Longrightarrow> MAX_PENDING_WRITE \<le> queued c1"
      by (rule send_output_sent [OF Cons.prems(1) so]) blast
    have small: "length part < 2 ^ 64" "length (concat parts) < 2 ^ 64" using Cons.prems(2) by simp_all
    have whole: "t1 = through + of_nat (length part) \<longleftrightarrow> length (concat sent) = length part"
      using s(1,3) small(1) of_nat64_eq [of "length (concat sent)" "length part"] by auto
    show ?thesis
    proof (cases "length (concat sent) = length part")
      case short: False
      then have "(c', through') = (c1, t1)"
        using Cons.prems(3) False so whole by (simp add: Let_def)
      moreover have "concat sent = take (length (concat sent)) (part @ concat parts)"
        using s(2,3) by simp
      ultimately show ?thesis
        using s short by (intro exI [of _ sent]) simp
    next
      case True
      then have part: "concat sent = part" using s(2) by simp
      then have "sent \<noteq> []" using False by auto
      have "pump_parts parts (c1, t1) = (c', through')"
        using Cons.prems(3) False so whole True by (simp add: Let_def)
      from Cons.IH [OF s(6) small(2) this] obtain sent2 where
        "through' = t1 + of_nat (length (concat sent2))"
        "concat sent2 = take (length (concat sent2)) (concat parts)"
        "length (concat sent2) \<le> length (concat parts)"
        "transcript c' = transcript c1
          @ (if sent2 = [] then [] else preamble_due c1 @ wires (output_frames t1 sent2))"
        "preamble_due c' = (if sent2 = [] then preamble_due c1 else [])" "conn_ok c'"
        "length (concat sent2) < length (concat parts) \<longrightarrow> MAX_PENDING_WRITE \<le> queued c'"
        by blast
      then show ?thesis
        using s(1,4,5) part \<open>sent \<noteq> []\<close>
        by (intro exI [of _ "sent @ sent2"]) (auto simp: output_frames_append ac_simps)
    qed
  qed
qed

text \<open>
  C13. Output is contiguous: with the ring a window over the history \<open>hist\<close>, one pump sends at
  most one \<open>Gap\<close> -- first, naming the oldest byte retained, and only when bytes the client was
  owed are gone -- and then consecutive \<open>Output\<close> frames carrying exactly the bytes of the
  history from there on; it falls short of the end only with the client's queue at its cap.
\<close>

theorem pump_is_contiguous:
  assumes "ring_window cap r hist" and "conn_ok (at_conn at)" and "unat (sent_through at) \<le> length hist"
  shows "\<exists>gap start sent. let at' = pump_ring k r at in
    (gap = [] \<and> start = sent_through at \<or>
     gap = [Gap (base r)] \<and> start = base r \<and> unat (sent_through at) < length hist - cap) \<and>
    transcript (at_conn at') = transcript (at_conn at)
      @ (if gap = [] \<and> sent = [] then [] else preamble_due (at_conn at))
      @ wires (gap @ output_frames start sent) \<and>
    concat sent = take (length (concat sent)) (drop (unat start) hist) \<and>
    unat (sent_through at') = unat start + length (concat sent) \<and>
    unat (sent_through at') \<le> length hist \<and>
    repaint_due at' = (repaint_due at \<or> gap \<noteq> []) \<and>
    (unat (sent_through at') < length hist \<longrightarrow> MAX_PENDING_WRITE \<le> queued (at_conn at'))"
proof -
  note lo = ring_win.window_lo [OF assms(1)] and hi = ring_win.window_hi [OF assms(1)]
  have hist: "length hist < 2 ^ 64" using assms(1) by (simp add: ring_window_def)
  show ?thesis
  proof (cases "queued (at_conn at) < MAX_PENDING_WRITE \<and> sent_through at < ring_end r")
    case False
    then have "unat (sent_through at) < length hist \<longrightarrow> MAX_PENDING_WRITE \<le> queued (at_conn at)"
      using hi by (auto simp: word_less_nat_alt)
    moreover have "pump_ring k r at = at" using False by (auto simp: pump_ring_def)
    ultimately show ?thesis
      using assms(3)
      by (intro exI [of _ "[]"] exI [of _ "sent_through at"] exI [of _ "[]"]) (simp add: Let_def)
  next
    case True
    define behind where "behind \<longleftrightarrow> sent_through at < base r"
    define at1 where "at1 = (if behind
      then at\<lparr>at_conn := fst (conn_send (Gap (base r)) (at_conn at)), sent_through := base r,
              repaint_due := True\<rparr> else at)"
    have ok1: "conn_ok (at_conn at1)" using assms(2) by (simp add: at1_def conn_send_ok)
    let ?parts = "slices_from k r (sent_through at1)"
    have start: "max (unat (sent_through at1)) (length hist - cap) = unat (sent_through at1)"
      using lo by (auto simp: at1_def behind_def word_less_nat_alt)
    have parts: "concat ?parts = drop (unat (sent_through at1)) hist"
      using ring_win.window_slices [OF assms(1), of k "sent_through at1"] start by simp
    obtain c' t' where pp: "pump_parts ?parts (at_conn at1, sent_through at1) = (c', t')"
      by (cases "pump_parts ?parts (at_conn at1, sent_through at1)")
    have "length (concat ?parts) < 2 ^ 64" using parts hist by simp
    from pump_parts_spec [OF ok1 this pp] obtain sent where
      s: "t' = sent_through at1 + of_nat (length (concat sent))"
      "concat sent = take (length (concat sent)) (concat ?parts)"
      "length (concat sent) \<le> length (concat ?parts)"
      "transcript c' = transcript (at_conn at1) @ (if sent = [] then []
         else preamble_due (at_conn at1) @ wires (output_frames (sent_through at1) sent))"
      "length (concat sent) < length (concat ?parts) \<longrightarrow> MAX_PENDING_WRITE \<le> queued c'"
      by blast
    have le1: "unat (sent_through at1) \<le> length hist"
      using lo assms(3) by (auto simp: at1_def)
    then have fits: "unat (sent_through at1) + length (concat sent) \<le> length hist"
      using s(3) parts by simp
    then have t': "unat t' = unat (sent_through at1) + length (concat sent)"
      using hist s(1) by (simp add: unat_add_of_nat)
    have at': "pump_ring k r at = at1\<lparr>at_conn := c', sent_through := t'\<rparr>"
      using True pp by (simp add: pump_ring_def at1_def behind_def Let_def)
    let ?gap = "if behind then [Gap (base r)] else []"
    have tr: "transcript c' = transcript (at_conn at)
      @ (if ?gap = [] \<and> sent = [] then [] else preamble_due (at_conn at))
      @ wires (?gap @ output_frames (sent_through at1) sent)"
      using s(4) assms(2)
      by (auto simp: at1_def conn_send_transcript preamble_due_def conn_send_simps)
    show ?thesis
      unfolding Let_def at'
    proof (intro exI [of _ ?gap] exI [of _ "sent_through at1"] exI [of _ sent] conjI)
      show "?gap = [] \<and> sent_through at1 = sent_through at \<or>
          ?gap = [Gap (base r)] \<and> sent_through at1 = base r \<and> unat (sent_through at) < length hist - cap"
        using lo by (simp add: at1_def behind_def word_less_nat_alt)
      show "repaint_due (at1\<lparr>at_conn := c', sent_through := t'\<rparr>) = (repaint_due at \<or> ?gap \<noteq> [])"
        by (simp add: at1_def)
      show "unat (sent_through (at1\<lparr>at_conn := c', sent_through := t'\<rparr>)) < length hist \<longrightarrow>
          MAX_PENDING_WRITE \<le> queued (at_conn (at1\<lparr>at_conn := c', sent_through := t'\<rparr>))"
        using s(5) parts t' fits by auto
    qed (use tr s(2) parts t' fits in simp_all)
  qed
qed

theorem pump_is_contiguous_witness:
  "\<exists>start sent. let at' = pump_ring 1 \<lparr>ring_buf = [3, 4, 5, 6], capacity = 4, base = 2\<rparr>
      (greeting (conn_new \<lparr>reads = [], writes = [], accepted = []\<rparr>)) in
    concat sent = take (length (concat sent)) (drop (unat start) [1, 2, 3, 4, 5, 6 :: u8]) \<and>
    unat (sent_through at') = unat (start :: u64) + length (concat sent)"
proof -
  let ?r = "\<lparr>ring_buf = [3, 4, 5, 6], capacity = 4, base = 2\<rparr>"
  let ?at = "greeting (conn_new \<lparr>reads = [], writes = [], accepted = []\<rparr>)"
  have "ring_window 4 ?r [1, 2, 3, 4, 5, 6]" by (simp add: ring_window_def)
  moreover have "conn_ok (at_conn ?at)" by (simp add: greeting_def conn_new_def conn_ok_def)
  moreover have "unat (sent_through ?at) \<le> length [1, 2, 3, 4, 5, 6 :: u8]" by (simp add: greeting_def)
  ultimately show ?thesis
    using pump_is_contiguous [of 4 ?r "[1, 2, 3, 4, 5, 6]" ?at 1] unfolding Let_def by blast
qed

section \<open>The end of the transcript\<close>



text \<open>
  The \<open>Exit\<close> is not forgotten either: after every pump the attached client has been sent it
  exactly if it had been before, or the terminal has closed, the outcome is known and the whole
  ring is queued; the frame carries that outcome and the whole seconds since the terminal closed.
\<close>

theorem exit_sent_when_due:
  assumes "send_exit d at = (at', d')" and "conn_ok (at_conn at)"
  shows "terminal_end_sent at' = (terminal_end_sent at \<or> d_terminal_closed_at d \<noteq> None \<and>
      d_outcome d \<noteq> None \<and> ring_end (d_ring d) \<le> sent_through at) \<and>
    transcript (at_conn at') = transcript (at_conn at) @
      (if terminal_end_sent at' \<and> \<not> terminal_end_sent at
       then preamble_due (at_conn at) @ wire (Exit (fst (the (d_outcome d))) (snd (the (d_outcome d)))
         (u32_or_max ((fst (d_clock d') - the (d_terminal_closed_at d)) div 1000000000)))
       else [])"
proof (cases "exit_due d at")
  case None
  then show ?thesis
    using assms
    by (auto simp: send_exit_def exit_due_def not_less split: if_splits option.splits)
next
  case (Some e)
  then obtain closed_at status kind where e: "d_terminal_closed_at d = Some closed_at"
    "d_outcome d = Some (status, kind)" "e = (closed_at, status, kind)"
    "\<not> terminal_end_sent at" "ring_end (d_ring d) \<le> sent_through at"
    by (auto simp: exit_due_def not_less split: if_splits option.splits)
  obtain now d1 where now: "d_now d = (now, d1)" by (cases "d_now d")
  have "fst (d_clock d1) = now"
    using now clock_now_mono [of "d_clock d"] by (auto simp: d_now_def split: prod.splits)
  then show ?thesis
    using assms Some e now
    by (auto simp: send_exit_def conn_send_transcript secs_def)
qed

theorem exit_sent_when_due_witness:
  "\<forall>env. let c = conn_new \<lparr>reads = [], writes = [], accepted = []\<rparr>;
      d = env\<lparr>d_ring := \<lparr>ring_buf = [], capacity = 4, base = 0\<rparr>, d_terminal_closed_at := Some 0,
        d_outcome := Some (7, Exited), d_clock := (secs 5, [])\<rparr>
    in terminal_end_sent (fst (send_exit d (greeting c)))"
proof
  fix env :: daemon
  let ?c = "conn_new \<lparr>reads = [], writes = [], accepted = []\<rparr>"
  let ?d = "env\<lparr>d_ring := \<lparr>ring_buf = [], capacity = 4, base = 0\<rparr>, d_terminal_closed_at := Some 0,
      d_outcome := Some (7, Exited), d_clock := (secs 5, [])\<rparr>"
  obtain at' d' where se: "send_exit ?d (greeting ?c) = (at', d')"
    by (cases "send_exit ?d (greeting ?c)")
  have "conn_ok (at_conn (greeting ?c))" by (simp add: greeting_def conn_new_def conn_ok_def)
  from exit_sent_when_due [OF se this] have "terminal_end_sent at'"
    by (simp add: greeting_def ring_end_def)
  then show "let c = ?c; d = ?d in terminal_end_sent (fst (send_exit d (greeting c)))"
    by (simp only: Let_def se fst_conv)
qed

section \<open>The outcome\<close>

text \<open>What the outcome rests on: with no terminal there is none; a real one was observed.\<close>

type_synonym outcome_seen = "(i32 \<times> exit_kind) option \<times> nat option \<times> bool option"

definition outcome_view :: "daemon \<Rightarrow> outcome_seen" where
  "outcome_view d = (d_outcome d, d_terminal_closed_at d, map_option observed (d_pty d))"

fun view_ok :: "outcome_seen \<Rightarrow> bool" where
  "view_ok (found, closed, obs) \<longleftrightarrow>
     (obs = None \<longrightarrow> found = None \<and> closed = None) \<and>
     (obs = Some False \<longrightarrow> found = None \<or> found = Some (0, Unknown))"

interpretation view_kept: untouched outcome_view
  by unfold_locales (simp_all add: outcome_view_def)

text \<open>A step that keeps the view consistent and never takes an outcome back.\<close>

definition settles :: "daemon \<Rightarrow> daemon \<Rightarrow> bool" where
  "settles d d' \<longleftrightarrow> (view_ok (outcome_view d) \<longrightarrow> view_ok (outcome_view d') \<and>
     (d_outcome d \<noteq> None \<longrightarrow> d_outcome d' = d_outcome d))"

lemma settles_same: "outcome_view d' = outcome_view d \<Longrightarrow> settles d d'"
  by (simp add: settles_def outcome_view_def)

lemma settles_trans: "settles d d1 \<Longrightarrow> settles d1 d2 \<Longrightarrow> settles d d2"
  by (auto simp: settles_def)

lemma settles_refl: "settles d d"
  by (simp add: settles_same)

lemma pty_resize_observed [simp]: "observed (fst (pty_resize w p)) = observed p"
  by (simp add: pty_resize_def split: list.split res.split)

lemma nudge_observed [simp]: "observed (fst (nudge_repaint w p)) = observed p"
proof -
  obtain p1 r1 where r: "pty_resize (w\<lparr>cols := cols w - 1\<rparr>) p = (p1, r1)"
    by (cases "pty_resize (w\<lparr>cols := cols w - 1\<rparr>) p")
  then have "observed p1 = observed p" using pty_resize_observed [of "w\<lparr>cols := cols w - 1\<rparr>" p] by simp
  then show ?thesis using r by (simp add: nudge_repaint_def split: res.split)
qed

lemma view_apply_win: "outcome_view (apply_win d) = outcome_view d"
proof -
  have "observed p' = observed p" if "pty_resize w p = (p', r)" for w p p' r
    using pty_resize_observed [of w p] that by simp
  then show ?thesis
    by (auto simp: apply_win_def outcome_view_def split: option.split prod.split)
qed

lemma view_write_pty: "outcome_view (write_pty d) = outcome_view d"
  by (auto simp: write_pty_def outcome_view_def split: option.split prod.split)

lemma view_repaint: "outcome_view (snd (repaint d)) = outcome_view d"
proof -
  have "observed p' = observed p" if "nudge_repaint w p = (p', r)" for w p p' r
    using nudge_observed [of w p] that by simp
  then show ?thesis
    by (auto simp: repaint_def outcome_view_def Let_def split: option.split prod.split)
qed

lemma view_pump: "outcome_view (pump_output d) = outcome_view d"
proof (cases "d_client d")
  case (Some at)
  obtain k d1 where sp: "next_split d = (k, d1)" by (cases "next_split d")
  have v1: "outcome_view d1 = outcome_view d"
    using sp by (auto simp: next_split_def outcome_view_def split: list.splits)
  obtain at2 d2 where se: "send_exit d1 (pump_ring k (d_ring d1) at) = (at2, d2)"
    by (cases "send_exit d1 (pump_ring k (d_ring d1) at)")
  have v2: "outcome_view d2 = outcome_view d1"
    using se by (auto simp: send_exit_def split: option.splits prod.splits dest: view_kept.now_eq)
  let ?d = "d2\<lparr>d_client := Some at2\<rparr>"
  obtain b d3 where rp: "repaint ?d = (b, d3)" by (cases "repaint ?d")
  have "outcome_view d3 = outcome_view ?d" using view_repaint [of ?d] rp by simp
  then show ?thesis
    using Some sp se v1 v2 rp
    by (simp add: pump_output_def settle_repaint_def view_kept.upd_client split: option.split)
qed (simp add: pump_output_def)

lemma settles_read_pty: "settles d (read_pty d)"
proof (cases "d_pty d")
  case (Some p)
  obtain r m where rd: "read_or_eof READ_BUF (master p) = (r, m)"
    by (cases "read_or_eof READ_BUF (master p)")
  let ?d = "d\<lparr>d_pty := Some (p\<lparr>master := m\<rparr>)\<rparr>"
  obtain t d1 where now: "d_now ?d = (t, d1)" by (cases "d_now ?d")
  have v: "outcome_view ?d = outcome_view d" using Some by (simp add: outcome_view_def)
  have v1: "d_outcome d1 = d_outcome d" "d_terminal_closed_at d1 = d_terminal_closed_at d"
    "d_pty d1 = Some (p\<lparr>master := m\<rparr>)"
    using now by (auto simp: d_now_def split: prod.splits)
  show ?thesis
  proof (cases r)
    case Eof
    then show ?thesis
      using Some rd now v1
      by (auto simp: read_pty_def on_terminal_closed_def Let_def settles_def outcome_view_def)
  next
    case (Failed e)
    have "outcome_view (reject Internal (msg ''terminal read failed'') ?d) = outcome_view d"
      using v view_kept.reject by simp
    then show ?thesis
      using Some rd Failed by (auto simp: read_pty_def Let_def outcome_view_def intro: settles_same)
  qed (use Some rd v in \<open>auto simp: read_pty_def Let_def outcome_view_def intro: settles_same\<close>)
qed (simp add: read_pty_def settles_refl)

lemma settles_start_session:
  assumes "d_pty d = None"
  shows "settles d (start_session h d)"
proof -
  define d1 where "d1 = (if agent_forward h
    then (case agent_bind (d_agent_path d) (d_agent_bound d) of Ok a \<Rightarrow> d\<lparr>d_agent := Some a\<rparr> | Err _ \<Rightarrow> d)
    else d)"
  have v: "outcome_view d1 = outcome_view d" by (simp add: d1_def view_kept.upds split: res.split)
  have eq: "start_session h d = (case pty_spawn (d_spawned d1) (win h) of
      Ok p \<Rightarrow> d1\<lparr>d_pty := Some p\<rparr>
    | Err _ \<Rightarrow> (reject Internal (msg ''failed to start the session shell'') d1)\<lparr>d_stop := Some StopShell\<rparr>)"
    by (simp only: start_session_def d1_def Let_def)
  show ?thesis
  proof (cases "pty_spawn (d_spawned d1) (win h)")
    case (Ok p)
    then have "observed p = False" by (auto simp: pty_spawn_def and_then_eq_Ok)
    then show ?thesis
      using assms v eq Ok by (auto simp: settles_def outcome_view_def)
  next
    case (Err e)
    have "outcome_view (reject Internal (msg ''failed to start the session shell'') d1) = outcome_view d"
      using v view_kept.reject by simp
    then show ?thesis using eq Err by (intro settles_same) (simp add: outcome_view_def)
  qed
qed

lemma settles_on_hello: "settles d (on_hello h d)"
proof -
  let ?d = "d\<lparr>d_win := win h, d_applied_win := None\<rparr>"
  define d1 where "d1 = (if d_pty ?d = None then start_session h ?d else ?d)"
  have v: "outcome_view ?d = outcome_view d" by (simp add: outcome_view_def)
  then have s1: "settles d d1"
    using settles_start_session [of ?d h] settles_same [of ?d d] settles_trans [of d ?d]
    by (auto simp: d1_def)
  have eq: "on_hello h d = (if d_pty d1 = None then d1 else
      let ok = \<lparr>resume_from = resume_point (out_offset h) (d_ring d1),
            in_applied = d_in_applied d1, agent = (d_agent d1 \<noteq> None)\<rparr>
      in tell_client (HelloOk ok) (case d_client d1 of None \<Rightarrow> d1 | Some at \<Rightarrow>
        d1\<lparr>d_client := Some (at\<lparr>sent_through := resume_from ok, at_ctrl_l := repaint_ctrl_l h,
          repaint_due := hello_ok_gap ok (out_offset h)\<rparr>)\<rparr>))"
    by (simp only: on_hello_def d1_def Let_def)
  have "outcome_view (on_hello h d) = outcome_view d1"
    unfolding eq by (simp add: Let_def view_kept.tell view_kept.upds split: option.split)
  then show ?thesis using s1 settles_same settles_trans by blast
qed

lemma view_pending [simp]:
  "outcome_view (d\<lparr>d_pending := p\<rparr>) = outcome_view d"
  "outcome_view (d\<lparr>d_client := c, d_pending := p\<rparr>) = outcome_view d"
  by (simp_all add: outcome_view_def)

lemma view_reject_pending: "outcome_view (reject_pending code m d) = outcome_view d"
  by (simp add: reject_pending_def outcome_view_def split: option.split prod.split)

lemma settles_greet: "settles d (greet h d)"
proof -
  define d1 where "d1 = (if d_client d \<noteq> None then read_client d else d)"
  let ?d3 = "(evict d1)\<lparr>d_client := map_option (\<lambda>(c, _). greeting c) (d_pending (evict d1)),
    d_pending := None\<rparr>"
  have v1: "outcome_view d1 = outcome_view d" by (simp add: d1_def view_kept.read_client)
  have "outcome_view ?d3 = outcome_view d"
    using v1 view_kept.evict [of d1] by (simp add: view_kept.upd_client)
  then have "settles d (on_hello h ?d3)"
    using settles_same [of ?d3 d] settles_on_hello settles_trans by blast
  then have "settles d (read_client (on_hello h ?d3))"
    using settles_same [OF view_kept.read_client] settles_trans by blast
  moreover have "greet h d =
      (if protocol h \<noteq> PROTOCOL_VERSION
       then reject_pending Version (msg ''protocol version mismatch'') d
       else if if_detached h \<and> d_client d1 \<noteq> None
       then reject_pending AlreadyAttached (msg ''another client is already attached'') d1
       else read_client (on_hello h ?d3))"
    by (simp only: greet_def d1_def Let_def)
  ultimately show ?thesis using v1 view_reject_pending by (simp add: settles_same)
qed

lemma settles_read_pending: "settles d (read_pending d)"
proof (cases "d_pending d")
  case (Some q)
  obtain c deadline where q: "q = (c, deadline)" by (cases q)
  obtain c1 r1 where fl: "fill READ_BUF c = (c1, r1)" by (cases "fill READ_BUF c")
  obtain c2 r2 where tf: "take_frame c1 = (c2, r2)" by (cases "take_frame c1")
  let ?d = "d\<lparr>d_pending := Some (c2, deadline)\<rparr>"
  have "settles d (greet h ?d)" for h
    using settles_same [of ?d d] settles_greet settles_trans by (metis view_pending(1))
  then show ?thesis
    using Some q fl tf view_reject_pending [of _ _ ?d]
    by (auto simp: read_pending_def Let_def intro: settles_same
        split: res.split option.split frame.split)
qed (simp add: read_pending_def settles_refl)

lemma view_accept: "outcome_view (accept d) = outcome_view d"
proof -
  have "outcome_view d' = outcome_view (d\<lparr>d_listener := s\<rparr>)"
    if "d_now (d\<lparr>d_listener := s\<rparr>) = (t, d')" for s t d'
    using view_kept.now_eq [OF that] .
  moreover have "outcome_view (d'\<lparr>d_accept_retry := at\<rparr>) = outcome_view d'" for at d'
    by (simp add: outcome_view_def)
  moreover have "outcome_view (d\<lparr>d_listener := s\<rparr>) = outcome_view d" for s
    by (simp add: outcome_view_def)
  moreover have "outcome_view (d\<lparr>d_listener := s, d_pending := p\<rparr>) = outcome_view d" for s p
    by (simp add: outcome_view_def)
  ultimately show ?thesis
    by (auto simp: accept_def Let_def split: prod.split res.split)
qed

lemma try_outcome_observed:
  assumes "try_outcome p = (p', r)"
  shows "observed p \<Longrightarrow> p' = p \<and> r = Ok None"
    and "observed p' = (observed p \<or> (\<exists>o'. r = Ok (Some o')))"
    and "r = Ok (Some o') \<Longrightarrow> snd o' \<noteq> Unknown"
proof -
  have "snd (outcome_of st) \<noteq> Unknown" for st by (cases st) simp_all
  then show "observed p \<Longrightarrow> p' = p \<and> r = Ok None"
    and "observed p' = (observed p \<or> (\<exists>o'. r = Ok (Some o')))"
    and "r = Ok (Some o') \<Longrightarrow> snd o' \<noteq> Unknown"
    using assms
    by (auto simp: try_outcome_def Let_def split: if_splits prod.splits res.splits option.splits)
qed

lemma settles_collect: "settles d (collect_outcome d)"
proof -
  obtain d1 found where ob: "observe_child d = (d1, found)" by (cases "observe_child d")
  have d1: "view_ok (outcome_view d) \<Longrightarrow>
      (d_outcome d \<noteq> None \<longrightarrow> d_outcome d1 = d_outcome d) \<and>
      d_terminal_closed_at d1 = d_terminal_closed_at d \<and>
      (d_pty d = None \<longrightarrow> d1 = d \<and> found = None) \<and>
      (d_pty d1 = None \<longleftrightarrow> d_pty d = None) \<and>
      (found = None \<longrightarrow> view_ok (outcome_view d1)) \<and>
      (found \<noteq> None \<longrightarrow> d_outcome d1 = d_outcome d \<and>
        (d_outcome d = None \<or> d_outcome d = Some (0, Unknown)) \<and>
        (\<exists>p. d_pty d1 = Some p \<and> observed p))"
  proof -
    assume ok: "view_ok (outcome_view d)"
    show ?thesis
    proof (cases "worth_a_waitpid d \<and> d_pty d \<noteq> None")
      case False
      then have "d1 = d" "found = None" using ob by (auto simp: observe_child_def split: if_splits)
      then show ?thesis using ok by auto
    next
      case True
      then obtain p where p: "d_pty d = Some p" by auto
      obtain p' r where t: "try_outcome p = (p', r)" by (cases "try_outcome p")
      note tr = try_outcome_observed [OF t]
      show ?thesis
        using True p t tr(1,2) ob ok
        by (auto simp: observe_child_def outcome_view_def Let_def split: res.splits if_splits)
    qed
  qed
  let ?d = "d1\<lparr>d_child_signalled := False\<rparr>"
  obtain now d2 where now: "d_now ?d = (now, d2)" by (cases "d_now ?d")
  have d2: "d_outcome d2 = d_outcome d1" "d_terminal_closed_at d2 = d_terminal_closed_at d1"
    "d_pty d2 = d_pty d1"
    using now by (auto simp: d_now_def split: prod.splits)
  have eq: "collect_outcome d =
      (if d_outcome d1 \<noteq> None then ?d
       else case found of Some r \<Rightarrow> ?d\<lparr>d_outcome := Some r\<rparr>
         | None \<Rightarrow> (case d_terminal_closed_at d1 of None \<Rightarrow> ?d
             | Some t \<Rightarrow> if OUTCOME_GRACE \<le> now - t then d2\<lparr>d_outcome := Some (0, Unknown)\<rparr> else d2))"
    using ob now by (simp add: collect_outcome_def Let_def split: option.split)
  show ?thesis
    unfolding settles_def
  proof (intro impI)
    assume ok: "view_ok (outcome_view d)"
    note d1 = d1 [OF ok]
    have "d_terminal_closed_at d = None" if "d_pty d = None"
      using ok that by (simp add: outcome_view_def)
    then show "view_ok (outcome_view (collect_outcome d)) \<and>
        (d_outcome d \<noteq> None \<longrightarrow> d_outcome (collect_outcome d) = d_outcome d)"
      unfolding eq using d1 d2
      by (cases "d_outcome d1"; cases found; cases "d_terminal_closed_at d") (auto simp: outcome_view_def)
  qed
qed

lemma view_expire: "outcome_view (expire_deadlines d) = outcome_view d"
proof -
  obtain now d1 where now: "d_now d = (now, d1)" by (cases "d_now d")
  define d2 where "d2 = d1\<lparr>d_accept_retry := expire (d_accept_retry d1) now,
      d_agent_accept_retry := expire (d_agent_accept_retry d1) now,
      d_pending := (case d_pending d1 of
          Some (c, at) \<Rightarrow> if at \<le> now then None else Some (c, at) | None \<Rightarrow> None)\<rparr>"
  have "outcome_view d2 = outcome_view d1" by (simp add: d2_def outcome_view_def)
  then have v: "outcome_view d2 = outcome_view d" using view_kept.now_eq [OF now] by simp
  have "expire_deadlines d = (case d_agent d2 of None \<Rightarrow> d2 | Some a \<Rightarrow>
      (case close_if_idle now a of (a, g) \<Rightarrow>
         case g of None \<Rightarrow> d2\<lparr>d_agent := Some a\<rparr>
         | Some g \<Rightarrow> tell_client (AgentClose g) (d2\<lparr>d_agent := Some a\<rparr>)))"
    by (simp only: expire_deadlines_def now d2_def Let_def prod.case)
  then show ?thesis
    using v by (simp add: view_kept.tell view_kept.upds split: option.split prod.split)
qed

lemma view_timeout: "outcome_view (snd (poll_timeout d)) = outcome_view d"
  by (auto simp: poll_timeout_def d_now_def outcome_view_def
      split: prod.splits option.split list.split)

lemma view_wait: "outcome_view (snd (wait answer d)) = outcome_view d"
proof -
  obtain t d1 where pt: "poll_timeout (expire_deadlines d) = (t, d1)"
    by (cases "poll_timeout (expire_deadlines d)")
  then have "outcome_view d1 = outcome_view d"
    using view_timeout [of "expire_deadlines d"] view_expire [of d] by simp
  then show ?thesis using pt by (simp add: wait_def Let_def split: os_poll.split)
qed

lemma settles_if: "settles d d1 \<Longrightarrow> (\<And>x. settles x (f x)) \<Longrightarrow> settles d (if b then f d1 else d1)"
  using settles_trans by auto

lemma settles_poll_once: "settles d (poll_once revents d)"
proof -
  have signals: "settles d (note_signals revents d)"
    by (rule settles_same) (simp add: note_signals_def Let_def outcome_view_def)
  have same: "settles x (read_client x)" "settles x (drop_client x)" "settles x (accept x)"
    "settles x (service_agent_channel e x)" "settles x (accept_agent x)" "settles x (apply_win x)"
    "settles x (write_pty x)" "settles x (pump_output x)" "settles x (write_client x)" for x e
    by (simp_all add: settles_same view_kept.read_client view_kept.drop_client view_accept
        view_kept.service_agent view_kept.accept_agent view_apply_win view_write_pty view_pump
        view_kept.write_client)
  show ?thesis
    unfolding poll_once_def Let_def
    by (intro settles_trans [OF _ same(9)] settles_trans [OF _ same(8)] settles_trans [OF _ settles_collect]
        settles_if settles_trans [OF _ same(7)] settles_trans [OF _ same(6)] signals same
        settles_read_pty settles_read_pending)
qed

lemma settles_pass: "settles d (pass answer d)"
proof -
  have "settles d (snd (wait answer d))" by (rule settles_same) (rule view_wait)
  then show ?thesis
    using settles_trans [OF _ settles_poll_once]
    by (auto simp: pass_def split: prod.split res.split)
qed

lemma settles_event_loop: "settles d (snd (event_loop answers d))"
proof (induction answers d rule: event_loop.induct)
  case (1 answers d)
  obtain why d1 where st: "stop_reason d = (why, d1)" by (cases "stop_reason d")
  have d1: "settles d d1"
    using st by (intro settles_same)
      (auto simp: stop_reason_def split: option.splits prod.splits dest: view_kept.now_eq)
  show ?case
  proof (cases "why = None \<and> answers \<noteq> []")
    case False
    then show ?thesis using st d1 by (cases answers; cases why) (auto split: option.splits)
  next
    case True
    then obtain a as where as: "answers = a # as" "why = None" by (cases answers) auto
    obtain r d2 where w: "wait a d1 = (r, d2)" by (cases "wait a d1")
    have d2: "settles d d2"
      using d1 settles_same [of d2 d1] view_wait [of a d1] w settles_trans by auto
    show ?thesis
    proof (cases r)
      case (Ok revents)
      have "settles (poll_once revents d2) (snd (event_loop as (poll_once revents d2)))"
        using "1.IH" [OF st [symmetric] as(2) as(1) w [symmetric] Ok] .
      then have "settles d (snd (event_loop as (poll_once revents d2)))"
        using d2 settles_poll_once settles_trans by blast
      then show ?thesis using st as w Ok by simp
    next
      case (Err e)
      then show ?thesis using st as w d2 by simp
    qed
  qed
qed

text \<open>
  The outcome reported for the child is final: no run of the daemon, whatever \<open>waitid\<close>
  answers later, replaces an outcome once recorded -- neither a real one by \<open>Unknown\<close> nor the
  other way round -- and a real one is only ever recorded off an observed child.
\<close>

theorem outcome_is_final:
  assumes "view_ok (outcome_view d)"
  shows "view_ok (outcome_view (daemon_new r env)) \<and>
    view_ok (outcome_view (snd (event_loop answers d))) \<and>
    (d_outcome d \<noteq> None \<longrightarrow> d_outcome (snd (event_loop answers d)) = d_outcome d)"
proof -
  have "view_ok (outcome_view (daemon_new r env))"
    by (simp add: daemon_new_def outcome_view_def d_now_def Let_def split: prod.split)
  then show ?thesis using settles_event_loop [of d answers] assms by (auto simp: settles_def)
qed

theorem outcome_is_final_witness:
  "\<forall>env p answers. d_outcome (snd (event_loop answers (env\<lparr>d_pty := Some (p\<lparr>observed := True\<rparr>),
     d_terminal_closed_at := Some 4, d_outcome := Some (7, Exited)\<rparr>))) = Some (7, Exited)"
proof (intro allI)
  fix env :: daemon and p :: pty and answers :: "os_poll list"
  let ?d = "env\<lparr>d_pty := Some (p\<lparr>observed := True\<rparr>), d_terminal_closed_at := Some 4,
      d_outcome := Some (7, Exited)\<rparr>"
  have "view_ok (outcome_view ?d)" by (simp add: outcome_view_def)
  from outcome_is_final [OF this, of undefined env answers]
  show "d_outcome (snd (event_loop answers ?d)) = Some (7, Exited)" by simp
qed

section \<open>Deadlines\<close>

lemma d_now_clock: "d_now d = (t, d') \<Longrightarrow> fst (d_clock d) \<le> t \<and> fst (d_clock d') = t"
  by (auto simp: d_now_def split: prod.splits dest: clock_now_mono)

lemma foldl_min_head: "foldl min a as \<le> (a :: nat)"
proof (induction as arbitrary: a)
  case (Cons b as)
  show ?case using Cons.IH [of "min a b"] by simp
qed simp

lemma foldl_min_le: "x \<in> set (a # as) \<Longrightarrow> foldl min a as \<le> (x :: nat)"
proof (induction as arbitrary: a)
  case (Cons b as)
  show ?case
  proof (cases "x = a \<or> x = b")
    case True
    then show ?thesis using foldl_min_head [of "min a b" as] by auto
  next
    case False
    then show ?thesis using Cons.IH [of "min a b"] Cons.prems by auto
  qed
qed simp

definition resize_outstanding :: "daemon \<Rightarrow> bool" where
  "resize_outstanding d \<longleftrightarrow> d_pty d \<noteq> None \<and> d_client d \<noteq> None \<and> d_terminal_closed_at d = None \<and>
     d_applied_win d \<noteq> Some (d_win d)"

lemma in_map_filter_id: "x \<in> set (List.map_filter id os) \<longleftrightarrow> Some x \<in> set os"
  by (induction os) (auto simp: map_filter_simps split: option.splits)

lemma in_poll_deadlines:
  "x \<in> set (poll_deadlines now d) \<longleftrightarrow> Some x \<in> {d_accept_retry d, d_agent_accept_retry d,
     map_option snd (d_pending d), (case d_agent d of None \<Rightarrow> None | Some a \<Rightarrow> agent_deadline a),
     (if d_outcome d = None then map_option (\<lambda>t. t + OUTCOME_GRACE) (d_terminal_closed_at d) else None),
     (if resize_outstanding d then Some (now + RESIZE_RETRY) else None)}"
  by (simp only: poll_deadlines_def in_map_filter_id resize_outstanding_def list.set)

lemma d_now_deadlines:
  assumes "d_now d = (t, d')"
  shows "poll_deadlines now d' = poll_deadlines now d" "resize_outstanding d' = resize_outstanding d"
proof -
  have "d' = d\<lparr>d_clock := d_clock d'\<rparr>" using assms by (auto simp: d_now_def split: prod.splits)
  moreover have "poll_deadlines now (d\<lparr>d_clock := ck\<rparr>) = poll_deadlines now d"
    "resize_outstanding (d\<lparr>d_clock := ck\<rparr>) = resize_outstanding d" for ck
    by (cases d, simp only: poll_deadlines_def resize_outstanding_def daemon.select_convs
        daemon.update_convs)+
  ultimately show "poll_deadlines now d' = poll_deadlines now d"
    "resize_outstanding d' = resize_outstanding d" by metis+
qed

lemma poll_timeout_parts:
  "\<exists>rem d1 now d2. (rem, d1) = (case detach_deadline d of None \<Rightarrow> (IDLE_TICK, d)
      | Some at \<Rightarrow> (case d_now d of (now, d) \<Rightarrow> (min (at - now) IDLE_TICK, d))) \<and>
    (now, d2) = (if resize_outstanding d1 then d_now d1 else (0, d1)) \<and>
    poll_timeout d = (case poll_deadlines now d2 of [] \<Rightarrow> (rem, d2)
      | at # ats \<Rightarrow> (case d_now d2 of (now, d) \<Rightarrow> (min rem (foldl min at ats - now), d)))"
proof -
  obtain rem d1 where p: "(case detach_deadline d of None \<Rightarrow> (IDLE_TICK, d)
      | Some at \<Rightarrow> (case d_now d of (now, d) \<Rightarrow> (min (at - now) IDLE_TICK, d))) = (rem, d1)"
    by (cases "case detach_deadline d of None \<Rightarrow> (IDLE_TICK, d)
      | Some at \<Rightarrow> (case d_now d of (now, d) \<Rightarrow> (min (at - now) IDLE_TICK, d))")
  obtain now d2 where q: "(if resize_outstanding d1 then d_now d1 else (0, d1)) = (now, d2)"
    by (cases "if resize_outstanding d1 then d_now d1 else (0, d1)")
  have "poll_timeout d = (case poll_deadlines now d2 of [] \<Rightarrow> (rem, d2)
      | at # ats \<Rightarrow> (case d_now d2 of (now, d) \<Rightarrow> (min rem (foldl min at ats - now), d)))"
    unfolding poll_timeout_def p prod.case resize_outstanding_def [symmetric] q ..
  then show ?thesis
    by (intro exI [of _ rem] exI [of _ d1] exI [of _ now] exI [of _ d2] conjI
        p [symmetric] q [symmetric])
qed

text \<open>
  The loop wakes for everything it has to do: the time it may sleep never exceeds the idle
  tick, nor what is left -- counted from before the timeout is computed -- to the reaping of a
  clientless session, to either listener's return to the poll set, to the pending connection's
  \<open>Hello\<close>, to the agent channel's deadline, or to the report of an unknown outcome; and while a
  size is still to be given to the terminal it is at most the resize retry.
\<close>

theorem poll_wakes_in_time:
  assumes "Some at \<in> {detach_deadline d, d_accept_retry d, d_agent_accept_retry d,
      map_option snd (d_pending d),
      (case d_agent d of None \<Rightarrow> None | Some a \<Rightarrow> agent_deadline a),
      (if d_outcome d = None then map_option (\<lambda>t. t + OUTCOME_GRACE) (d_terminal_closed_at d) else None)}"
  shows "fst (poll_timeout d) \<le> IDLE_TICK \<and> fst (poll_timeout d) \<le> at - fst (d_clock d) \<and>
    (resize_outstanding d \<longrightarrow> fst (poll_timeout d) \<le> RESIZE_RETRY)"
proof -
  obtain rem d1 now d2 where
    p: "(rem, d1) = (case detach_deadline d of None \<Rightarrow> (IDLE_TICK, d)
      | Some at \<Rightarrow> (case d_now d of (now, d) \<Rightarrow> (min (at - now) IDLE_TICK, d)))"
    and q: "(now, d2) = (if resize_outstanding d1 then d_now d1 else (0, d1))"
    and eq: "poll_timeout d = (case poll_deadlines now d2 of [] \<Rightarrow> (rem, d2)
      | at # ats \<Rightarrow> (case d_now d2 of (now, d) \<Rightarrow> (min rem (foldl min at ats - now), d)))"
    using poll_timeout_parts [of d] by blast
  have rem: "rem \<le> IDLE_TICK" "\<And>t. detach_deadline d = Some t \<Longrightarrow> rem \<le> t - fst (d_clock d)"
    using p by (auto split: option.splits prod.splits dest!: d_now_clock)
  have c1: "fst (d_clock d) \<le> fst (d_clock d1)"
    and pd1: "\<And>n. poll_deadlines n d1 = poll_deadlines n d"
    and ro: "resize_outstanding d1 = resize_outstanding d"
    using p d_now_clock d_now_deadlines by (force split: option.splits prod.splits)+
  have c2: "fst (d_clock d1) \<le> fst (d_clock d2)" and pd2: "\<And>n. poll_deadlines n d2 = poll_deadlines n d"
    and now: "resize_outstanding d \<Longrightarrow> now = fst (d_clock d2)"
    using q ro pd1 d_now_clock [of d1 now d2] d_now_deadlines(1) [of d1 now d2]
    by (auto split: if_splits)
  have le: "fst (poll_timeout d) \<le> rem"
    unfolding eq by (auto split: list.split prod.split)
  have listed: "fst (poll_timeout d) \<le> t - fst (d_clock d2)"
    if t: "t \<in> set (poll_deadlines now d)" for t
  proof -
    obtain a as where as: "poll_deadlines now d2 = a # as"
      using t pd2 by (cases "poll_deadlines now d2") auto
    obtain n d3 where n: "d_now d2 = (n, d3)" by (cases "d_now d2")
    have "foldl min a as \<le> t" using t as pd2 by (intro foldl_min_le) simp
    moreover have "fst (d_clock d2) \<le> n" using d_now_clock [OF n] by simp
    ultimately show ?thesis unfolding eq using as n by auto
  qed
  have "fst (poll_timeout d) \<le> at - fst (d_clock d)"
  proof (cases "detach_deadline d = Some at")
    case True
    then show ?thesis using le rem(2) [OF True] by simp
  next
    case False
    then have "at \<in> set (poll_deadlines now d)"
      using assms unfolding in_poll_deadlines by auto
    then show ?thesis using listed [of at] c1 c2 by linarith
  qed
  moreover have "fst (poll_timeout d) \<le> RESIZE_RETRY" if "resize_outstanding d"
  proof -
    have "now + RESIZE_RETRY \<in> set (poll_deadlines now d)"
      using that by (simp add: in_poll_deadlines)
    then show ?thesis using listed [of "now + RESIZE_RETRY"] now [OF that] by simp
  qed
  ultimately show ?thesis using le rem(1) by simp
qed

theorem poll_wakes_in_time_witness:
  "\<forall>env. fst (poll_timeout (env\<lparr>d_clock := (secs 3, [millis 1]), d_accept_retry := Some (secs 4)\<rparr>)) \<le> secs 1"
proof
  fix env :: daemon
  let ?d = "env\<lparr>d_clock := (secs 3, [millis 1]), d_accept_retry := Some (secs 4)\<rparr>"
  have "fst (poll_timeout ?d) \<le> secs 4 - fst (d_clock ?d)"
    using poll_wakes_in_time [of "secs 4" ?d] by simp
  then show "fst (poll_timeout ?d) \<le> secs 1" by (simp add: secs_def)
qed

section \<open>Stopping\<close>

text \<open>What a stopping daemon holds to: its reason, and the listener nobody is taken from.\<close>

definition stop_view :: "daemon \<Rightarrow> stop_why option \<times> os_accept list" where
  "stop_view d = (d_stop d, d_listener d)"

interpretation stopping: untouched stop_view
  by unfold_locales (simp_all add: stop_view_def)

lemma stopping_read_pty:
  assumes "d_stop d \<noteq> None"
  shows "stop_view (read_pty d) = stop_view d"
proof (cases "d_pty d")
  case (Some p)
  obtain r m where rd: "read_or_eof READ_BUF (master p) = (r, m)"
    by (cases "read_or_eof READ_BUF (master p)")
  let ?d = "d\<lparr>d_pty := Some (p\<lparr>master := m\<rparr>)\<rparr>"
  obtain t d1 where now: "d_now ?d = (t, d1)" by (cases "d_now ?d")
  have v: "stop_view ?d = stop_view d" "stop_view d1 = stop_view ?d"
    using stopping.now_eq [OF now] by (simp_all add: stop_view_def)
  have e: "stop_view (reject Internal (msg ''terminal read failed'') ?d) = stop_view d"
    using v stopping.reject by simp
  show ?thesis
    using Some rd now v e assms
    by (cases r) (auto simp: read_pty_def on_terminal_closed_def stop_view_def Let_def)
qed (simp add: read_pty_def)

lemma stopping_collect: "stop_view (collect_outcome d) = stop_view d"
proof -
  obtain d1 found where ob: "observe_child d = (d1, found)" by (cases "observe_child d")
  have v1: "stop_view d1 = stop_view d"
    using ob by (auto simp: observe_child_def stop_view_def Let_def
        split: if_splits option.splits prod.splits res.splits)
  let ?d = "d1\<lparr>d_child_signalled := False\<rparr>"
  obtain now d2 where now: "d_now ?d = (now, d2)" by (cases "d_now ?d")
  have "stop_view d2 = stop_view d1" using stopping.now_eq [OF now] by (simp add: stop_view_def)
  then show ?thesis
    using ob now v1
    by (auto simp: collect_outcome_def Let_def stop_view_def split: option.split)
qed

lemma stopping_pump: "stop_view (pump_output d) = stop_view d"
proof (cases "d_client d")
  case (Some at)
  obtain k d1 where sp: "next_split d = (k, d1)" by (cases "next_split d")
  have v1: "stop_view d1 = stop_view d"
    using sp by (auto simp: next_split_def stop_view_def split: list.splits)
  obtain at2 d2 where se: "send_exit d1 (pump_ring k (d_ring d1) at) = (at2, d2)"
    by (cases "send_exit d1 (pump_ring k (d_ring d1) at)")
  have v2: "stop_view d2 = stop_view d1"
    using se by (auto simp: send_exit_def split: option.splits prod.splits dest: stopping.now_eq)
  let ?d = "d2\<lparr>d_client := Some at2\<rparr>"
  obtain b d3 where rp: "repaint ?d = (b, d3)" by (cases "repaint ?d")
  then have "stop_view d3 = stop_view ?d"
    by (auto simp: repaint_def stop_view_def Let_def split: if_splits option.splits prod.splits)
  then show ?thesis
    using Some sp se v1 v2 rp
    by (simp add: pump_output_def settle_repaint_def stopping.upd_client split: option.split)
qed (simp add: pump_output_def)

text \<open>A chain of \<open>let\<close>s read one at a time, keeping only what is known of each value.\<close>

lemma let_step: "P a \<Longrightarrow> (\<And>x. P x \<Longrightarrow> Q (f x)) \<Longrightarrow> Q (let x = a in f x)"
  by (simp add: Let_def)

lemma stop_view_stop: "stop_view x = v \<Longrightarrow> fst v \<noteq> None \<Longrightarrow> d_stop x \<noteq> None"
  by (auto simp: stop_view_def)

lemma stopping_terminal:
  "stop_view (write_pty d) = stop_view d" "stop_view (apply_win d) = stop_view d"
  by (simp_all add: stop_view_def write_pty_def apply_win_def split: option.split prod.split)

lemma stopping_poll_once:
  assumes v: "stop_view (note_signals revents d) = v" and on: "fst v \<noteq> None"
  shows "stop_view (poll_once revents d) = v"
proof -
  let ?P = "\<lambda>x. stop_view x = v"
  note step = let_step [where P = ?P]
  have stop: "(d_stop x = None) = False" if "?P x" for x
    using stop_view_stop [OF that on] by simp
  show ?thesis
    unfolding poll_once_def
    apply (rule step, rule v)
    apply (rule let_step [where P = "\<lambda>_. True"], rule TrueI)
    apply (rule step, simp add: stopping_read_pty stop_view_stop [OF _ on])
    apply (rule step, simp add: stopping.read_client)
    apply (rule step, simp add: stopping.drop_client)
    apply (rule let_step [where P = "\<lambda>b. b = False"], rule stop, assumption)
    apply (rule step, simp)
    apply (rule step, simp)
    apply (rule let_step [where P = "\<lambda>_. True"], rule TrueI)
    apply (rule step, simp add: stopping.service_agent)
    apply (rule step, simp add: stop)
    apply (rule step, simp add: stopping_terminal)
    apply (rule step, simp add: stopping_terminal)
    apply (rule step, simp add: stopping.read_client)
    apply (rule step, simp add: stopping_collect)
    apply (rule step, simp add: stopping_pump)
    apply (simp add: stopping.write_client)
    done
qed

text \<open>
  C16. A stop ends the session without taking anybody new: on a pass that sees the stop pipe or
  already had a reason, no connection leaves the listener's backlog, a reason already recorded
  is kept (a signal never overwrites it), and the loop ends right behind the pass.
\<close>

theorem stop_takes_nobody:
  assumes "readable (revents SrcStop) \<or> d_stop d \<noteq> None"
  shows "d_listener (poll_once revents d) = d_listener d \<and>
    d_stop (poll_once revents d) = (if d_stop d = None then Some StopSignalled else d_stop d) \<and>
    event_loop answers (poll_once revents d) = (Some (Ok ()), poll_once revents d)"
proof -
  have "stop_view (note_signals revents d)
      = (if d_stop d = None then Some StopSignalled else d_stop d, d_listener d)"
    using assms by (auto simp: note_signals_def stop_view_def Let_def)
  from stopping_poll_once [OF this]
  have "stop_view (poll_once revents d)
      = (if d_stop d = None then Some StopSignalled else d_stop d, d_listener d)"
    by (simp split: if_split)
  then have f: "d_listener (poll_once revents d) = d_listener d"
    "d_stop (poll_once revents d) = (if d_stop d = None then Some StopSignalled else d_stop d)"
    by (simp_all add: stop_view_def)
  then obtain why where "d_stop (poll_once revents d) = Some why" by (cases "d_stop d") auto
  then have "event_loop answers (poll_once revents d) = (Some (Ok ()), poll_once revents d)"
    by (simp add: stop_reason_def)
  then show ?thesis using f by simp
qed

theorem stop_takes_nobody_witness:
  "\<forall>env. d_listener (poll_once (\<lambda>s. if s = SrcStop \<or> s = SrcListener then {PIN} else {})
     (env\<lparr>d_listener := [AcErr ECONNRESET]\<rparr>)) = [AcErr ECONNRESET]"
proof
  fix env :: daemon
  let ?revents = "\<lambda>s. if s = SrcStop \<or> s = SrcListener then {PIN} else {}"
  have "readable (?revents SrcStop)" by (simp add: readable_def)
  then show "d_listener (poll_once ?revents (env\<lparr>d_listener := [AcErr ECONNRESET]\<rparr>)) = [AcErr ECONNRESET]"
    using stop_takes_nobody [of ?revents "env\<lparr>d_listener := [AcErr ECONNRESET]\<rparr>"] by simp
qed

end
