(* ===== verification/Pty_Props.thy ===== *)
theory Pty_Props
  imports Pty
begin

text \<open>
  The teardown of a session, \<open>Pty::terminate\<close> of src/crates/nomux/src/pty.rs: whom it signals, in
  which order, and when it escalates.
\<close>

section \<open>What a teardown may send\<close>

text \<open>
  An entry of \<open>/proc\<close> shows a process of the session: its name is the pid, its \<open>stat\<close> says so, and
  the \<open>stat\<close> read behind its pidfd says so again.
\<close>

definition shown_by :: "int \<Rightarrow> int \<Rightarrow> proc_entry \<Rightarrow> bool" where
  "shown_by sid pid e \<longleftrightarrow>
     (case pe_name e of None \<Rightarrow> False | Some name \<Rightarrow> parse_i32 (map unat name) = Some pid) \<and>
     membership sid (pe_stat e) = In \<and> pinned_member sid pid e"

definition snapshot_shows :: "int \<Rightarrow> int \<Rightarrow> snapshot \<Rightarrow> bool" where
  "snapshot_shows sid pid snap =
     (case snap of None \<Rightarrow> False | Some entries \<Rightarrow> list_ex (shown_by sid pid) entries)"

fun in_session :: "int \<Rightarrow> int \<Rightarrow> snapshot list \<Rightarrow> reach \<times> pty_signal \<Rightarrow> bool" where
  "in_session self sid snaps (ReachGroup g, sig) \<longleftrightarrow> g = sid"
| "in_session self sid snaps (ReachPinned pid, sig) \<longleftrightarrow>
     pid \<noteq> self \<and> list_ex (snapshot_shows sid pid) snaps"

text \<open>The order of the escalation.\<close>

fun stage :: "reach \<times> pty_signal \<Rightarrow> nat" where
  "stage (ReachGroup _, SigHup) = 0"
| "stage (ReachGroup _, SigCont) = 1"
| "stage (ReachPinned _, SigHup) = 2"
| "stage (ReachPinned _, SigCont) = 3"
| "stage (ReachGroup _, SigKill) = 4"
| "stage (ReachPinned _, SigKill) = 5"

text \<open>What happened between two terminals: signals of the stages from \<open>lo\<close> to \<open>hi\<close>, in order.\<close>

definition sends :: "int \<Rightarrow> nat \<Rightarrow> nat \<Rightarrow> pty \<Rightarrow> pty \<Rightarrow> bool" where
  "sends self lo hi p p' \<longleftrightarrow>
     child p' = child p \<and> set (walks p') \<subseteq> set (walks p) \<and>
     (\<exists>sent. reached p' = reached p @ sent \<and> list_all (in_session self (child p) (walks p)) sent \<and>
        sorted (map stage sent) \<and> (\<forall>r \<in> set sent. lo \<le> stage r \<and> stage r \<le> hi))"

text \<open>A step that only looks.\<close>

definition silent :: "pty \<Rightarrow> pty \<Rightarrow> bool" where
  "silent p p' \<longleftrightarrow>
     child p' = child p \<and> set (walks p') \<subseteq> set (walks p) \<and> reached p' = reached p"

lemma in_session_mono:
  "in_session self sid snaps r \<Longrightarrow> set snaps \<subseteq> set snaps' \<Longrightarrow> in_session self sid snaps' r"
  by (cases "(self, sid, snaps, r)" rule: in_session.cases) (auto simp: list_ex_iff)

lemma silent_refl: "silent p p"
  by (simp add: silent_def)

lemma silent_trans: "silent p p' \<Longrightarrow> silent p' p'' \<Longrightarrow> silent p p''"
  by (auto simp: silent_def)

lemma silent_sends: "silent p p' \<Longrightarrow> sends self lo hi p p'"
  by (simp add: silent_def sends_def)

lemma silent_then_sends: "silent p p' \<Longrightarrow> sends self lo hi p' p'' \<Longrightarrow> sends self lo hi p p''"
  by (fastforce simp: silent_def sends_def list_all_iff intro: in_session_mono)

lemma sends_then_silent: "sends self lo hi p p' \<Longrightarrow> silent p' p'' \<Longrightarrow> sends self lo hi p p''"
  by (auto simp: silent_def sends_def)

lemma sends_trans:
  assumes "sends self lo m p p'" and "sends self m' hi p' p''" and "m \<le> m'" "lo \<le> m'" "m \<le> hi"
  shows "sends self lo hi p p''"
proof -
  obtain s where s: "reached p' = reached p @ s" "list_all (in_session self (child p) (walks p)) s"
    "sorted (map stage s)" "\<forall>r \<in> set s. lo \<le> stage r \<and> stage r \<le> m"
    using assms(1) by (auto simp: sends_def)
  obtain t where t: "reached p'' = reached p' @ t"
    "list_all (in_session self (child p') (walks p')) t"
    "sorted (map stage t)" "\<forall>r \<in> set t. m' \<le> stage r \<and> stage r \<le> hi"
    using assms(2) by (auto simp: sends_def)
  have w: "child p' = child p" "child p'' = child p'" "set (walks p') \<subseteq> set (walks p)"
    "set (walks p'') \<subseteq> set (walks p')"
    using assms by (simp_all add: sends_def)
  have "list_all (in_session self (child p) (walks p)) t"
    using t(2) w(1,3) by (auto simp: list_all_iff intro: in_session_mono)
  moreover have "sorted (map stage (s @ t))"
    using s(3,4) t(3,4) assms(3) by (fastforce simp: sorted_append)
  moreover have "\<forall>r \<in> set (s @ t). lo \<le> stage r \<and> stage r \<le> hi"
    using s(4) t(4) assms(4,5) by fastforce
  ultimately show ?thesis
    unfolding sends_def using s(1,2) t(1) w
    by (intro conjI exI [of _ "s @ t"]) auto
qed

section \<open>The steps\<close>

lemma sends_group:
  "stage (ReachGroup 0, sig) = k \<Longrightarrow> lo \<le> k \<Longrightarrow> k \<le> hi \<Longrightarrow>
     sends self lo hi p (pty_reach (ReachGroup (child p)) sig p)"
  by (cases sig) (auto simp: sends_def pty_reach_def)

lemma group_alive_silent: "group_alive p = (a, p') \<Longrightarrow> silent p p'"
  by (auto simp: group_alive_def silent_def split: list.splits)

lemma next_walk_silent:
  "next_walk p = (snap, p') \<Longrightarrow>
     silent p p' \<and> (snap \<noteq> None \<longrightarrow> snap \<in> set (walks p))"
  by (auto simp: next_walk_def silent_def split: list.splits)

lemma session_is_empty_silent:
  "session_is_empty self deadline (p, ck) = (b, p', ck') \<Longrightarrow> silent p p'"
  by (auto simp: session_is_empty_def dest!: next_walk_silent split: prod.splits)

text \<open>A walk that signals: every process it reaches is shown by an entry it met.\<close>

lemma walk_entries_signals:
  assumes "walk_entries self sid True deadline
      (\<lambda>pid pinned p. (True, if pinned then pty_reach (ReachPinned pid) sig p else p))
      complete es (p, ck) = (r, p', ck')"
    and "set es \<subseteq> set met"
  shows "\<exists>pids. reached p' = reached p @ map (\<lambda>pid. (ReachPinned pid, sig)) pids \<and>
    walks p' = walks p \<and> child p' = child p \<and>
    list_all (\<lambda>pid. pid \<noteq> self \<and> list_ex (shown_by sid pid) met) pids"
  using assms
proof (induction es arbitrary: complete p ck)
  case Nil
  then show ?case by (auto intro: exI [of _ "[]"])
next
  case (Cons e es)
  let ?goal = "\<lambda>p. \<exists>pids. reached p' = reached p @ map (\<lambda>pid. (ReachPinned pid, sig)) pids \<and>
    walks p' = walks p \<and> child p' = child p \<and>
    list_all (\<lambda>pid. pid \<noteq> self \<and> list_ex (shown_by sid pid) met) pids"
  have e: "e \<in> set met" using Cons.prems(2) by simp
  have step: "?goal p" if new: "pid \<noteq> self" "shown_by sid pid e"
    "?goal (pty_reach (ReachPinned pid) sig p)" for pid
  proof -
    obtain pids where "reached p' = reached (pty_reach (ReachPinned pid) sig p) @
        map (\<lambda>pid. (ReachPinned pid, sig)) pids"
      "walks p' = walks (pty_reach (ReachPinned pid) sig p)"
      "child p' = child (pty_reach (ReachPinned pid) sig p)"
      "list_all (\<lambda>pid. pid \<noteq> self \<and> list_ex (shown_by sid pid) met) pids"
      using new(3) by blast
    then show ?thesis
      using new(1,2) e by (intro exI [of _ "pid # pids"]) (auto simp: pty_reach_def list_ex_iff)
  qed
  have skip: "?goal p" if "p' = p"
    using that by (auto intro: exI [of _ "[]"])
  obtain late ck1 where pd: "past deadline ck = (late, ck1)" by (cases "past deadline ck")
  show ?case
  proof (cases "late \<or> pe_name e = None")
    case True
    then show ?thesis
      using Cons.prems(1) pd by (intro skip) (auto split: if_splits option.splits)
  next
    case False
    then obtain name where nm: "pe_name e = Some name" "\<not> late" by auto
    have IH: "walk_entries self sid True deadline
        (\<lambda>pid pinned p. (True, if pinned then pty_reach (ReachPinned pid) sig p else p))
        c es (p1, ck1) = (r, p', ck') \<Longrightarrow> ?goal p1" for c p1
      using Cons.IH [of c p1 ck1] Cons.prems(2) by simp
    show ?thesis
    proof (cases "parse_i32 (map unat name)")
      case None
      then show ?thesis using Cons.prems(1) pd nm by (intro IH [of complete]) simp
    next
      case (Some pid)
      show ?thesis
      proof (cases "pid \<noteq> self \<and> membership sid (pe_stat e) = In \<and> pinned_member sid pid e")
        case True
        then have "?goal (pty_reach (ReachPinned pid) sig p)"
          using Cons.prems(1) pd nm Some by (intro IH [of complete]) simp
        then show ?thesis
          using True nm Some by (intro step [of pid]) (simp_all add: shown_by_def)
      next
        case False
        then show ?thesis
          using Cons.prems(1) pd nm Some IH [of _ p]
          by (auto split: if_splits seen.splits)
      qed
    qed
  qed
qed

lemma signal_session_sends:
  assumes "signal_session self sig deadline (p, ck) = (p', ck')"
    and "stage (ReachPinned 0, sig) = k" "lo \<le> k" "k \<le> hi"
  shows "sends self lo hi p p'"
proof -
  obtain snap p1 where nw: "next_walk p = (snap, p1)" by (cases "next_walk p")
  have n: "silent p p1" "snap \<noteq> None \<longrightarrow> snap \<in> set (walks p)"
    using next_walk_silent [OF nw] by simp_all
  let ?V = "\<lambda>pid pinned p. (True, if pinned then pty_reach (ReachPinned pid) sig p else p)"
  obtain r where w: "walk_session self (child p1) True (Some deadline) ?V snap (p1, ck) = (r, p', ck')"
    using assms(1) nw by (auto simp: signal_session_def split: prod.splits)
  show ?thesis
  proof (cases "p' = p1")
    case True
    then show ?thesis using n by (simp add: silent_sends)
  next
    case False
    then obtain entries ck1 where sn: "snap = Some entries"
      and we: "walk_entries self (child p1) True (Some deadline) ?V True entries (p1, ck1) = (r, p', ck')"
      using w by (auto simp: walk_session_def split: prod.splits if_splits option.splits)
    obtain pids where pids: "reached p' = reached p1 @ map (\<lambda>pid. (ReachPinned pid, sig)) pids"
      "walks p' = walks p1" "child p' = child p1"
      "list_all (\<lambda>pid. pid \<noteq> self \<and> list_ex (shown_by (child p1) pid) entries) pids"
      using walk_entries_signals [OF we subset_refl] by blast
    have st: "stage (ReachPinned pid, sig) = k" for pid
      using assms(2) by (cases sig) auto
    have "list_all (in_session self (child p) (walks p)) (map (\<lambda>pid. (ReachPinned pid, sig)) pids)"
      using pids(4) n sn by (force simp: silent_def list_all_iff list_ex_iff snapshot_shows_def)
    moreover have "sorted (map stage (map (\<lambda>pid. (ReachPinned pid, sig)) pids))"
      by (simp add: comp_def st map_replicate_const)
    ultimately show ?thesis
      unfolding sends_def using pids n st assms(3,4)
      by (intro conjI exI [of _ "map (\<lambda>pid. (ReachPinned pid, sig)) pids"]) (auto simp: silent_def)
  qed
qed

section \<open>The phases\<close>

text \<open>The grace sends nothing, and is not cut short: a session left unsettled had all of it.\<close>

lemma hangup_loop_waits:
  "hangup_loop self deadline alive (p, ck) = (alive', settled, p', ck') \<Longrightarrow>
     sends self lo hi p p' \<and> fst ck \<le> fst ck' \<and> (\<not> settled \<longrightarrow> deadline \<le> fst ck')"
proof (induction self deadline alive "(p, ck)" arbitrary: p ck rule: hangup_loop.induct)
  case (1 self deadline alive p ck)
  obtain now ck1 where now: "clock_now ck = (now, ck1)" by (cases "clock_now ck")
  note n = clock_now_mono [OF now]
  note unrolled = hangup_loop.simps [of self deadline alive p ck]
  show ?case
  proof (cases "deadline \<le> now")
    case True
    then show ?thesis using "1.prems" n by (simp add: unrolled now silent_sends silent_refl)
  next
    case False
    obtain a p1 where g: "group_alive p = (a, p1)" by (cases "group_alive p")
    obtain s p2 ck2 where e: "session_is_empty self (Some deadline) (p1, ck1) = (s, p2, ck2)"
      by (cases "session_is_empty self (Some deadline) (p1, ck1)")
    have looked: "silent p p2" "fst ck1 \<le> fst ck2"
      using silent_trans [OF group_alive_silent [OF g] session_is_empty_silent [OF e]]
        session_is_empty_mono [OF e] by simp_all
    show ?thesis
    proof (cases s)
      case True
      then show ?thesis
        using "1.prems" False n looked by (auto simp: unrolled now g e intro: silent_sends)
    next
      case s: False
      have "hangup_loop self deadline a (p2, clock_sleep HANGUP_POLL_INTERVAL ck2) =
          (alive', settled, p', ck')"
        using "1.prems" False s by (simp add: unrolled now g e)
      from "1.hyps" [OF now [symmetric] False g [symmetric] e [symmetric] refl s this]
      have "sends self lo hi p2 p'" "fst ck2 \<le> fst ck'" "\<not> settled \<longrightarrow> deadline \<le> fst ck'"
        by (simp_all add: clock_sleep_def)
      then show ?thesis using looked n silent_then_sends by fastforce
    qed
  qed
qed

lemma kill_loop_kills:
  "kill_loop self deadline (p, ck) = (p', ck') \<Longrightarrow> sends self 5 5 p p' \<and> fst ck \<le> fst ck'"
proof (induction self deadline "(p, ck)" arbitrary: p ck rule: kill_loop.induct)
  case (1 self deadline p ck)
  obtain p1 ck1 where sg: "signal_session self SigKill deadline (p, ck) = (p1, ck1)"
    by (cases "signal_session self SigKill deadline (p, ck)")
  obtain s p2 ck2 where e: "session_is_empty self (Some deadline) (p1, ck1) = (s, p2, ck2)"
    by (cases "session_is_empty self (Some deadline) (p1, ck1)")
  obtain now ck3 where now: "clock_now ck2 = (now, ck3)" by (cases "clock_now ck2")
  have "sends self 5 5 p p1" by (rule signal_session_sends [OF sg, where k = 5]) simp_all
  then have sent: "sends self 5 5 p p2"
    by (rule sends_then_silent [OF _ session_is_empty_silent [OF e]])
  have later: "fst ck \<le> fst ck2" "fst ck2 \<le> fst ck3"
    using signal_session_mono [OF sg] session_is_empty_mono [OF e] clock_now_mono [OF now] by simp_all
  note unrolled = kill_loop.simps [of self deadline "(p, ck)"]
  show ?case
  proof (cases "s \<or> deadline \<le> now")
    case True
    then show ?thesis
      using "1.prems" sent later by (auto simp: unrolled sg e now split: if_splits)
  next
    case False
    then have "kill_loop self deadline (p2, clock_sleep HANGUP_POLL_INTERVAL ck3) = (p', ck')"
      using "1.prems" by (simp add: unrolled sg e now)
    from "1.hyps" [OF sg [symmetric] e [symmetric] refl _ now [symmetric] _ this] False
    have "sends self 5 5 p2 p'" "fst ck3 \<le> fst ck'" by (simp_all add: clock_sleep_def)
    then show ?thesis using sends_trans [OF sent] later by fastforce
  qed
qed

text \<open>
  The whole teardown, phase by phase: a session found empty is sent nothing; one that settles
  within the grace gets the hangup only; the rest is sent for after the grace.
\<close>

definition first_look :: "int \<Rightarrow> pty \<Rightarrow> clock \<Rightarrow> bool" where
  "first_look self p ck =
     fst (session_is_empty self (Some (fst (clock_now ck) + HANGUP_GRACE))
       (snd (group_alive p), snd (clock_now ck)))"

definition hangup :: "int \<Rightarrow> nat \<Rightarrow> bool \<Rightarrow> pty \<times> clock \<Rightarrow> pty \<times> clock" where
  "hangup self deadline alive st =
     signal_session self SigCont deadline
       (signal_session self SigHup deadline
         (if alive
          then pty_reach (ReachGroup (child (fst st))) SigCont
                 (pty_reach (ReachGroup (child (fst st))) SigHup (fst st))
          else fst st, snd st))"

lemma hangup_sends:
  assumes "hangup self deadline alive (p, ck) = (p', ck')"
  shows "sends self 0 3 p p' \<and> fst ck \<le> fst ck'"
proof -
  define p1 where "p1 = (if alive then pty_reach (ReachGroup (child p)) SigHup p else p)"
  define p2 where "p2 = (if alive then pty_reach (ReachGroup (child p)) SigCont p1 else p1)"
  have c: "child p1 = child p" by (simp add: p1_def pty_reach_def)
  have s1: "sends self 0 0 p p1"
    using sends_group [of SigHup 0 0 0 self p] by (simp add: p1_def silent_sends silent_refl)
  have s2: "sends self 1 1 p1 p2"
    using sends_group [of SigCont 1 1 1 self p1] by (simp add: p2_def c silent_sends silent_refl)
  obtain p3 ck3 where h: "signal_session self SigHup deadline (p2, ck) = (p3, ck3)"
    by (cases "signal_session self SigHup deadline (p2, ck)")
  have w: "signal_session self SigCont deadline (p3, ck3) = (p', ck')"
    using assms h by (simp add: hangup_def p1_def p2_def split: if_splits)
  have s3: "sends self 2 2 p2 p3" by (rule signal_session_sends [OF h, where k = 2]) simp_all
  have s4: "sends self 3 3 p3 p'" by (rule signal_session_sends [OF w, where k = 3]) simp_all
  have "sends self 0 1 p p2" by (rule sends_trans [OF s1 s2]) simp_all
  then have "sends self 0 2 p p3" by (rule sends_trans [OF _ s3]) simp_all
  then have "sends self 0 3 p p'" by (rule sends_trans [OF _ s4]) simp_all
  then show ?thesis using signal_session_mono [OF h] signal_session_mono [OF w] by simp
qed

text \<open>What a teardown that began at \<open>start\<close> has come to.\<close>

definition torn_down :: "int \<Rightarrow> bool \<Rightarrow> pty \<Rightarrow> nat \<Rightarrow> pty \<times> clock \<Rightarrow> bool" where
  "torn_down self settled p start res \<longleftrightarrow>
     (let (q, ck) = res; sent = drop (length (reached p)) (reached q)
      in child_killed q \<and> child q = child p \<and> reached q = reached p @ sent \<and>
        list_all (in_session self (child p) (walks p)) sent \<and>
        sorted (map stage sent) \<and>
        (if settled then sent = [] else True) \<and>
        (if list_ex (\<lambda>r. snd r = SigKill) sent then start + HANGUP_GRACE \<le> fst ck else True))"

lemma no_kill_yet: "stage r \<le> 3 \<Longrightarrow> snd r \<noteq> SigKill"
  by (cases r rule: stage.cases) auto

lemma sends_torn_down:
  assumes "sends self lo hi p q" and "hi \<le> 3 \<or> start + HANGUP_GRACE \<le> fst ck"
    and "settled \<longrightarrow> silent p q"
  shows "torn_down self settled p start (q\<lparr>child_killed := True\<rparr>, ck)"
proof -
  obtain sent where sent: "reached q = reached p @ sent"
    "list_all (in_session self (child p) (walks p)) sent"
    "sorted (map stage sent)" "\<forall>r \<in> set sent. lo \<le> stage r \<and> stage r \<le> hi"
    using assms(1) by (auto simp: sends_def)
  have "list_ex (\<lambda>r. snd r = SigKill) sent \<longrightarrow> start + HANGUP_GRACE \<le> fst ck"
  proof (cases "hi \<le> 3")
    case True
    then have "stage r \<le> 3" if "r \<in> set sent" for r using sent(4) that by fastforce
    then show ?thesis using no_kill_yet by (auto simp: list_ex_iff)
  next
    case False
    then show ?thesis using assms(2) by simp
  qed
  then show ?thesis
    using sent assms(1,3) by (auto simp: torn_down_def sends_def silent_def)
qed

lemma terminate_tears_down:
  "torn_down self (first_look self p ck) p (fst ck) (terminate self (p, ck))"
proof -
  obtain alive p1 where g: "group_alive p = (alive, p1)" by (cases "group_alive p")
  obtain now ck1 where n1: "clock_now ck = (now, ck1)" by (cases "clock_now ck")
  obtain settled p2 ck2 where
    e: "session_is_empty self (Some (now + HANGUP_GRACE)) (p1, ck1) = (settled, p2, ck2)"
    by (cases "session_is_empty self (Some (now + HANGUP_GRACE)) (p1, ck1)")
  obtain now' ck3 where n2: "clock_now ck2 = (now', ck3)" by (cases "clock_now ck2")
  have look: "first_look self p ck = settled" by (simp add: first_look_def n1 g e)
  have quiet: "silent p p2"
    using silent_trans [OF group_alive_silent [OF g] session_is_empty_silent [OF e]] .
  have late: "fst ck \<le> now'" "fst ck \<le> fst ck3"
    using clock_now_mono [OF n1] clock_now_mono [OF n2] session_is_empty_mono [OF e] by simp_all
  show ?thesis
  proof (cases settled)
    case True
    then have "terminate self (p, ck) = (p2\<lparr>child_killed := True\<rparr>, ck3)"
      by (simp add: terminate_def g n1 e n2)
    then show ?thesis
      using quiet by (auto intro!: sends_torn_down [of _ 0 0] silent_sends)
  next
    case False
    define dl where "dl = now' + HANGUP_GRACE"
    obtain p3 ck4 where h: "hangup self dl alive (p2, ck3) = (p3, ck4)"
      by (cases "hangup self dl alive (p2, ck3)")
    obtain alive' settled' p4 ck5 where
      l: "hangup_loop self dl alive (p3, ck4) = (alive', settled', p4, ck5)"
      by (cases "hangup_loop self dl alive (p3, ck4)")
    have waited: "sends self 3 3 p3 p4" "fst ck4 \<le> fst ck5" "\<not> settled' \<Longrightarrow> dl \<le> fst ck5"
      using hangup_loop_waits [OF l] by blast+
    have "sends self 0 3 p p3" using hangup_sends [OF h] quiet silent_then_sends by blast
    moreover have "sends self 3 3 p3 p4" using waited(1) .
    ultimately have hung: "sends self 0 3 p p4" by (rule sends_trans) simp_all
    have run: "terminate self (p, ck) =
      (case (if settled' then (p4, ck5)
            else
              let p = (if alive' then pty_reach (ReachGroup (child p4)) SigKill p4 else p4)
              in case clock_now ck5 of (now, ck) \<Rightarrow> kill_loop self (now + HANGUP_GRACE) (p, ck))
       of (p, ck) \<Rightarrow> (p\<lparr>child_killed := True\<rparr>, ck))"
      using False h l g by (cases alive) (simp_all add: terminate_def n1 e n2 hangup_def dl_def Let_def)
    show ?thesis
    proof (cases settled')
      case True
      then have "terminate self (p, ck) = (p4\<lparr>child_killed := True\<rparr>, ck5)" by (simp add: run)
      then show ?thesis using hung False look by (auto intro!: sends_torn_down)
    next
      case unsettled: False
      define p5 where "p5 = (if alive' then pty_reach (ReachGroup (child p4)) SigKill p4 else p4)"
      obtain now'' ck6 where n3: "clock_now ck5 = (now'', ck6)" by (cases "clock_now ck5")
      obtain q ck7 where k: "kill_loop self (now'' + HANGUP_GRACE) (p5, ck6) = (q, ck7)"
        by (cases "kill_loop self (now'' + HANGUP_GRACE) (p5, ck6)")
      have "sends self 4 4 p4 p5"
        using sends_group [of SigKill 4 4 4 self p4] by (simp add: p5_def silent_sends silent_refl)
      with hung have "sends self 0 4 p p5" by (rule sends_trans) simp_all
      moreover have "sends self 5 5 p5 q" using kill_loop_kills [OF k] by blast
      ultimately have "sends self 0 5 p q" by (rule sends_trans) simp_all
      moreover have "fst ck + HANGUP_GRACE \<le> fst ck7"
        using waited(3) [OF unsettled] late kill_loop_kills [OF k] clock_now_mono [OF n3]
        by (simp add: dl_def)
      moreover have "terminate self (p, ck) = (q\<lparr>child_killed := True\<rparr>, ck7)"
        using unsettled k unfolding p5_def by (simp add: run n3 Let_def)
      ultimately show ?thesis using False look by (auto intro!: sends_torn_down)
    qed
  qed
qed

section \<open>The teardown\<close>

text \<open>
  C15. Tearing a session down signals nothing but the session: the child's process group, by the
  session's id, and, through a pidfd, a process other than the daemon that an entry of \<open>/proc\<close>
  showed alive in the session before and after it was pinned.  The hangups come before the kills
  and, of each, the group before its members; a session found empty is sent nothing; and nobody is
  sent \<open>SIGKILL\<close> before the whole grace is over.  The child itself is killed whatever was found.
\<close>

theorem teardown_stays_in_the_session:
  "case terminate self (p, ck) of (q, ck') \<Rightarrow>
     let sent = drop (length (reached p)) (reached q)
     in child_killed q \<and> child q = child p \<and> reached q = reached p @ sent \<and>
       list_all (in_session self (child p) (walks p)) sent \<and>
       sorted (map stage sent) \<and>
       (if first_look self p ck then sent = [] else True) \<and>
       (if list_ex (\<lambda>r. snd r = SigKill) sent then fst ck + HANGUP_GRACE \<le> fst ck' else True)"
  using terminate_tears_down [of self p ck] unfolding torn_down_def Let_def split_def by assumption

text \<open>A job 7 of the session 5 that goes away at the hangup: \<open>7 (v) S 1 7 5 0\<close>.\<close>

definition job_stat :: bytes where
  "job_stat = [55, 32, 40, 118, 41, 32, 83, 32, 49, 32, 55, 32, 53, 32, 48]"

definition job_entry :: proc_entry where
  "job_entry = \<lparr>pe_name = Some [55], pe_stat = Ok job_stat, pe_pidfd = True, pe_restat = Ok job_stat\<rparr>"

lemma job_pid: "parse_i32 (map unat ([55] :: bytes)) = Some 7"
  by (simp add: parse_i32_def parse_unsigned_def parse_digits_def is_digit_def digits_value_def)

lemma job_fields: "stat_tail job_stat = Some [[83], [49], [55], [53], [48]]"
  by (simp add: stat_tail_def job_stat_def from_utf8_def split_whitespace.simps trim_start_def
      is_whitespace_def)

lemma job_is_in: "membership 5 (Ok job_stat) = In"
  by (simp add: membership_def stat_session_def job_fields parse_i32_def parse_unsigned_def
      parse_digits_def is_digit_def digits_value_def)

lemma job_steps:
  assumes "child p = 5" and "0 < at"
  shows "walks p = Some [job_entry] # ws \<Longrightarrow>
      session_is_empty 1 (Some at) (p, 0, []) = (False, p\<lparr>walks := ws\<rparr>, 0, [])"
    and "walks p = Some [job_entry] # ws \<Longrightarrow>
      signal_session 1 sig at (p, 0, []) = (pty_reach (ReachPinned 7) sig (p\<lparr>walks := ws\<rparr>), 0, [])"
    and "walks p = Some [] # ws \<Longrightarrow>
      session_is_empty 1 (Some at) (p, 0, []) = (True, p\<lparr>walks := ws\<rparr>, 0, [])"
  using assms job_is_in job_pid
  by (simp_all add: session_is_empty_def signal_session_def next_walk_def walk_session_def past_def
      job_entry_def pinned_member_def)

theorem teardown_stays_in_the_session_witness:
  "\<forall>env. let p = env\<lparr>child := 5, groups := [True, True], reached := [],
        walks := [Some [job_entry], Some [job_entry], Some [job_entry], Some []]\<rparr>;
      q = fst (terminate 1 (p, 0, []))
    in reached q = [(ReachGroup 5, SigHup), (ReachGroup 5, SigCont), (ReachPinned 7, SigHup),
         (ReachPinned 7, SigCont)] \<and> list_all (in_session 1 5 (walks p)) (reached q)"
proof (unfold Let_def, rule allI, rule conjI)
  fix env :: pty
  let ?p = "env\<lparr>child := 5, groups := [True, True], reached := [],
        walks := [Some [job_entry], Some [job_entry], Some [job_entry], Some []]\<rparr>"
  have grace: "0 < HANGUP_GRACE" "HANGUP_GRACE \<noteq> 0" by (simp_all add: HANGUP_GRACE_def millis_def)
  show "reached (fst (terminate 1 (?p, 0, []))) = [(ReachGroup 5, SigHup), (ReachGroup 5, SigCont),
      (ReachPinned 7, SigHup), (ReachPinned 7, SigCont)]"
    by (simp add: terminate_def group_alive_def grace job_steps pty_reach_def hangup_loop.simps Let_def)
  show "list_all (in_session 1 5 (walks ?p)) (reached (fst (terminate 1 (?p, 0, []))))"
    using teardown_stays_in_the_session [where self = 1 and p = ?p and ck = "(0, [])"] by (simp add: split_def Let_def)
qed

end
