(* ===== verification/RunDir.thy ===== *)
theory RunDir
  imports Usock Paths "HOL-Library.List_Lexorder"
begin

text \<open>
  The names of the run directory: src/crates/nomux/src/rundir.rs up to the spawn lock.  Which
  names belong to a session, the five names a session has, listing a directory's sessions and
  removing one session's files.  What the file system answers is a parameter: a directory scan is
  a list of entries or the failure reading it, and an unlink is a function of the path.
\<close>

section \<open>Constants\<close>

definition DIR_MODE :: u32 where
  "DIR_MODE = 0x1C0"

definition FILE_MODE :: u32 where
  "FILE_MODE = 0x180"

definition MAX_PID_LEN :: nat where
  "MAX_PID_LEN = 32"

definition MAX_SESSION_ID_LEN :: nat where
  "MAX_SESSION_ID_LEN = 64"

text \<open>An ASCII literal, as its bytes.\<close>

definition ascii :: "string \<Rightarrow> bytes" where
  "ascii s = map (\<lambda>c. of_nat (of_char c)) s"

definition LONGEST_SOCKET_EXT :: bytes where
  "LONGEST_SOCKET_EXT = ascii ''.agent''"

section \<open>The directory\<close>

text \<open>\<open>absolute_env\<close>, of the environment as a map; an empty value is not absolute.\<close>

definition absolute_env :: "(bytes \<Rightarrow> bytes option) \<Rightarrow> bytes \<Rightarrow> bytes option" where
  "absolute_env env key =
     (case env key of None \<Rightarrow> None | Some v \<Rightarrow> if is_absolute v then Some v else None)"

text \<open>\<open>run_dir\<close>; \<open>None\<close> is the refusal that no variable names an absolute path.\<close>

definition run_dir :: "(bytes \<Rightarrow> bytes option) \<Rightarrow> bytes option" where
  "run_dir env =
     (case (case absolute_env env (ascii ''XDG_STATE_HOME'') of
              Some v \<Rightarrow> Some v
            | None \<Rightarrow> map_option (\<lambda>home. path_push home (ascii ''.local/state''))
                (absolute_env env (ascii ''HOME''))) of
        Some state \<Rightarrow> Some (path_push state (ascii ''nomux/run''))
      | None \<Rightarrow> map_option (\<lambda>dir. path_push dir (ascii ''nomux''))
          (absolute_env env (ascii ''XDG_RUNTIME_DIR'')))"

section \<open>Session ids and file names\<close>

definition is_id_byte :: "u8 \<Rightarrow> bool" where
  "is_id_byte b \<longleftrightarrow>
     (48 \<le> b \<and> b \<le> 57) \<or> (65 \<le> b \<and> b \<le> 90) \<or> (97 \<le> b \<and> b \<le> 122) \<or> b = 45 \<or> b = 95"

definition is_valid_session_id :: "bytes \<Rightarrow> bool" where
  "is_valid_session_id sid \<longleftrightarrow>
     sid \<noteq> [] \<and> length sid \<le> MAX_SESSION_ID_LEN \<and> hd sid \<noteq> 45 \<and> list_all is_id_byte sid"

text \<open>\<open>split_run_name\<close>: what precedes the first dot of the file name, and what follows it.\<close>

definition split_run_name :: "bytes \<Rightarrow> (bytes \<times> bytes) option" where
  "split_run_name path =
     (case file_name path of
        None \<Rightarrow> None
      | Some name \<Rightarrow>
          (if 46 \<notin> set name then None
           else case from_utf8 (takeWhile (\<lambda>b. b \<noteq> 46) name) of
             None \<Rightarrow> None
           | Some sid \<Rightarrow> Some (sid, tl (dropWhile (\<lambda>b. b \<noteq> 46) name))))"

definition session_id_of :: "bytes \<Rightarrow> bytes option" where
  "session_id_of path =
     (case split_run_name path of
        None \<Rightarrow> None
      | Some (sid, _) \<Rightarrow> if is_valid_session_id sid then Some sid else None)"

text \<open>A directory as one scan of it finds it: the names in turn, or where the reading failed.\<close>

type_synonym listing = "((bytes, errno) res list, errno) res"

text \<open>
  \<open>binary_search_by\<close> on the ids found so far, which are sorted, and the \<open>insert\<close> behind it.
\<close>

definition note_id :: "bytes \<Rightarrow> bytes list \<Rightarrow> bytes list" where
  "note_id sid ids =
     (if sid \<in> set ids then ids
      else takeWhile (\<lambda>known. known < sid) ids @ sid # dropWhile (\<lambda>known. known < sid) ids)"

fun collect_ids ::
  "bytes \<Rightarrow> (bytes, errno) res list \<Rightarrow> bytes list \<Rightarrow> (bytes list, errno) res" where
  "collect_ids dir [] ids = Ok ids"
| "collect_ids dir (Err e # es) ids = Err e"
| "collect_ids dir (Ok name # es) ids =
     collect_ids dir es
       (case session_id_of (path_push dir name) of None \<Rightarrow> ids | Some sid \<Rightarrow> note_id sid ids)"

definition session_ids :: "bytes \<Rightarrow> listing \<Rightarrow> (bytes list, errno) res" where
  "session_ids dir scan = and_then scan (\<lambda>es. collect_ids dir es [])"

section \<open>The paths of one session\<close>

record session_paths =
  sp_dir :: bytes
  sp_id :: bytes

datatype id_refusal = InvalidId | IdTooLong nat

definition in_dir :: "bytes \<Rightarrow> bytes \<Rightarrow> (session_paths, id_refusal) res" where
  "in_dir dir sid =
     (if \<not> is_valid_session_id sid then Err InvalidId
      else
        let longest = length dir + 1 + length sid + length LONGEST_SOCKET_EXT
        in if SUN_PATH_MAX < longest then Err (IdTooLong longest)
           else Ok \<lparr>sp_dir = dir, sp_id = sid\<rparr>)"

definition with_extension :: "bytes \<Rightarrow> session_paths \<Rightarrow> bytes" where
  "with_extension ext p = path_push (sp_dir p) (sp_id p) @ 46 # ext"

definition sp_socket :: "session_paths \<Rightarrow> bytes" where
  "sp_socket = with_extension (ascii ''sock'')"

definition sp_pid :: "session_paths \<Rightarrow> bytes" where
  "sp_pid = with_extension (ascii ''pid'')"

definition sp_lock :: "session_paths \<Rightarrow> bytes" where
  "sp_lock = with_extension (ascii ''lock'')"

definition sp_label :: "session_paths \<Rightarrow> bytes" where
  "sp_label = with_extension (ascii ''label'')"

definition sp_agent :: "session_paths \<Rightarrow> bytes" where
  "sp_agent = with_extension (ascii ''agent'')"

section \<open>Removing a session's files\<close>

text \<open>\<open>remove_node\<close>: a directory at the name is removed as one.\<close>

definition remove_node ::
  "(bytes \<Rightarrow> (unit, errno) res) \<Rightarrow> (bytes \<Rightarrow> (unit, errno) res) \<Rightarrow> bytes \<Rightarrow> (unit, errno) res" where
  "remove_node remove_file remove_dir path =
     (case remove_file path of
        Err e \<Rightarrow> (if e = EISDIR then remove_dir path else Err e)
      | settled \<Rightarrow> settled)"

datatype unlink_failure = ScanFailed errno | NotRemoved bytes errno

definition ALREADY :: "bytes list" where
  "ALREADY = [ascii ''sock'', ascii ''pid'', ascii ''label'', ascii ''agent'', ascii ''lock'']"

text \<open>The scan: every other name of the session, and the first failure.\<close>

fun other_names ::
  "session_paths \<Rightarrow> (bytes, errno) res list \<Rightarrow> bytes list \<Rightarrow> (unit, unlink_failure) res
     \<Rightarrow> bytes list \<times> (unit, unlink_failure) res" where
  "other_names p [] order failure = (order, failure)"
| "other_names p (Err e # es) order failure =
     other_names p es order (if is_ok failure then Err (ScanFailed e) else failure)"
| "other_names p (Ok name # es) order failure =
     (let path = path_push (sp_dir p) name
      in other_names p es
           (if (case split_run_name path of
                  None \<Rightarrow> False
                | Some (sid, ext) \<Rightarrow> sid = sp_id p \<and> ext \<notin> set ALREADY)
            then order @ [path] else order)
           failure)"

definition removal_order :: "session_paths \<Rightarrow> listing \<Rightarrow> bytes list \<times> (unit, unlink_failure) res" where
  "removal_order p scan =
     (let order = [sp_socket p, sp_pid p, sp_label p, sp_agent p]
      in case (case scan of
                 Err e \<Rightarrow> (order, Err (ScanFailed e))
               | Ok es \<Rightarrow> other_names p es order (Ok ())) of
           (order, failure) \<Rightarrow> (order @ [sp_lock p], failure))"

text \<open>The removals of \<open>unlink_locked\<close>: what they answer, and the first failure kept.\<close>

fun unlink_each ::
  "(bytes \<Rightarrow> (unit, errno) res) \<Rightarrow> bytes list \<Rightarrow> (unit, unlink_failure) res
     \<Rightarrow> (unit, unlink_failure) res" where
  "unlink_each remove [] failure = failure"
| "unlink_each remove (path # paths) failure =
     unlink_each remove paths
       (case remove path of
          Ok _ \<Rightarrow> failure
        | Err e \<Rightarrow> (if e \<noteq> ENOENT \<and> is_ok failure then Err (NotRemoved path e) else failure))"

text \<open>The paths it removes, in order, and what it reports.\<close>

definition unlink_locked ::
  "(bytes \<Rightarrow> (unit, errno) res) \<Rightarrow> bool \<Rightarrow> session_paths \<Rightarrow> listing
     \<Rightarrow> bytes list \<times> (unit, unlink_failure) res" where
  "unlink_locked remove include_lock p scan =
     (case removal_order p scan of (order, failure) \<Rightarrow>
        let count = length order - (if include_lock then 0 else 1);
            paths = take count order
        in (paths, unlink_each remove paths failure))"

section \<open>The pidfile's body\<close>

definition parse_pid :: "bytes \<Rightarrow> int option" where
  "parse_pid body =
     (if MAX_PID_LEN \<le> length body \<or> body = [] \<or> last body \<noteq> 10 then None
      else case from_utf8 body of
        None \<Rightarrow> None
      | Some s \<Rightarrow>
          (case parse_i32 (trim (utf8_chars s)) of
             None \<Rightarrow> None
           | Some pid \<Rightarrow> if 0 < pid then Some pid else None))"

text \<open>What \<open>write_pid\<close> puts there: the decimal digits and a newline.\<close>

definition pid_body :: "nat \<Rightarrow> bytes" where
  "pid_body pid = map of_nat (show_nat pid) @ [10]"

end
