(* ===== verification/Sanitize.thy ===== *)
theory Sanitize
  imports Parse
begin

text \<open>
  The filter over text somebody else chose, and the line the journal is sent:
  src/crates/nomux/src/sanitize.rs.  A Rust \<open>String\<close> is here the list of its characters, each a
  code point; its length in bytes is \<open>text_len\<close>, the length of its UTF-8 encoding.  The datagram
  itself, which nothing reports on, is not modelled.
\<close>

section \<open>Text and its length in bytes\<close>

definition text_len :: "nat list \<Rightarrow> nat" where
  "text_len cs = sum_list (map char_len cs)"

text \<open>A string up to its \<open>floor_char_boundary(n)\<close>: the whole characters that fit \<open>n\<close> bytes.\<close>

fun floor_chars :: "nat \<Rightarrow> nat list \<Rightarrow> nat list" where
  "floor_chars n [] = []"
| "floor_chars n (c # cs) =
     (if char_len c \<le> n then c # floor_chars (n - char_len c) cs else [])"

text \<open>A string literal, as its characters.\<close>

definition chars :: "string \<Rightarrow> nat list" where
  "chars s = map of_char s"

lemma text_len_simps [simp]:
  "text_len [] = 0" "text_len (c # cs) = char_len c + text_len cs"
  "text_len (xs @ ys) = text_len xs + text_len ys"
  by (simp_all add: text_len_def)

lemma length_utf8_encode: "length (utf8_encode cs) = text_len cs"
  by (induction cs) (simp_all add: utf8_encode_def)

lemma floor_chars_len: "text_len (floor_chars n cs) \<le> n"
  by (induction n cs rule: floor_chars.induct) auto

lemma floor_chars_whole: "text_len cs \<le> n \<Longrightarrow> floor_chars n cs = cs"
  by (induction n cs rule: floor_chars.induct) auto

lemma floor_chars_append:
  "text_len xs \<le> n \<Longrightarrow> floor_chars n (xs @ ys) = xs @ floor_chars (n - text_len xs) ys"
  by (induction n xs rule: floor_chars.induct) auto

text \<open>What the cut leaves, and that the next character would not have fitted.\<close>

lemma floor_chars_prefix:
  "\<exists>rest. cs = floor_chars n cs @ rest \<and>
     (rest = [] \<or> n < text_len (floor_chars n cs) + char_len (hd rest))"
proof (induction n cs rule: floor_chars.induct)
  case (2 n c cs)
  then show ?case by (cases "char_len c \<le> n") auto
qed simp

lemma floor_chars_set: "x \<in> set (floor_chars n cs) \<Longrightarrow> x \<in> set cs"
  by (induction n cs rule: floor_chars.induct) (auto split: if_splits)

lemma char_len_pos: "0 < char_len c" "char_len c \<le> 4"
  by (simp_all add: char_len_def)

lemma length_le_text_len: "length cs \<le> text_len cs"
proof (induction cs)
  case (Cons c cs)
  then show ?case using char_len_pos(1) [of c] by simp
qed simp

section \<open>White space at the ends\<close>

lemma trim_start_split: "\<exists>pre. cs = pre @ trim_start cs \<and> list_all is_whitespace pre"
  by (rule exI [of _ "takeWhile is_whitespace cs"])
    (auto simp: trim_start_def list_all_iff dest: set_takeWhileD)

lemma trim_end_split: "\<exists>post. cs = trim_end cs @ post \<and> list_all is_whitespace post"
proof -
  have "rev (takeWhile is_whitespace (rev cs) @ dropWhile is_whitespace (rev cs)) = cs" by simp
  then have "cs = trim_end cs @ rev (takeWhile is_whitespace (rev cs))"
    by (simp only: trim_end_def rev_append)
  then show ?thesis by (intro exI) (auto simp: list_all_iff dest: set_takeWhileD)
qed

lemma trim_start_id: "(\<exists>c r. cs = c # r \<and> \<not> is_whitespace c) \<or> cs = [] \<Longrightarrow> trim_start cs = cs"
  by (auto simp: trim_start_def)

lemma trim_start_head: "trim_start cs = c # r \<Longrightarrow> \<not> is_whitespace c"
  by (metis dropWhile_eq_Cons_conv trim_start_def)

lemma trim_end_idem [simp]: "trim_end (trim_end cs) = trim_end cs"
  by (simp add: trim_end_def)

lemma trim_end_head: "trim_end cs = c # r \<Longrightarrow> \<exists>r'. cs = c # r'"
  using trim_end_split [of cs] by auto

text \<open>A string that starts with no white space still does once its tail has been trimmed.\<close>

lemma trim_start_trim_end:
  assumes "trim_start cs = cs"
  shows "trim_start (trim_end cs) = trim_end cs"
proof (cases "trim_end cs")
  case (Cons c r)
  then obtain r' where "cs = c # r'" using trim_end_head by blast
  then have "\<not> is_whitespace c" using assms trim_start_head by metis
  then show ?thesis using Cons by (simp add: trim_start_def)
qed (simp add: trim_start_def)

lemma trim_start_prefix:
  assumes "trim_start (xs @ ys) = xs @ ys"
  shows "trim_start xs = xs"
proof (cases xs)
  case (Cons c r)
  then have "\<not> is_whitespace c" using assms trim_start_head [of "xs @ ys" c "r @ ys"] by simp
  then show ?thesis using Cons by (simp add: trim_start_def)
qed (simp add: trim_start_def)

lemma trim_start_idem [simp]: "trim_start (trim_start cs) = trim_start cs"
  by (cases "trim_start cs") (auto simp: trim_start_head intro: trim_start_id)

lemma trim_fixed [simp]: "trim_start (trim cs) = trim cs" "trim_end (trim cs) = trim cs"
  by (simp_all add: trim_def trim_start_trim_end)

section \<open>The filter\<close>

definition MAX_LABEL_LEN :: nat where
  "MAX_LABEL_LEN = 256"

definition MAX_LINE_LEN :: nat where
  "MAX_LINE_LEN = 2048"

definition MAX_ID_IN_LINE :: nat where
  "MAX_ID_IN_LINE = 64"

definition ELIDED :: nat where
  "ELIDED = 0x2026"

text \<open>\<open>char::is_control\<close>: the general category Cc.\<close>

definition is_control :: "nat \<Rightarrow> bool" where
  "is_control c \<longleftrightarrow> c \<le> 0x1f \<or> 0x7f \<le> c \<and> c \<le> 0x9f"

definition is_deceptive :: "nat \<Rightarrow> bool" where
  "is_deceptive c \<longleftrightarrow>
     is_control c \<or>
     c = 0xad \<or> c = 0x34f \<or> c = 0x61c \<or> (0x115f \<le> c \<and> c \<le> 0x1160) \<or>
     (0x17b4 \<le> c \<and> c \<le> 0x17b5) \<or> (0x180b \<le> c \<and> c \<le> 0x180f) \<or> c = 0x200b \<or>
     c = 0x200e \<or> c = 0x200f \<or> (0x2028 \<le> c \<and> c \<le> 0x202e) \<or> (0x2060 \<le> c \<and> c \<le> 0x206f) \<or>
     c = 0x2800 \<or> c = 0x3164 \<or> (0xfe00 \<le> c \<and> c \<le> 0xfe0f) \<or> c = 0xfeff \<or> c = 0xffa0 \<or>
     (0xfff0 \<le> c \<and> c \<le> 0xfff8) \<or> (0x1bca0 \<le> c \<and> c \<le> 0x1bca3) \<or>
     (0x1d173 \<le> c \<and> c \<le> 0x1d17a) \<or> (0xe0000 \<le> c \<and> c \<le> 0xe0fff)"

definition sanitize_text :: "nat list \<Rightarrow> nat list" where
  "sanitize_text cs = filter (\<lambda>c. \<not> is_deceptive c) cs"

definition sanitize_label :: "nat list \<Rightarrow> nat list" where
  "sanitize_label label =
     (let out = sanitize_text label;
          out = trim out
      in trim_end (floor_chars MAX_LABEL_LEN out))"

text \<open>\<open>format_line\<close>; the process id is an argument.\<close>

definition format_line :: "nat \<Rightarrow> nat \<Rightarrow> nat list \<Rightarrow> nat list \<Rightarrow> nat list" where
  "format_line pid priority session_id message =
     (let id = sanitize_text session_id;
          id = (if MAX_ID_IN_LINE < text_len id
                then floor_chars MAX_ID_IN_LINE id @ [ELIDED] else id);
          line = sanitize_text
            (chars ''<'' @ show_nat priority @ chars ''>nomux['' @ show_nat pid @
             chars '']: session '' @ id @ chars '': '' @ message)
      in floor_chars MAX_LINE_LEN line)"

lemma sanitize_text_append [simp]: "sanitize_text (xs @ ys) = sanitize_text xs @ sanitize_text ys"
  by (simp add: sanitize_text_def)

lemma sanitize_text_id: "(\<And>c. c \<in> set cs \<Longrightarrow> \<not> is_deceptive c) \<Longrightarrow> sanitize_text cs = cs"
  by (simp add: sanitize_text_def)

lemma sanitize_text_clean: "c \<in> set (sanitize_text cs) \<Longrightarrow> \<not> is_deceptive c"
  by (simp add: sanitize_text_def)

lemma sanitize_text_idem [simp]: "sanitize_text (sanitize_text cs) = sanitize_text cs"
  by (simp add: sanitize_text_def)

lemma printable_kept: "0x20 \<le> c \<Longrightarrow> c < 0x7f \<Longrightarrow> \<not> is_deceptive c"
  by (simp add: is_deceptive_def is_control_def)

section \<open>Labels\<close>

text \<open>A label is a piece of the filtered text: what is cut off in front, behind and for length.\<close>

lemma sanitize_label_piece:
  obtains pre tail rest post where
    "sanitize_text label = pre @ sanitize_label label @ tail @ rest @ post"
    "trim (sanitize_text label) = sanitize_label label @ tail @ rest"
    "floor_chars MAX_LABEL_LEN (trim (sanitize_text label)) = sanitize_label label @ tail"
    "list_all is_whitespace pre" "list_all is_whitespace tail" "list_all is_whitespace post"
    "rest = [] \<or> MAX_LABEL_LEN < text_len (sanitize_label label @ tail) + char_len (hd rest)"
proof -
  define out where "out = trim (sanitize_text label)"
  define cut where "cut = floor_chars MAX_LABEL_LEN out"
  have r: "sanitize_label label = trim_end cut"
    by (simp add: sanitize_label_def out_def cut_def)
  obtain rest where out: "out = cut @ rest"
    and next_too_long: "rest = [] \<or> MAX_LABEL_LEN < text_len cut + char_len (hd rest)"
    using floor_chars_prefix [of out MAX_LABEL_LEN] by (auto simp: cut_def)
  obtain pre where pre: "sanitize_text label = pre @ trim_start (sanitize_text label)"
    "list_all is_whitespace pre" using trim_start_split by blast
  obtain post where post: "trim_start (sanitize_text label) = out @ post"
    "list_all is_whitespace post"
    using trim_end_split [of "trim_start (sanitize_text label)"] by (auto simp: out_def trim_def)
  obtain tail where tail: "cut = trim_end cut @ tail" "list_all is_whitespace tail"
    using trim_end_split by blast
  have "sanitize_text label = pre @ trim_end cut @ tail @ rest @ post"
    using pre(1) post(1) out tail(1) by (metis append.assoc)
  moreover have "out = trim_end cut @ tail @ rest" using out tail(1) by (metis append.assoc)
  moreover have "MAX_LABEL_LEN < text_len (trim_end cut @ tail) + char_len (hd rest) \<or> rest = []"
    using next_too_long tail(1) by auto
  ultimately show thesis
    using that pre(2) tail post(2) unfolding r out_def cut_def by blast
qed

lemma sanitize_label_subset: "set (sanitize_label label) \<subseteq> set (sanitize_text label)"
  by (rule sanitize_label_piece [of label]) auto

lemma sanitize_label_clean: "c \<in> set (sanitize_label label) \<Longrightarrow> \<not> is_deceptive c"
  using sanitize_label_subset sanitize_text_clean by blast

lemma sanitize_label_len: "text_len (sanitize_label label) \<le> MAX_LABEL_LEN"
proof (rule sanitize_label_piece [of label])
  fix tail
  assume "floor_chars MAX_LABEL_LEN (trim (sanitize_text label)) = sanitize_label label @ tail"
  then show ?thesis using floor_chars_len [of MAX_LABEL_LEN "trim (sanitize_text label)"] by simp
qed

lemma sanitize_label_trimmed: "trim (sanitize_label label) = sanitize_label label"
proof (rule sanitize_label_piece [of label])
  fix tail rest
  assume out: "trim (sanitize_text label) = sanitize_label label @ tail @ rest"
  have "trim_start (sanitize_label label) = sanitize_label label"
    using trim_start_prefix [of "sanitize_label label" "tail @ rest"] trim_fixed(1) out by metis
  then show ?thesis by (simp add: trim_def) (simp add: sanitize_label_def)
qed

lemma sanitize_label_idem: "sanitize_label (sanitize_label label) = sanitize_label label"
proof -
  have "sanitize_text (sanitize_label label) = sanitize_label label"
    by (rule sanitize_text_id) (rule sanitize_label_clean)
  then show ?thesis
    using sanitize_label_trimmed sanitize_label_len
    by (subst sanitize_label_def)
      (simp only: Let_def floor_chars_whole, metis trim_fixed(2))
qed


section \<open>Lines of the journal\<close>

text \<open>The framing of a line, the id as it is shown, and how much of the line they may take.\<close>

definition shown_id :: "nat list \<Rightarrow> nat list" where
  "shown_id sid =
     (if MAX_ID_IN_LINE < text_len (sanitize_text sid)
      then floor_chars MAX_ID_IN_LINE (sanitize_text sid) @ [ELIDED] else sanitize_text sid)"

definition line_head :: "nat \<Rightarrow> nat \<Rightarrow> nat list \<Rightarrow> nat list" where
  "line_head pid priority sid =
     chars ''<'' @ show_nat priority @ chars ''>nomux['' @ show_nat pid @
     chars '']: session '' @ shown_id sid @ chars '': ''"

lemma text_len_digits: "list_all is_digit cs \<Longrightarrow> text_len cs = length cs"
  by (induction cs) (auto simp: is_digit_def char_len_def)

lemma length_show_nat: "n < 10 ^ k \<Longrightarrow> 0 < k \<Longrightarrow> length (show_nat n) \<le> k"
proof (induction n arbitrary: k rule: show_nat.induct)
  case (1 n)
  show ?case
  proof (cases "n < 10")
    case True
    then show ?thesis using "1.prems"(2) by (simp add: show_nat.simps [of n])
  next
    case False
    then have "k \<noteq> 1" using "1.prems"(1) by auto
    then obtain j where k: "k = Suc j" "0 < j" using "1.prems"(2) by (cases k) auto
    have "n div 10 < 10 ^ j" using "1.prems"(1) k by (simp add: less_mult_imp_div_less mult.commute)
    then have "length (show_nat (n div 10)) \<le> j" using "1.IH" [OF False] k by blast
    then show ?thesis using False k by (simp add: show_nat.simps [of n])
  qed
qed

lemma digits_printable: "list_all is_digit cs \<Longrightarrow> sanitize_text cs = cs"
  by (rule sanitize_text_id) (auto simp: list_all_iff is_digit_def printable_kept)

lemma chars_printable:
  "sanitize_text (chars ''<'') = chars ''<''"
  "sanitize_text (chars ''>nomux['') = chars ''>nomux[''"
  "sanitize_text (chars '']: session '') = chars '']: session ''"
  "sanitize_text (chars '': '') = chars '': ''"
  by (simp_all add: sanitize_text_def chars_def is_deceptive_def is_control_def)

lemma shown_id_clean: "sanitize_text (shown_id sid) = shown_id sid"
proof -
  have "sanitize_text [ELIDED] = [ELIDED]"
    by (simp add: sanitize_text_def ELIDED_def is_deceptive_def is_control_def)
  moreover have "sanitize_text (floor_chars n (sanitize_text sid)) = floor_chars n (sanitize_text sid)"
    for n
    by (rule sanitize_text_id) (auto dest: floor_chars_set sanitize_text_clean)
  ultimately show ?thesis by (simp add: shown_id_def)
qed

lemma shown_id_len: "text_len (shown_id sid) \<le> MAX_ID_IN_LINE + 3"
  using floor_chars_len [of MAX_ID_IN_LINE "sanitize_text sid"]
  by (simp add: shown_id_def char_len_def ELIDED_def)

lemma format_line_eq:
  "format_line pid priority sid message =
     floor_chars MAX_LINE_LEN (line_head pid priority sid @ sanitize_text message)"
  using show_nat_digits [of priority] show_nat_digits [of pid]
  by (simp add: format_line_def line_head_def Let_def digits_printable chars_printable
      shown_id_clean [unfolded shown_id_def] shown_id_def)

text \<open>
  However long the id and the message are, the line is one datagram's worth: at most 2048
  bytes and no character that could break the line or hide.  The framing and the id -- whole when
  it fits 64 bytes, marked as cut otherwise -- always survive in front, and the filtered message
  follows, cut only where the next character would not fit; framing and id never take more than
  101 bytes of it away.
\<close>

theorem format_line_bounded:
  fixes priority :: u8 and pid :: u32
  shows "\<exists>shown. format_line (unat pid) (unat priority) sid message
        = line_head (unat pid) (unat priority) sid @ shown \<and>
      text_len (line_head (unat pid) (unat priority) sid) \<le> 101 \<and>
      length (utf8_encode (line_head (unat pid) (unat priority) sid @ shown)) \<le> MAX_LINE_LEN \<and>
      filter is_deceptive (line_head (unat pid) (unat priority) sid @ shown) = [] \<and>
      (\<exists>rest. sanitize_text message = shown @ rest \<and>
        (if rest = [] then True else
           MAX_LINE_LEN < text_len (line_head (unat pid) (unat priority) sid @ shown) + char_len (hd rest)))"
proof -
  let ?head = "line_head (unat pid) (unat priority) sid"
  have "unat priority < 10 ^ 3" by (rule order_less_le_trans [OF unsigned_less]) simp
  moreover have "unat pid < 10 ^ 10" by (rule order_less_le_trans [OF unsigned_less]) simp
  ultimately have "length (show_nat (unat priority)) \<le> 3" "length (show_nat (unat pid)) \<le> 10"
    by (simp_all add: length_show_nat del: One_nat_def)
  then have len: "text_len ?head \<le> 101"
    using shown_id_len [of sid] show_nat_digits [of "unat priority"] show_nat_digits [of "unat pid"]
    by (simp add: line_head_def text_len_digits chars_def char_len_def MAX_ID_IN_LINE_def)
  then have fits: "text_len ?head \<le> MAX_LINE_LEN" by (simp add: MAX_LINE_LEN_def)
  define shown where "shown = floor_chars (MAX_LINE_LEN - text_len ?head) (sanitize_text message)"
  obtain rest where rest: "sanitize_text message = shown @ rest"
    "rest = [] \<or> MAX_LINE_LEN - text_len ?head < text_len shown + char_len (hd rest)"
    using floor_chars_prefix [of "sanitize_text message" "MAX_LINE_LEN - text_len ?head"]
    by (auto simp: shown_def)
  have eq: "format_line (unat pid) (unat priority) sid message = ?head @ shown"
    using fits by (simp add: format_line_eq floor_chars_append shown_def)
  have "text_len shown \<le> MAX_LINE_LEN - text_len ?head" by (simp add: shown_def floor_chars_len)
  then have bound: "length (utf8_encode (?head @ shown)) \<le> MAX_LINE_LEN"
    using fits by (simp add: length_utf8_encode)
  have "sanitize_text ?head = ?head"
    using show_nat_digits [of "unat priority"] show_nat_digits [of "unat pid"]
    by (simp add: line_head_def digits_printable chars_printable shown_id_clean)
  moreover have "set shown \<subseteq> set (sanitize_text message)" by (simp add: rest(1))
  ultimately have "\<not> is_deceptive c" if "c \<in> set (?head @ shown)" for c
    using that sanitize_text_clean by (metis UnE set_append subsetD)
  then have clean: "filter is_deceptive (?head @ shown) = []" by (simp add: filter_empty_conv)
  have "\<exists>rest. sanitize_text message = shown @ rest \<and> (if rest = [] then True else
      MAX_LINE_LEN < text_len (?head @ shown) + char_len (hd rest))"
    using rest fits by (intro exI [of _ rest]) auto
  with eq len bound clean show ?thesis by blast
qed

end
