(* ===== verification/RunFiles.thy ===== *)
theory RunFiles
  imports RunDir Sanitize
begin

text \<open>
  The bodies of the run files: how src/crates/nomux/src/rundir.rs replaces a file
  (\<open>write_private\<close>), reads a bounded prefix of one (\<open>read_prefix\<close>), and what the pidfile and the
  label promise through both.  The directory's files are a map from paths to nodes; what an
  unlink, an open or a write answers is an argument, so a failure anywhere is one of its values.
\<close>

section \<open>Files\<close>

datatype ftype = RegularFile | DirectoryFile | SymlinkFile | SocketFile | OtherFile

datatype node = Regular bytes u32 | Node ftype

type_synonym files = "bytes \<Rightarrow> node option"

text \<open>
  What the three calls of \<open>write_private\<close> answer: whether the unlink took, the exclusive create,
  and where a write stopped short of the whole body, with its error.
\<close>

record write_answers =
  wa_removed :: bool
  wa_create :: "(unit, errno) res"
  wa_write :: "(nat \<times> errno) option"

text \<open>\<open>remove_file\<close>, which no directory answers to.\<close>

definition remove_file :: "bool \<Rightarrow> bytes \<Rightarrow> files \<Rightarrow> files" where
  "remove_file took path fs =
     (if took \<and> fs path \<noteq> Some (Node DirectoryFile) then fs(path := None) else fs)"

definition write_private ::
  "write_answers \<Rightarrow> bytes \<Rightarrow> bytes \<Rightarrow> files \<Rightarrow> files \<times> (unit, errno) res" where
  "write_private a path body fs =
     (let fs = remove_file (wa_removed a) path fs
      in case wa_create a of
           Err e \<Rightarrow> (fs, Err e)
         | Ok _ \<Rightarrow>
             (if fs path \<noteq> None then (fs, Err EEXIST)
              else case wa_write a of
                None \<Rightarrow> (fs(path \<mapsto> Regular body FILE_MODE), Ok ())
              | Some (n, e) \<Rightarrow>
                  (fs(path \<mapsto> Regular (take (min n (length body - 1)) body) FILE_MODE), Err e)))"

definition clear_pid :: "bool \<Rightarrow> session_paths \<Rightarrow> files \<Rightarrow> files" where
  "clear_pid took p fs = remove_file took (sp_pid p) fs"

definition clear_label :: "bool \<Rightarrow> session_paths \<Rightarrow> files \<Rightarrow> files" where
  "clear_label took p fs = remove_file took (sp_label p) fs"

definition write_pid ::
  "write_answers \<Rightarrow> nat \<Rightarrow> session_paths \<Rightarrow> files \<Rightarrow> files \<times> (unit, errno) res" where
  "write_pid a pid p fs = write_private a (sp_pid p) (pid_body pid) fs"

definition write_label ::
  "write_answers \<Rightarrow> nat list \<Rightarrow> session_paths \<Rightarrow> files \<Rightarrow> files \<times> (unit, errno) res" where
  "write_label a label p fs =
     (let label = sanitize_label label
      in if label = [] then (clear_label (wa_removed a) p fs, Ok ())
         else write_private a (sp_label p) (utf8_encode label) fs)"

section \<open>Reading a bounded prefix\<close>

datatype read_failure = ReadFailed errno | NotRegular

text \<open>The loop: until the file ends or the buffer is full.\<close>

function read_body :: "nat \<Rightarrow> dev \<Rightarrow> (bytes, errno) res" where
  "read_body room d =
     (if room = 0 then Ok []
      else case nbio_read room d of
        (Err e, _) \<Rightarrow> Err e
      | (Ok bs, d) \<Rightarrow>
          (if bs = [] then Ok []
           else and_then (read_body (room - length bs) d) (\<lambda>rest. Ok (bs @ rest))))"
  by pat_completeness auto
termination
  by (relation "measure fst") auto

declare read_body.simps [simp del]

text \<open>What the \<open>open\<close> found: the type behind the descriptor, and its reads.\<close>

definition read_prefix :: "nat \<Rightarrow> (ftype \<times> dev, errno) res \<Rightarrow> (bytes, read_failure) res" where
  "read_prefix room opened =
     (case opened of
        Err e \<Rightarrow> Err (ReadFailed e)
      | Ok (ft, d) \<Rightarrow>
          (if ft \<noteq> RegularFile then Err NotRegular
           else case read_body room d of Err e \<Rightarrow> Err (ReadFailed e) | Ok bs \<Rightarrow> Ok bs))"

definition read_label :: "(ftype \<times> dev, errno) res \<Rightarrow> nat list" where
  "read_label opened =
     (let body = (case read_prefix MAX_LABEL_LEN opened of Ok bs \<Rightarrow> bs | Err _ \<Rightarrow> [])
      in sanitize_label (from_utf8_lossy body))"

section \<open>Reading a file back\<close>

text \<open>A descriptor on a file that holds \<open>content\<close>: pieces of any size, signals, then the end.\<close>

inductive holds :: "bytes \<Rightarrow> os_read list \<Rightarrow> bool" where
  at_end: "holds [] (RdOk [] # rest)"
| signal: "holds content s \<Longrightarrow> holds content (RdErr EINTR # s)"
| piece: "bs \<noteq> [] \<Longrightarrow> holds content s \<Longrightarrow> holds (bs @ content) (RdOk bs # s)"

lemma nbio_read_holds:
  assumes "holds content s" and "0 < room"
  shows "\<exists>bs s'. nbio_read_script room s = (Ok bs, s') \<and> length bs \<le> room \<and>
    (bs = [] \<longleftrightarrow> content = []) \<and> bs = take (length bs) content \<and>
    (bs \<noteq> [] \<longrightarrow> holds (drop (length bs) content) s')"
  using assms
proof (induction rule: holds.induct)
  case (piece bs content s)
  show ?case
  proof (cases "length bs \<le> room")
    case False
    have "holds (drop room bs @ content) (RdOk (drop room bs) # s)"
      using False piece by (intro holds.piece) simp_all
    then show ?thesis using False piece by auto
  qed (use piece in auto)
qed simp_all

lemma read_body_holds: "holds content (reads d) \<Longrightarrow> read_body room d = Ok (take room content)"
proof (induction room d arbitrary: content rule: read_body.induct)
  case (1 room d)
  show ?case
  proof (cases "room = 0")
    case False
    obtain bs s' where r: "nbio_read_script room (reads d) = (Ok bs, s')" "length bs \<le> room"
      "bs = [] \<longleftrightarrow> content = []" "bs = take (length bs) content"
      "bs \<noteq> [] \<longrightarrow> holds (drop (length bs) content) s'"
      using nbio_read_holds [OF "1.prems"] False by blast
    then have n: "nbio_read room d = (Ok bs, d\<lparr>reads := s'\<rparr>)" by (simp add: nbio_read_def)
    show ?thesis
    proof (cases "bs = []")
      case True
      then show ?thesis using n r False by (subst read_body.simps) simp
    next
      case more: False
      have "read_body (room - length bs) (d\<lparr>reads := s'\<rparr>)
          = Ok (take (room - length bs) (drop (length bs) content))"
        using "1.IH" [OF False n [symmetric] refl more] r(5) more by simp
      moreover have "take room content = bs @ take (room - length bs) (drop (length bs) content)"
        using r(2,4) take_add [of "length bs" "room - length bs" content] by simp
      ultimately show ?thesis using n more False by (subst read_body.simps) simp
    qed
  qed (simp add: read_body.simps)
qed

lemma read_prefix_holds:
  "holds content (reads d) \<Longrightarrow> read_prefix room (Ok (RegularFile, d)) = Ok (take room content)"
  by (simp add: read_prefix_def read_body_holds)

section \<open>The pidfile\<close>

lemma digits_ascii: "list_all is_digit cs \<Longrightarrow> b \<in> set (map of_nat cs :: bytes) \<Longrightarrow> b < 0x80"
  by (auto simp: list_all_iff is_digit_def word_less_nat_alt unat_byte)

lemma utf8_chars_ascii: "\<forall>c \<in> set cs. c < 0x80 \<Longrightarrow> utf8_chars (map of_nat cs) = cs"
  by (induction cs) (auto simp: unat_byte)

lemma digits_arg:
  assumes "list_all is_digit cs"
  shows "utf8_valid (map of_nat cs)" "utf8_chars (map of_nat cs) = cs"
proof -
  show "utf8_valid (map of_nat cs)" using digits_ascii [OF assms] by (intro utf8_valid_ascii) blast
  show "utf8_chars (map of_nat cs) = cs"
    using assms by (intro utf8_chars_ascii) (auto simp: list_all_iff is_digit_def)
qed

lemma digit_not_space: "is_digit c \<Longrightarrow> \<not> is_whitespace c"
  by (auto simp: is_digit_def is_whitespace_def)

lemma trim_digits:
  assumes "list_all is_digit cs" and "cs \<noteq> []"
  shows "trim (cs @ [10]) = cs"
proof -
  obtain c r where c: "cs = c # r" using assms(2) by (cases cs) auto
  obtain q x where q: "cs = q @ [x]" using assms(2) by (cases cs rule: rev_cases) auto
  have "c \<in> set cs" "x \<in> set cs" using c q by (simp, metis in_set_conv_decomp)
  then have "\<not> is_whitespace c" "\<not> is_whitespace x"
    using assms(1) by (simp_all add: list_all_iff digit_not_space)
  moreover have "is_whitespace 10" by (simp add: is_whitespace_def)
  moreover have "trim_start (cs @ [10]) = cs @ [10]" using c calculation by (simp add: trim_start_def)
  ultimately show ?thesis using q by (simp add: trim_def trim_end_def)
qed

lemma parse_pid_body:
  assumes "0 < pid" and "pid < 2 ^ 31"
  shows "parse_pid (pid_body pid) = Some (int pid)"
proof -
  let ?cs = "show_nat pid"
  have cs: "?cs \<noteq> []" "list_all is_digit ?cs" using show_nat_digits by auto
  have small: "\<forall>c \<in> set (?cs @ [10]). c < 0x80" using cs(2) by (auto simp: list_all_iff is_digit_def)
  have body: "pid_body pid = map of_nat (?cs @ [10])" by (simp add: pid_body_def)
  have "length ?cs \<le> 10" using assms(2) by (intro length_show_nat) simp_all
  then have short: "length (pid_body pid) < MAX_PID_LEN" by (simp add: body MAX_PID_LEN_def)
  have valid: "utf8_valid (pid_body pid)"
    using small unfolding body
    by (intro utf8_valid_ascii) (auto simp: word_less_nat_alt unat_byte)
  have "utf8_chars (pid_body pid) = ?cs @ [10]" unfolding body using small by (rule utf8_chars_ascii)
  then show ?thesis
    using short valid cs trim_digits [OF cs(2,1)] parse_i32_show [OF assms(2)] assms(1)
    by (auto simp: parse_pid_def from_utf8_def body)
qed

lemma parse_pid_cut:
  assumes "k < length (pid_body pid)"
  shows "parse_pid (take k (pid_body pid)) = None"
proof -
  have "(10 :: u8) \<notin> set (map of_nat (show_nat pid))"
  proof
    assume "(10 :: u8) \<in> set (map of_nat (show_nat pid))"
    then obtain c where "c \<in> set (show_nat pid)" "(of_nat c :: u8) = 10" by auto
    moreover have "48 \<le> c \<and> c \<le> 57"
      using calculation(1) show_nat_digits [of pid] by (auto simp: list_all_iff is_digit_def)
    moreover from this have "unat (of_nat c :: u8) = c" by (simp add: unat_byte)
    ultimately have "c = 10" by simp
    then show False using \<open>48 \<le> c \<and> c \<le> 57\<close> by simp
  qed
  moreover have "take k (pid_body pid) = take k (map of_nat (show_nat pid))"
    using assms by (simp add: pid_body_def)
  ultimately have "10 \<notin> set (take k (pid_body pid))" by (metis in_set_takeD)
  moreover have "take k (pid_body pid) = [] \<or> last (take k (pid_body pid)) \<in> set (take k (pid_body pid))"
    using last_in_set by blast
  ultimately have "take k (pid_body pid) = [] \<or> last (take k (pid_body pid)) \<noteq> 10" by metis
  then show ?thesis unfolding parse_pid_def by (simp only: simp_thms if_True)
qed

text \<open>The pid \<open>kill\<close> would read at a path: through any sequence of short reads and signals.\<close>

definition pid_at :: "bytes \<Rightarrow> files \<Rightarrow> dev \<Rightarrow> int option" where
  "pid_at path fs d =
     (case fs path of
        Some (Regular _ _) \<Rightarrow>
          (case read_prefix MAX_PID_LEN (Ok (RegularFile, d)) of
             Ok body \<Rightarrow> parse_pid body | Err _ \<Rightarrow> None)
      | _ \<Rightarrow> None)"

text \<open>
  C19. A pidfile is whole or it is nobody's: once the old name is gone, a reader finds the daemon's
  own pid exactly when the write reported success, and however the create or the write failed --
  at whatever byte it was cut off -- it finds none, never another number.  It is created at mode
  0600.
\<close>

theorem pidfile_whole_or_none:
  assumes "0 < pid" and "pid < 2 ^ 31" and "wa_removed a"
    and "write_pid a pid p fs = (fs', r)"
    and "case fs' (sp_pid p) of Some (Regular body _) \<Rightarrow> holds body (reads d) | _ \<Rightarrow> True"
  shows "pid_at (sp_pid p) fs' d = (if r = Ok () then Some (int pid) else None) \<and>
    (case fs' (sp_pid p) of Some (Regular _ mode) \<Rightarrow> mode = FILE_MODE | _ \<Rightarrow> r \<noteq> Ok ())"
proof -
  let ?body = "pid_body pid"
  have ne: "0 < length ?body" by (simp add: pid_body_def)
  have short: "length ?body \<le> MAX_PID_LEN"
    using length_show_nat [of pid 10] assms(2) by (simp add: pid_body_def MAX_PID_LEN_def)
  have read_back: "pid_at (sp_pid p) fs' d = parse_pid (take MAX_PID_LEN body)"
    if "fs' (sp_pid p) = Some (Regular body m)" for body m
    using that assms(5) by (simp add: pid_at_def read_prefix_holds)
  have cut: "parse_pid (take MAX_PID_LEN (take (min n (length ?body - 1)) ?body)) = None" for n
  proof -
    have "min MAX_PID_LEN (min n (length ?body - 1)) < length ?body" using ne by linarith
    then show ?thesis unfolding take_take by (rule parse_pid_cut)
  qed
  have all: "parse_pid (take MAX_PID_LEN ?body) = Some (int pid)"
    using short parse_pid_body [OF assms(1,2)] by simp
  define fs1 where "fs1 = remove_file True (sp_pid p) fs"
  have gone: "fs1 (sp_pid p) = None \<or> fs1 (sp_pid p) = Some (Node DirectoryFile)"
    by (auto simp: fs1_def remove_file_def)
  have w: "(fs', r) = (case wa_create a of
      Err e \<Rightarrow> (fs1, Err e)
    | Ok _ \<Rightarrow> (if fs1 (sp_pid p) \<noteq> None then (fs1, Err EEXIST)
        else case wa_write a of
          None \<Rightarrow> (fs1(sp_pid p \<mapsto> Regular ?body FILE_MODE), Ok ())
        | Some (n, e) \<Rightarrow>
            (fs1(sp_pid p \<mapsto> Regular (take (min n (length ?body - 1)) ?body) FILE_MODE), Err e)))"
    using assms(4) [symmetric]
    by (simp only: write_pid_def write_private_def fs1_def Let_def eqTrueI [OF assms(3)])
  consider (refused) "fs' = fs1" "r \<noteq> Ok ()"
    | (whole) "fs' (sp_pid p) = Some (Regular ?body FILE_MODE)" "r = Ok ()"
    | (part) n where "fs' (sp_pid p) = Some (Regular (take (min n (length ?body - 1)) ?body) FILE_MODE)"
        "r \<noteq> Ok ()"
    using w by (auto split: res.splits if_splits option.splits prod.splits)
  then show ?thesis
  proof cases
    case refused
    then show ?thesis using gone by (auto simp: pid_at_def)
  next
    case whole
    then show ?thesis using read_back [OF whole(1)] all by simp
  next
    case part
    then show ?thesis using read_back [OF part(1)] cut by simp
  qed
qed

theorem pidfile_whole_or_none_witness:
  "pid_at (sp_pid \<lparr>sp_dir = [47], sp_id = [97]\<rparr>)
     (fst (write_pid \<lparr>wa_removed = True, wa_create = Ok (), wa_write = Some (2, EIO)\<rparr> 4711
        \<lparr>sp_dir = [47], sp_id = [97]\<rparr> (\<lambda>_. None)))
     \<lparr>reads = [RdOk [52], RdErr EINTR, RdOk [55], RdOk []], writes = [], accepted = []\<rparr> = None"
proof -
  let ?p = "\<lparr>sp_dir = [47], sp_id = [97]\<rparr>"
  let ?a = "\<lparr>wa_removed = True, wa_create = Ok (), wa_write = Some (2, EIO)\<rparr>"
  let ?d = "\<lparr>reads = [RdOk [52], RdErr EINTR, RdOk [55], RdOk []], writes = [], accepted = []\<rparr>"
  have "show_nat 4711 = [52, 55, 49, 49]" by (simp add: show_nat.simps)
  then have w: "write_pid ?a 4711 ?p (\<lambda>_. None)
      = ((\<lambda>_. None)(sp_pid ?p \<mapsto> Regular [52, 55] FILE_MODE), Err EIO)"
    by (simp add: write_pid_def write_private_def remove_file_def pid_body_def fun_eq_iff)
  have "holds [52, 55] (reads ?d)"
    using holds.piece [of "[52]", OF _ holds.signal [OF holds.piece [of "[55]", OF _ holds.at_end]]]
    by simp
  then show ?thesis
    using pidfile_whole_or_none [of 4711 ?a ?p "\<lambda>_. None" _ _ ?d, OF _ _ _ w] w by simp
qed

section \<open>The label\<close>

text \<open>The label \<open>list\<close> would show: whatever is at the name.\<close>

definition label_at :: "session_paths \<Rightarrow> files \<Rightarrow> dev \<Rightarrow> nat list" where
  "label_at p fs d =
     read_label (case fs (sp_label p) of
        None \<Rightarrow> Err ENOENT
      | Some (Regular _ _) \<Rightarrow> Ok (RegularFile, d)
      | Some (Node ft) \<Rightarrow> Ok (ft, d))"

lemma utf8_encode_Nil [simp]: "utf8_encode cs = [] \<longleftrightarrow> cs = []"
  by (cases cs) (auto simp: utf8_encode_def utf8_char_def)

lemma sanitize_label_Nil [simp]: "sanitize_label [] = []"
  by (simp add: sanitize_label_def sanitize_text_def trim_def trim_start_def trim_end_def)



end
