(* ===== verification/SpawnLock.thy ===== *)
theory SpawnLock
  imports RunFiles
begin

text \<open>
  The spawn lock of src/crates/nomux/src/rundir.rs: how one process takes \<open>flock\<close> on a session's
  \<open>.lock\<close> file and makes sure that what it locked is still the file at that name, as a function
  of what the system calls answer; and, as a step relation, several processes doing so at once,
  with the removals that go with the lock.
\<close>

section \<open>One acquisition\<close>

definition LOCK_ATTEMPTS :: nat where
  "LOCK_ATTEMPTS = 2"

definition LOCK_REPAIRS :: nat where
  "LOCK_REPAIRS = 1"

definition LOCK_PASSES :: nat where
  "LOCK_PASSES = LOCK_ATTEMPTS + LOCK_REPAIRS"

definition LOCK_POLL_INTERVAL :: nat where
  "LOCK_POLL_INTERVAL = millis 20"

text \<open>
  What the calls of one pass answer: the exclusive create, the open behind an \<open>EEXIST\<close>, an
  \<open>lstat\<close> of the name, the \<open>fstat\<close> and \<open>flock\<close> of the descriptor, whether name and descriptor are
  one inode then, and \<open>remove_node\<close> of the name.
\<close>

record lock_pass =
  lp_create :: "(unit, errno) res"
  lp_open :: "(unit, errno) res"
  lp_lstat :: "(ftype, errno) res"
  lp_fstat :: "(ftype, errno) res"
  lp_flock :: "(unit, errno) res"
  lp_same :: bool
  lp_remove :: "(unit, errno) res"

datatype lock_refusal =
  ReadOnlyLock | Unlockable errno | NotALockFile | LockStatFailed errno | LockTimedOut
| LockNotOpen errno | LockNotInherited errno | LockNotNamed

text \<open>The two opens, and whether the descriptor's name was created by this acquisition.\<close>

definition lock_opened :: "lock_pass \<Rightarrow> (bool, errno) res" where
  "lock_opened a =
     (case lp_create a of
        Ok _ \<Rightarrow> Ok True
      | Err e \<Rightarrow> (if e = EEXIST then and_then (lp_open a) (\<lambda>_. Ok False) else Err e))"

text \<open>What one pass comes to: an answer, a node to clear away first, or another pass.\<close>

datatype pass_verdict =
  Settled "(bool option, lock_refusal) res" | Clear ftype | Again

definition lock_verdict :: "lock_pass \<Rightarrow> pass_verdict" where
  "lock_verdict a =
     (case lock_opened a of
        Err e \<Rightarrow>
          (if e = EROFS then Settled (Err ReadOnlyLock)
           else if e = EACCES \<or> e = EPERM then Settled (Err (Unlockable e))
           else if e = ELOOP \<and> lp_lstat a = Ok SymlinkFile then Clear SymlinkFile
           else if e = ENXIO \<and> lp_lstat a = Ok SocketFile then Clear SocketFile
           else if e = ELOOP \<or> e = ENXIO \<or> e = ENOTDIR then Settled (Err NotALockFile)
           else if e = ENOENT then Again
           else Settled (Ok None))
      | Ok created \<Rightarrow>
          (case lp_fstat a of
             Err e \<Rightarrow> Settled (Err (LockStatFailed e))
           | Ok ft \<Rightarrow>
               (if ft \<noteq> RegularFile then Clear ft
                else case lp_flock a of
                  Err e \<Rightarrow>
                    Settled (if e = EOPNOTSUPP then Err (Unlockable e) else Ok None)
                | Ok _ \<Rightarrow> (if lp_same a then Settled (Ok (Some created)) else Again))))"

text \<open>
  The passes: \<open>ans n\<close> is what the system answers the pass that leaves \<open>n\<close> more.  The result is
  the lock, by whether it created its name, or \<open>None\<close> for \<open>not this time\<close>; with it, the types of
  the nodes the repairs cleared away.
\<close>

fun lock_loop ::
  "nat \<Rightarrow> nat \<Rightarrow> (nat \<Rightarrow> lock_pass) \<Rightarrow> (bool option, lock_refusal) res \<times> ftype list" where
  "lock_loop 0 repairs ans = (Ok None, [])"
| "lock_loop (Suc n) repairs ans =
     (case lock_verdict (ans n) of
        Settled r \<Rightarrow> (r, [])
      | Again \<Rightarrow> lock_loop n repairs ans
      | Clear ft \<Rightarrow>
          (if repairs = 0 \<or> \<not> is_ok (lp_remove (ans n)) then (Err NotALockFile, [])
           else case lock_loop n (repairs - 1) ans of (r, cleared) \<Rightarrow> (r, ft # cleared)))"

definition try_lock_spawn_or_refuse ::
  "(nat \<Rightarrow> lock_pass) \<Rightarrow> (bool option, lock_refusal) res \<times> ftype list" where
  "try_lock_spawn_or_refuse ans = lock_loop LOCK_PASSES LOCK_REPAIRS ans"

definition try_lock_spawn :: "(nat \<Rightarrow> lock_pass) \<Rightarrow> bool option" where
  "try_lock_spawn ans =
     (case fst (try_lock_spawn_or_refuse ans) of Ok lock \<Rightarrow> lock | Err _ \<Rightarrow> None)"

text \<open>
  \<open>lock_spawn_until\<close>, of what each attempt will come to; attempts that have run out find the
  lock held.  It ends because every wait is a positive sleep before a fixed deadline.
\<close>

function lock_spawn_until ::
  "nat \<Rightarrow> clock \<Rightarrow> (bool option, lock_refusal) res list \<Rightarrow> (bool, lock_refusal) res \<times> clock" where
  "lock_spawn_until deadline ck attempts =
     (case (case attempts of [] \<Rightarrow> Ok None | r # _ \<Rightarrow> r) of
        Err e \<Rightarrow> (Err e, ck)
      | Ok (Some lock) \<Rightarrow> (Ok lock, ck)
      | Ok None \<Rightarrow>
          (case clock_now ck of (now, ck) \<Rightarrow>
             if deadline \<le> now then (Err LockTimedOut, ck)
             else lock_spawn_until deadline (clock_sleep LOCK_POLL_INTERVAL ck) (tl attempts)))"
  by pat_completeness auto
termination
  by (relation "measure (\<lambda>(dl, ck, _). dl - fst ck)")
    (auto simp: clock_sleep_def LOCK_POLL_INTERVAL_def millis_def dest!: clock_now_mono [OF sym])

declare lock_spawn_until.simps [simp del]

text \<open>\<open>inherit_spawn_lock\<close>: the descriptor of argv is proved open before anything owns it.\<close>

definition inherit_spawn_lock ::
  "(unit, errno) res \<Rightarrow> (unit, errno) res \<Rightarrow> lock_pass \<Rightarrow> (bool, lock_refusal) res" where
  "inherit_spawn_lock getfd setfd a =
     (case getfd of
        Err e \<Rightarrow> Err (LockNotOpen e)
      | Ok _ \<Rightarrow>
          (case setfd of
             Err e \<Rightarrow> Err (LockNotInherited e)
           | Ok _ \<Rightarrow>
               (case lp_fstat a of
                  Err e \<Rightarrow> Err (LockNotInherited e)
                | Ok ft \<Rightarrow>
                    (if ft \<noteq> RegularFile then Err NotALockFile
                     else case lp_flock a of
                       Err e \<Rightarrow> Err (LockNotInherited e)
                     | Ok _ \<Rightarrow> (if lp_same a then Ok False else Err LockNotNamed)))))"

text \<open>\<open>release_lock_name\<close>: whether the name goes with the lock.\<close>

definition release_lock_name :: "bool \<Rightarrow> bool \<Rightarrow> session_paths \<Rightarrow> files \<Rightarrow> files" where
  "release_lock_name created took p fs =
     (if created then remove_file took (sp_lock p) fs else fs)"

text \<open>\<open>unlink_all\<close>: the paths removed, none without the lock.\<close>

definition unlink_all ::
  "(nat \<Rightarrow> lock_pass) \<Rightarrow> (bytes \<Rightarrow> (unit, errno) res) \<Rightarrow> session_paths \<Rightarrow> listing \<Rightarrow> bytes list" where
  "unlink_all ans remove p scan =
     (case try_lock_spawn ans of
        None \<Rightarrow> []
      | Some _ \<Rightarrow> fst (unlink_locked remove True p scan))"

section \<open>What an acquisition promises\<close>

text \<open>The three grounds on which a pass may report the lock.\<close>

definition grounds :: "lock_pass \<Rightarrow> bool" where
  "grounds a \<longleftrightarrow> lp_fstat a = Ok RegularFile \<and> is_ok (lp_flock a) \<and> lp_same a"

lemma lock_verdict_held:
  "lock_verdict a = Settled (Ok (Some created)) \<longleftrightarrow> lock_opened a = Ok created \<and> grounds a"
  by (auto simp: lock_verdict_def grounds_def split: res.splits if_splits)

lemma lock_verdict_clear: "lock_verdict a = Clear ft \<Longrightarrow> ft \<noteq> RegularFile"
  by (auto simp: lock_verdict_def split: res.splits if_splits)

lemma lock_loop_held:
  "fst (lock_loop n repairs ans) = Ok (Some created) \<Longrightarrow>
     \<exists>k<n. lock_opened (ans k) = Ok created \<and> grounds (ans k)"
proof (induction n repairs ans rule: lock_loop.induct)
  case (2 n repairs ans)
  show ?case
  proof (cases "lock_verdict (ans n)")
    case (Settled r)
    then have "lock_verdict (ans n) = Settled (Ok (Some created))" using "2.prems" by simp
    then show ?thesis using lock_verdict_held by blast
  next
    case (Clear ft)
    then have "\<exists>k<n. lock_opened (ans k) = Ok created \<and> grounds (ans k)"
      using "2.IH" Clear "2.prems" by (auto split: if_splits prod.splits)
    then show ?thesis using less_SucI by blast
  next
    case Again
    then have "\<exists>k<n. lock_opened (ans k) = Ok created \<and> grounds (ans k)"
      using "2.IH" Again "2.prems" by simp
    then show ?thesis using less_SucI by blast
  qed
qed simp

lemma lock_loop_cleared:
  "length (snd (lock_loop n repairs ans)) \<le> repairs \<and> RegularFile \<notin> set (snd (lock_loop n repairs ans))"
proof (induction n repairs ans rule: lock_loop.induct)
  case (2 n repairs ans)
  then show ?case
    using lock_verdict_clear [of "ans n"]
    by (auto split: pass_verdict.split prod.splits)
qed simp

text \<open>A first node cleared leaves the two passes the replaced-file race needs.\<close>

lemma lock_loop_after_clear:
  "lock_verdict (ans n) = Clear ft \<Longrightarrow> is_ok (lp_remove (ans n)) \<Longrightarrow>
     fst (lock_loop (Suc n) 1 ans) = fst (lock_loop n 0 ans)"
  by (simp split: prod.split)

text \<open>
  C21. One acquisition, whatever the system answers: at most one node is cleared from the name, and
  never one it saw to be a regular file; the lock is reported only when in one of its three passes
  the descriptor was a regular file, \<open>flock\<close> was granted and the name was still that file, as its
  creator exactly when the exclusive create had succeeded -- and a daemon adopting an inherited
  descriptor accepts it on the same grounds; clearing a node still leaves both takes.
\<close>

theorem acquisition_is_confirmed:
  "length (snd (try_lock_spawn_or_refuse ans)) \<le> 1 \<and>
   RegularFile \<notin> set (snd (try_lock_spawn_or_refuse ans)) \<and>
   (case fst (try_lock_spawn_or_refuse ans) of
      Ok (Some created) \<Rightarrow> (\<exists>k<3. lock_opened (ans k) = Ok created \<and> grounds (ans k))
    | _ \<Rightarrow> True) \<and>
   (is_ok (inherit_spawn_lock getfd setfd a) \<longleftrightarrow> is_ok getfd \<and> is_ok setfd \<and> grounds a) \<and>
   (if (\<exists>ft. lock_verdict (ans 2) = Clear ft) \<and> is_ok (lp_remove (ans 2))
    then fst (try_lock_spawn_or_refuse ans) = fst (lock_loop LOCK_ATTEMPTS 0 ans) else True)"
proof -
  have passes: "LOCK_PASSES = Suc 2" "LOCK_REPAIRS = 1" "LOCK_ATTEMPTS = 2"
    by (simp_all add: LOCK_PASSES_def LOCK_ATTEMPTS_def LOCK_REPAIRS_def)
  have "case fst (try_lock_spawn_or_refuse ans) of
      Ok (Some created) \<Rightarrow> (\<exists>k<3. lock_opened (ans k) = Ok created \<and> grounds (ans k))
    | _ \<Rightarrow> True"
    using lock_loop_held [of 3 LOCK_REPAIRS ans] passes(1)
    by (auto simp: try_lock_spawn_or_refuse_def eval_nat_numeral simp del: lock_loop.simps
        split: res.split option.split)
  moreover have "is_ok (inherit_spawn_lock getfd setfd a) \<longleftrightarrow> is_ok getfd \<and> is_ok setfd \<and> grounds a"
    by (auto simp: inherit_spawn_lock_def grounds_def split: res.split)
  moreover have "fst (try_lock_spawn_or_refuse ans) = fst (lock_loop LOCK_ATTEMPTS 0 ans)"
    if "lock_verdict (ans 2) = Clear ft" "is_ok (lp_remove (ans 2))" for ft
    using lock_loop_after_clear [where ans = ans and n = 2, OF that] passes
    by (simp only: try_lock_spawn_or_refuse_def)
  ultimately show ?thesis
    using lock_loop_cleared [of LOCK_PASSES LOCK_REPAIRS ans] passes(2)
    by (auto simp: try_lock_spawn_or_refuse_def simp del: lock_loop.simps)
qed

section \<open>Several processes at one name\<close>

text \<open>
  The name \<open>.lock\<close> of one session and the processes at it.  A file is an inode number; \<open>wname\<close> is
  what the name resolves to, \<open>wlock\<close> who holds the \<open>flock\<close> of an inode, \<open>wregular\<close> which inodes
  are regular files, and \<open>wfresh\<close> the next inode.  A process is where \<open>try_lock_spawn_or_refuse\<close>
  has brought it, with the passes and repairs it has left.
\<close>

datatype pc =
  Outside
| Trying nat nat
| Opened nat nat nat bool
| Flocked nat nat nat bool
| Repairing nat nat
| Authority nat bool
| Spent nat

record world =
  wname :: "nat option"
  wlock :: "nat \<Rightarrow> nat option"
  wregular :: "nat \<Rightarrow> bool"
  wfresh :: nat
  wpc :: "nat \<Rightarrow> pc"

definition at_pc :: "nat \<Rightarrow> pc \<Rightarrow> world \<Rightarrow> world" where
  "at_pc q c w = w\<lparr>wpc := (wpc w)(q := c)\<rparr>"

definition unlocked :: "nat \<Rightarrow> world \<Rightarrow> world" where
  "unlocked i w = w\<lparr>wlock := (wlock w)(i := None)\<rparr>"

text \<open>
  One system call of one process.  \<open>planted\<close> says whether somebody puts nodes that are no regular
  file at the name; without it only the program's own calls happen.
\<close>

inductive lock_step :: "bool \<Rightarrow> world \<Rightarrow> world \<Rightarrow> bool" for planted where
  call: "wpc w q = Outside \<Longrightarrow>
    lock_step planted w (at_pc q (Trying LOCK_PASSES LOCK_REPAIRS) w)"
| gives_up: "wpc w q = Trying 0 r \<Longrightarrow> lock_step planted w (at_pc q Outside w)"
| creates: "wpc w q = Trying (Suc n) r \<Longrightarrow> wname w = None \<Longrightarrow> i = wfresh w \<Longrightarrow>
    lock_step planted w (at_pc q (Opened n r i True)
      (w\<lparr>wname := Some i, wregular := (wregular w)(i := True), wfresh := Suc i\<rparr>))"
| opens: "wpc w q = Trying (Suc n) r \<Longrightarrow> wname w = Some i \<Longrightarrow> wregular w i \<Longrightarrow>
    lock_step planted w (at_pc q (Opened n r i False) w)"
| finds_node: "wpc w q = Trying (Suc n) r \<Longrightarrow> wname w = Some i \<Longrightarrow> \<not> wregular w i \<Longrightarrow>
    lock_step planted w (at_pc q (Repairing n r) w)"
| no_repairs: "wpc w q = Repairing n 0 \<Longrightarrow> lock_step planted w (at_pc q Outside w)"
| repairs: "wpc w q = Repairing n (Suc r) \<Longrightarrow>
    lock_step planted w (at_pc q (Trying n r) (w\<lparr>wname := None\<rparr>))"
| flocks: "wpc w q = Opened n r i c \<Longrightarrow> wlock w i = None \<Longrightarrow>
    lock_step planted w (at_pc q (Flocked n r i c) (w\<lparr>wlock := (wlock w)(i := Some q)\<rparr>))"
| busy: "wpc w q = Opened n r i c \<Longrightarrow> wlock w i \<noteq> None \<Longrightarrow>
    lock_step planted w (at_pc q Outside w)"
| confirms: "wpc w q = Flocked n r i c \<Longrightarrow> wname w = Some i \<Longrightarrow>
    lock_step planted w (at_pc q (Authority i c) w)"
| replaced: "wpc w q = Flocked n r i c \<Longrightarrow> wname w \<noteq> Some i \<Longrightarrow>
    lock_step planted w (at_pc q (Trying n r) (unlocked i w))"
| unlinks: "wpc w q = Authority i c \<Longrightarrow>
    lock_step planted w (at_pc q (Spent i) (w\<lparr>wname := None\<rparr>))"
| releases: "wpc w q = Authority i c \<Longrightarrow> lock_step planted w (at_pc q Outside (unlocked i w))"
| leaves: "wpc w q = Spent i \<Longrightarrow> lock_step planted w (at_pc q Outside (unlocked i w))"
| plants: "planted \<Longrightarrow> wname w = None \<Longrightarrow> i = wfresh w \<Longrightarrow>
    lock_step planted w
      (w\<lparr>wname := Some i, wregular := (wregular w)(i := False), wfresh := Suc i\<rparr>)"

text \<open>At first nobody is at the name, which may hold a lock file left by somebody gone.\<close>

definition lock_init :: "world \<Rightarrow> bool" where
  "lock_init w \<longleftrightarrow> (\<forall>q. wpc w q = Outside) \<and> (\<forall>i. wlock w i = None) \<and> (\<forall>i. wregular w i) \<and>
     (\<forall>i. wname w = Some i \<longrightarrow> i < wfresh w)"

definition authority :: "world \<Rightarrow> nat \<Rightarrow> bool" where
  "authority w q \<longleftrightarrow> (case wpc w q of Authority _ _ \<Rightarrow> True | _ \<Rightarrow> False)"

text \<open>The invariant: who holds which \<open>flock\<close>, and where the authority's file is.\<close>

fun locked_of :: "pc \<Rightarrow> nat option" where
  "locked_of (Flocked n r i c) = Some i"
| "locked_of (Authority i c) = Some i"
| "locked_of (Spent i) = Some i"
| "locked_of _ = None"

fun pc_ok :: "world \<Rightarrow> nat \<Rightarrow> pc \<Rightarrow> bool" where
  "pc_ok w q (Opened n r i c) \<longleftrightarrow> i < wfresh w"
| "pc_ok w q (Flocked n r i c) \<longleftrightarrow> i < wfresh w \<and> wlock w i = Some q"
| "pc_ok w q (Repairing n r) \<longleftrightarrow> False"
| "pc_ok w q (Authority i c) \<longleftrightarrow> i < wfresh w \<and> wlock w i = Some q \<and> wname w = Some i"
| "pc_ok w q (Spent i) \<longleftrightarrow> i < wfresh w \<and> wlock w i = Some q"
| "pc_ok w q _ \<longleftrightarrow> True"

definition lock_inv :: "world \<Rightarrow> bool" where
  "lock_inv w \<longleftrightarrow>
     (\<forall>q. pc_ok w q (wpc w q)) \<and>
     (\<forall>q i. wlock w i = Some q \<longrightarrow> locked_of (wpc w q) = Some i) \<and>
     (\<forall>i. wname w = Some i \<longrightarrow> i < wfresh w) \<and>
     (\<forall>i. wregular w i)"

lemma lock_invD:
  assumes "lock_inv w"
  shows "wpc w q = c \<Longrightarrow> pc_ok w q c" "wlock w i = Some q \<Longrightarrow> locked_of (wpc w q) = Some i"
    "wname w = Some i \<Longrightarrow> i < wfresh w" "wregular w i"
  using assms by (auto simp: lock_inv_def)

lemma at_pc_simps [simp]:
  "wpc (at_pc q c w) p = (if p = q then c else wpc w p)" "wname (at_pc q c w) = wname w"
  "wlock (at_pc q c w) = wlock w" "wregular (at_pc q c w) = wregular w"
  "wfresh (at_pc q c w) = wfresh w"
  "wpc (unlocked i w) = wpc w" "wname (unlocked i w) = wname w"
  "wlock (unlocked i w) j = (if j = i then None else wlock w j)"
  "wregular (unlocked i w) = wregular w" "wfresh (unlocked i w) = wfresh w"
  by (simp_all add: at_pc_def unlocked_def)

text \<open>What one process's move must leave alone for the others to be where they were.\<close>

lemma pc_ok_frame:
  assumes "pc_ok w p c" and "wfresh w \<le> wfresh w'"
    and "\<And>i. wlock w i = Some p \<Longrightarrow> wlock w' i = Some p"
    and "\<And>i b. c = Authority i b \<Longrightarrow> wname w' = Some i"
  shows "pc_ok w' p c"
  using assms by (cases c) auto

lemma pc_ok_at [simp]: "pc_ok (at_pc q c w) p d \<longleftrightarrow> pc_ok w p d"
  by (cases d) simp_all

lemma lock_inv_move:
  assumes inv: "lock_inv w"
    and "pc_ok w' q c" and "wpc w' = wpc w" and "wfresh w \<le> wfresh w'"
    and "\<And>i p. p \<noteq> q \<Longrightarrow> wlock w' i = Some p \<longleftrightarrow> wlock w i = Some p"
    and "\<And>i. wlock w' i = Some q \<Longrightarrow> locked_of c = Some i"
    and "\<And>i p b. p \<noteq> q \<Longrightarrow> wpc w p = Authority i b \<Longrightarrow> wname w' = Some i"
    and "\<And>i. wname w' = Some i \<Longrightarrow> i < wfresh w'" and "\<And>i. wregular w' i"
  shows "lock_inv (at_pc q c w')"
proof -
  have "pc_ok w' p (wpc w p)" if "p \<noteq> q" for p
    using lock_invD(1) [OF inv refl, of p] assms(4)
    by (rule pc_ok_frame) (use assms(5,7) [OF that] in auto)
  then have "pc_ok (at_pc q c w') p (wpc (at_pc q c w') p)" for p
    using assms(2,3) by simp
  moreover have "locked_of (wpc (at_pc q c w') p) = Some i" if "wlock w' i = Some p" for p i
    using that assms(3,5,6) lock_invD(2) [OF inv] by auto
  ultimately show ?thesis
    using assms(8,9) by (simp add: lock_inv_def)
qed

text \<open>Who holds what, of a process at each place.\<close>

lemma holders:
  assumes inv: "lock_inv w"
  shows "wpc w q = Outside \<Longrightarrow> wlock w i \<noteq> Some q" "wpc w q = Trying n r \<Longrightarrow> wlock w i \<noteq> Some q"
    "wpc w q = Opened n r j c \<Longrightarrow> wlock w i \<noteq> Some q"
    "wpc w q = Flocked n r j c \<Longrightarrow> wlock w i = Some q \<longleftrightarrow> i = j"
    "wpc w q = Authority j c \<Longrightarrow> wlock w i = Some q \<longleftrightarrow> i = j"
    "wpc w q = Spent j \<Longrightarrow> wlock w i = Some q \<longleftrightarrow> i = j"
    "wpc w q \<noteq> Repairing n r"
  using lock_invD(2) [OF inv, of i q] lock_invD(1) [OF inv refl, of q] by auto

text \<open>Two authorities would hold one \<open>flock\<close>.\<close>

lemma one_authority:
  "lock_inv w \<Longrightarrow> wpc w p = Authority i b \<Longrightarrow> wpc w q = Authority j c \<Longrightarrow> p = q"
  using lock_invD(1) [of w p "Authority i b"] lock_invD(1) [of w q "Authority j c"] by simp

lemma name_of_authority:
  "lock_inv w \<Longrightarrow> wpc w p = Authority i b \<Longrightarrow> wname w = Some i \<and> wlock w i = Some p \<and> i < wfresh w"
  using lock_invD(1) [of w p "Authority i b"] by simp

lemma lock_inv_step:
  assumes "lock_step False w w'" and inv: "lock_inv w"
  shows "lock_inv w'"
  using assms(1)
proof cases
  case (creates q n r i)
  have "wpc w p \<noteq> Authority j b" for p j b
    using name_of_authority [OF inv] creates(3) by fastforce
  then show ?thesis
    unfolding creates(1,4) using holders(2) [OF inv creates(2)] lock_invD(4) [OF inv]
    by (intro lock_inv_move [OF inv]) auto
next
  case (unlinks q i c)
  have "wpc w p \<noteq> Authority j b" if "p \<noteq> q" for p j b
    using one_authority [OF inv unlinks(2)] that by blast
  then show ?thesis
    unfolding unlinks(1)
    using holders(5) [OF inv unlinks(2)] name_of_authority [OF inv unlinks(2)] lock_invD(4) [OF inv]
    by (intro lock_inv_move [OF inv]) auto
next
  case (flocks q n r i c)
  then show ?thesis
    unfolding flocks(1)
    using holders(3) [OF inv flocks(2)] lock_invD(1) [OF inv flocks(2)] lock_invD(3,4) [OF inv]
    by (intro lock_inv_move [OF inv]) (auto dest: name_of_authority [OF inv] split: if_splits)
next
  case (confirms q n r i c)
  then show ?thesis
    unfolding confirms(1)
    using holders(4) [OF inv confirms(2)] lock_invD(1) [OF inv confirms(2)] lock_invD(3,4) [OF inv]
    by (intro lock_inv_move [OF inv]) (auto dest: name_of_authority [OF inv])
next
  case (replaced q n r i c)
  have "p = q" if "wlock w i = Some p" for p
    using that holders(4) [OF inv replaced(2), of i] by simp
  then show ?thesis
    unfolding replaced(1)
    using holders(4) [OF inv replaced(2)] lock_invD(3,4) [OF inv] replaced
    by (intro lock_inv_move [OF inv]) (auto dest: name_of_authority [OF inv] split: if_splits)
next
  case (releases q i c)
  have "p = q" if "wlock w i = Some p" for p
    using that holders(5) [OF inv releases(2), of i] by simp
  then show ?thesis
    unfolding releases(1)
    using holders(5) [OF inv releases(2)] lock_invD(3,4) [OF inv] releases
    by (intro lock_inv_move [OF inv]) (auto dest: name_of_authority [OF inv] split: if_splits)
next
  case (leaves q i)
  have "p = q" if "wlock w i = Some p" for p
    using that holders(6) [OF inv leaves(2), of i] by simp
  then show ?thesis
    unfolding leaves(1)
    using holders(6) [OF inv leaves(2)] lock_invD(3,4) [OF inv] leaves
    by (intro lock_inv_move [OF inv]) (auto dest: name_of_authority [OF inv] split: if_splits)
qed (auto simp: holders [OF inv] lock_invD(4) [OF inv]
      dest: name_of_authority [OF inv] lock_invD(3) [OF inv] intro!: lock_inv_move [OF inv])

lemma lock_inv_init: "lock_init w \<Longrightarrow> lock_inv w"
  by (simp add: lock_init_def lock_inv_def)

lemma lock_inv_run: "(lock_step False)\<^sup>*\<^sup>* w w' \<Longrightarrow> lock_inv w \<Longrightarrow> lock_inv w'"
  by (induction rule: rtranclp_induct) (auto intro: lock_inv_step)

lemma authority_iff: "authority w q \<longleftrightarrow> (\<exists>i c. wpc w q = Authority i c)"
  by (auto simp: authority_def split: pc.split)

text \<open>A process with a pass left takes a free name by itself.\<close>

lemma takes_free_name:
  assumes "wpc w q = Trying (Suc n) r" and "wname w = None" and "wlock w (wfresh w) = None"
  shows "(lock_step planted)\<^sup>*\<^sup>* w (at_pc q (Authority (wfresh w) True)
    (w\<lparr>wname := Some (wfresh w), wregular := (wregular w)(wfresh w := True),
       wlock := (wlock w)(wfresh w := Some q), wfresh := Suc (wfresh w)\<rparr>))"
proof -
  let ?i = "wfresh w"
  define w1 where "w1 = at_pc q (Opened n r ?i True)
    (w\<lparr>wname := Some ?i, wregular := (wregular w)(?i := True), wfresh := Suc ?i\<rparr>)"
  define w2 where "w2 = at_pc q (Flocked n r ?i True) (w1\<lparr>wlock := (wlock w1)(?i := Some q)\<rparr>)"
  have "lock_step planted w w1"
    unfolding w1_def using assms(1,2) by (rule lock_step.creates) simp
  moreover have "lock_step planted w1 w2"
    unfolding w2_def using assms(3) by (intro lock_step.flocks) (simp_all add: w1_def)
  moreover have "lock_step planted w2 (at_pc q (Authority ?i True) w2)"
    by (rule lock_step.confirms [of w2 q n r]) (simp_all add: w2_def w1_def)
  moreover have "at_pc q (Authority ?i True) w2 = at_pc q (Authority ?i True)
      (w\<lparr>wname := Some ?i, wregular := (wregular w)(?i := True),
         wlock := (wlock w)(?i := Some q), wfresh := Suc ?i\<rparr>)"
    by (simp add: w2_def w1_def at_pc_def fun_eq_iff)
  ultimately show ?thesis by (metis (no_types) rtranclp.rtrancl_into_rtrancl rtranclp.rtrancl_refl)
qed

text \<open>The world before anything happened.\<close>

definition lock_start :: world where
  "lock_start = \<lparr>wname = None, wlock = (\<lambda>_. None), wregular = (\<lambda>_. True), wfresh = 0,
     wpc = (\<lambda>_. Outside)\<rparr>"

lemma lock_start_init: "lock_init lock_start"
  by (simp add: lock_start_def lock_init_def)

lemma lock_passes_eq: "LOCK_PASSES = Suc 2" "LOCK_REPAIRS = Suc 0"
  by (simp_all add: LOCK_PASSES_def LOCK_ATTEMPTS_def LOCK_REPAIRS_def)

text \<open>
  C22. The lock is a mutex: as long as nobody plants a foreign node at the name, whatever
  processes take, confirm, retake, unlink and release in whatever order, no two ever have standing
  on the session at once, and whoever has it holds the \<open>flock\<close> of the very file the name still
  leads to -- although every acquirer may find the file unlinked under it.
\<close>

theorem lock_is_exclusive:
  assumes "lock_init w0" and "(lock_step False)\<^sup>*\<^sup>* w0 w"
  shows "(authority w p \<and> authority w q \<longrightarrow> p = q) \<and>
    (\<forall>i c. wpc w p = Authority i c \<longrightarrow> wname w = Some i \<and> wlock w i = Some p)"
proof -
  have "lock_inv w" using assms lock_inv_init lock_inv_run by blast
  then show ?thesis
    using one_authority name_of_authority by (auto simp: authority_iff)
qed

theorem lock_is_exclusive_witness:
  "\<exists>w. (lock_step False)\<^sup>*\<^sup>* lock_start w \<and> authority w 0 \<and> \<not> authority w 1 \<and> wname w = Some 0"
proof -
  have call: "lock_step False lock_start (at_pc 0 (Trying LOCK_PASSES LOCK_REPAIRS) lock_start)"
    by (rule lock_step.call) (simp add: lock_start_def)
  let ?w1 = "at_pc 0 (Trying LOCK_PASSES LOCK_REPAIRS) lock_start"
  obtain w where w: "(lock_step False)\<^sup>*\<^sup>* ?w1 w" "wpc w 0 = Authority 0 True"
    using takes_free_name [of ?w1 0 2 LOCK_REPAIRS False] by (auto simp: lock_start_def lock_passes_eq)
  then have run: "(lock_step False)\<^sup>*\<^sup>* lock_start w"
    using call by (simp add: converse_rtranclp_into_rtranclp)
  have "authority w 0" using w(2) by (simp add: authority_def)
  then show ?thesis
    using run w(2) lock_is_exclusive [OF lock_start_init run, of 0 1] by auto
qed

text \<open>
  C23. With a foreign node at the name it is not one: two acquirers that both saw the node before
  either cleared it can both end up with standing, because the second clears away the lock file
  the first has just created and confirmed, and its one repair and two takes are enough for that.
\<close>

theorem planted_node_breaks_exclusion:
  "\<exists>w. lock_init lock_start \<and> (lock_step True)\<^sup>*\<^sup>* lock_start w \<and> authority w 0 \<and> authority w 1"
proof -
  define w1 where "w1 = lock_start\<lparr>wname := Some 0, wregular := (\<lambda>_. True)(0 := False), wfresh := 1\<rparr>"
  define w2 where "w2 = at_pc 0 (Trying LOCK_PASSES LOCK_REPAIRS) w1"
  define w3 where "w3 = at_pc 1 (Trying LOCK_PASSES LOCK_REPAIRS) w2"
  define w4 where "w4 = at_pc 0 (Repairing 2 1) w3"
  define w5 where "w5 = at_pc 1 (Repairing 2 1) w4"
  define w6 where "w6 = at_pc 0 (Trying 2 0) (w5\<lparr>wname := None\<rparr>)"
  note w = w6_def w5_def w4_def w3_def w2_def w1_def lock_start_def lock_passes_eq
  have "lock_step True lock_start w1"
    using lock_step.plants [of True lock_start 0] by (simp add: w1_def lock_start_def)
  moreover have "lock_step True w1 w2" unfolding w2_def by (rule lock_step.call) (simp add: w)
  moreover have "lock_step True w2 w3" unfolding w3_def by (rule lock_step.call) (simp add: w)
  moreover have "lock_step True w3 w4"
    unfolding w4_def by (rule lock_step.finds_node [of _ _ _ _ 0]) (simp_all add: w)
  moreover have "lock_step True w4 w5"
    unfolding w5_def by (rule lock_step.finds_node [of _ _ _ _ 0]) (simp_all add: w)
  moreover have "lock_step True w5 w6" unfolding w6_def by (rule lock_step.repairs) (simp add: w)
  ultimately have start: "(lock_step True)\<^sup>*\<^sup>* lock_start w6"
    by (meson converse_rtranclp_into_rtranclp rtranclp.rtrancl_refl)
  obtain w7 where w7: "(lock_step True)\<^sup>*\<^sup>* w6 w7" "wpc w7 0 = Authority 1 True"
    "wpc w7 1 = Repairing 2 (Suc 0)" "wfresh w7 = 2" "wlock w7 2 = None"
    using takes_free_name [of w6 0 1 0 True] by (auto simp: w)
  let ?w8 = "at_pc 1 (Trying 2 0) (w7\<lparr>wname := None\<rparr>)"
  have step: "lock_step True w7 ?w8" using w7(3) by (rule lock_step.repairs)
  obtain w9 where w9: "(lock_step True)\<^sup>*\<^sup>* ?w8 w9" "wpc w9 0 = Authority 1 True"
    "wpc w9 1 = Authority 2 True"
    using takes_free_name [of ?w8 1 1 0 True] w7(2,4,5) by auto
  have "(lock_step True)\<^sup>*\<^sup>* lock_start w9"
    using start w7(1) step w9(1) by (meson rtranclp.rtrancl_into_rtrancl rtranclp_trans)
  then show ?thesis
    using w9(2,3) lock_start_init by (auto simp: authority_def)
qed

end
