(* ===== verification/Trust.thy ===== *)
theory Trust
  imports SpawnLock
begin

text \<open>
  Who may redirect the run directory, and who may have its socket: the checks of
  src/crates/nomux/src/rundir.rs on the directory and its ancestors, and \<open>bind_socket\<close> of
  src/crates/nomux/src/daemon.rs.  The directory is an absolute path given by its parts; \<open>lstat\<close>
  is a function of a path.
\<close>

section \<open>Ancestors\<close>

record fmeta =
  fm_dir :: bool
  fm_uid :: u32
  fm_mode :: u32

text \<open>The refusals, with the path each names.\<close>

datatype dir_refusal =
  NotRealDirectory "bytes list"
| ForeignAncestor "bytes list" u32
| LooseAncestor "bytes list" u32
| Unexaminable "bytes list" errno
| Unopenable errno
| NotStatted errno
| ForeignOwner u32
| SharedMode u32
| NotTightened errno
| NotCreated errno
| RemovedMeanwhile

text \<open>Octal 1000, 022, 7777.\<close>

definition STICKY :: u32 where
  "STICKY = 0x200"

definition OTHERS_WRITE :: u32 where
  "OTHERS_WRITE = 0x12"

definition sticky_protects :: "u32 \<Rightarrow> u32 \<Rightarrow> u32 option \<Rightarrow> bool" where
  "sticky_protects us mode child_owner \<longleftrightarrow>
     mode AND STICKY \<noteq> 0 \<and>
     (case child_owner of None \<Rightarrow> True | Some owner \<Rightarrow> owner = us \<or> owner = 0)"

fun trusted_walk ::
  "u32 \<Rightarrow> (bytes list \<Rightarrow> (fmeta, errno) res) \<Rightarrow> bytes list list \<Rightarrow> u32 option
     \<Rightarrow> (unit, dir_refusal) res" where
  "trusted_walk us lstat [] child_owner = Ok ()"
| "trusted_walk us lstat (path # upper) child_owner =
     (case lstat path of
        Ok m \<Rightarrow>
          (if \<not> fm_dir m then Err (NotRealDirectory path)
           else if fm_uid m \<noteq> us \<and> fm_uid m \<noteq> 0 then Err (ForeignAncestor path (fm_uid m))
           else if fm_mode m AND OTHERS_WRITE \<noteq> 0 \<and> \<not> sticky_protects us (fm_mode m) child_owner
           then Err (LooseAncestor path (fm_mode m AND 0xFFF))
           else trusted_walk us lstat upper (Some (fm_uid m)))
      | Err e \<Rightarrow>
          (if e = ENOENT then trusted_walk us lstat upper child_owner
           else Err (Unexaminable path e)))"

definition check_trusted_ancestors ::
  "u32 \<Rightarrow> (bytes list \<Rightarrow> (fmeta, errno) res) \<Rightarrow> bytes list \<Rightarrow> (unit, dir_refusal) res" where
  "check_trusted_ancestors us lstat dir =
     trusted_walk us lstat (parents dir)
       (case lstat dir of Ok m \<Rightarrow> Some (fm_uid m) | Err _ \<Rightarrow> None)"

section \<open>The directory itself\<close>

text \<open>
  What opening it and acting on the descriptor answer: the \<open>open\<close>, its \<open>fstat\<close> and the \<open>fchmod\<close>.
  The answer is whether it is there and, if so, its mode afterwards.
\<close>

record dir_answers =
  da_open :: "(unit, errno) res"
  da_fstat :: "(fmeta, errno) res"
  da_chmod :: "(unit, errno) res"

definition check_run_dir ::
  "u32 \<Rightarrow> (bytes list \<Rightarrow> (fmeta, errno) res) \<Rightarrow> dir_answers \<Rightarrow> bytes list
     \<Rightarrow> (u32 option, dir_refusal) res" where
  "check_run_dir us lstat a dir =
     and_then (check_trusted_ancestors us lstat dir) (\<lambda>_.
       case da_open a of
         Err e \<Rightarrow> (if e = ENOENT then Ok None else Err (Unopenable e))
       | Ok _ \<Rightarrow>
           (case da_fstat a of
              Err e \<Rightarrow> Err (NotStatted e)
            | Ok m \<Rightarrow>
                (let mode = fm_mode m AND 0xFFF
                 in if fm_uid m \<noteq> us then Err (ForeignOwner (fm_uid m))
                    else if mode AND OTHERS_WRITE \<noteq> 0 then Err (SharedMode mode)
                    else if mode \<noteq> DIR_MODE
                    then (case da_chmod a of Ok _ \<Rightarrow> Ok (Some DIR_MODE) | Err e \<Rightarrow> Err (NotTightened e))
                    else Ok (Some mode))))"

text \<open>\<open>ensure_run_dir\<close>: the check, the creation, and the check again.\<close>

definition ensure_run_dir ::
  "u32 \<Rightarrow> (bytes list \<Rightarrow> (fmeta, errno) res) \<Rightarrow> dir_answers \<Rightarrow> (unit, errno) res
     \<Rightarrow> (bytes list \<Rightarrow> (fmeta, errno) res) \<Rightarrow> dir_answers \<Rightarrow> bytes list \<Rightarrow> (unit, dir_refusal) res" where
  "ensure_run_dir us lstat a created lstat' a' dir =
     and_then (check_run_dir us lstat a dir) (\<lambda>there.
       if there \<noteq> None then Ok ()
       else case created of
         Err e \<Rightarrow> Err (NotCreated e)
       | Ok _ \<Rightarrow>
           and_then (check_run_dir us lstat' a' dir) (\<lambda>there.
             if there \<noteq> None then Ok () else Err RemovedMeanwhile))"

section \<open>Nobody else can redirect the path\<close>

text \<open>
  When another user may rename or replace the entry \<open>c\<close> of the directory \<open>m\<close>: it can write the
  directory, as its owner or through the group or other bits, and, where the directory is sticky,
  owns the directory or the entry.
\<close>

definition may_replace :: "u32 \<Rightarrow> fmeta \<Rightarrow> fmeta \<Rightarrow> bool" where
  "may_replace uid m c \<longleftrightarrow>
     (fm_uid m = uid \<or> fm_mode m AND OTHERS_WRITE \<noteq> 0) \<and>
     (fm_mode m AND STICKY \<noteq> 0 \<longrightarrow> uid = fm_uid m \<or> uid = fm_uid c)"

lemma parents_nth: "k < length dir \<Longrightarrow> parents dir ! k = take (length dir - 1 - k) dir"
  by (simp add: parents_def rev_nth)

lemma parents_length [simp]: "length (parents dir) = length dir"
  by (simp add: parents_def)

lemma trusted_walk_Ok:
  assumes "trusted_walk us lstat paths owner = Ok ()" and "k < length paths"
    and "lstat (paths ! k) = Ok m"
  shows "fm_dir m \<and> (fm_uid m = us \<or> fm_uid m = 0) \<and>
    (fm_mode m AND OTHERS_WRITE \<noteq> 0 \<longrightarrow> fm_mode m AND STICKY \<noteq> 0 \<and>
       (case (if k = 0 then owner
              else case lstat (paths ! (k - 1)) of Ok c \<Rightarrow> Some (fm_uid c) | Err _ \<Rightarrow> None) of
          None \<Rightarrow> True | Some o' \<Rightarrow> o' = us \<or> o' = 0))"
  using assms
proof (induction us lstat paths owner arbitrary: k rule: trusted_walk.induct)
  case (2 us lstat path upper child_owner)
  show ?case
  proof (cases k)
    case 0
    then show ?thesis using "2.prems" by (auto simp: sticky_protects_def split: if_splits)
  next
    case (Suc j)
    show ?thesis
    proof (cases "lstat path")
      case (Ok p)
      have rest: "trusted_walk us lstat upper (Some (fm_uid p)) = Ok ()"
        using "2.prems"(1) Ok by (auto split: if_splits)
      then show ?thesis
        using "2.IH"(1) [OF Ok, of j] "2.prems" Suc Ok by (cases j) (auto split: if_splits)
    next
      case (Err e)
      then have "e = ENOENT" "trusted_walk us lstat upper child_owner = Ok ()"
        using "2.prems"(1) by (auto split: if_splits)
      then show ?thesis
        using "2.IH"(2) [OF Err, of j] "2.prems" Suc Err by (cases j) (auto split: if_splits)
    qed
  qed
qed simp

text \<open>
  C24. A run directory that passes the check cannot be redirected: every directory on the way to
  it that exists is a real directory of this user's or root's, and no other user may rename or
  replace the next step of the path in it, be it group- or world-writable or sticky.
\<close>

theorem nobody_else_redirects:
  assumes "check_trusted_ancestors us lstat dir = Ok ()" and "k < length dir"
    and "lstat (take k dir) = Ok m" and "lstat (take (Suc k) dir) = Ok c"
    and "uid \<noteq> us" and "uid \<noteq> 0"
  shows "fm_dir m \<and> (fm_uid m = us \<or> fm_uid m = 0) \<and> \<not> may_replace uid m c"
proof -
  let ?paths = "parents dir" and ?j = "length dir - 1 - k"
  let ?owner = "case lstat dir of Ok m \<Rightarrow> Some (fm_uid m) | Err _ \<Rightarrow> None"
  have j: "?j < length ?paths" "?paths ! ?j = take k dir" using assms(2) by (simp_all add: parents_nth)
  have child: "(if ?j = 0 then ?owner
      else case lstat (?paths ! (?j - 1)) of Ok c \<Rightarrow> Some (fm_uid c) | Err _ \<Rightarrow> None) = Some (fm_uid c)"
  proof (cases "?j = 0")
    case True
    then have "take (Suc k) dir = dir" using assms(2) by simp
    then show ?thesis using True assms(4) by simp
  next
    case False
    then have "?paths ! (?j - 1) = take (Suc k) dir"
      using assms(2) by (subst parents_nth) (auto intro: arg_cong [of _ _ "\<lambda>n. take n dir"])
    then show ?thesis using False assms(4) by simp
  qed
  have "lstat (?paths ! ?j) = Ok m" using j assms(3) by simp
  from trusted_walk_Ok [OF assms(1) [unfolded check_trusted_ancestors_def] j(1) this]
  show ?thesis unfolding child using assms(5,6) by (auto simp: may_replace_def)
qed

theorem nobody_else_redirects_witness:
  "\<not> may_replace 1001 \<lparr>fm_dir = True, fm_uid = 0, fm_mode = 0x3FF\<rparr>
     \<lparr>fm_dir = True, fm_uid = 1000, fm_mode = 0x1C0\<rparr>"
proof -
  let ?tmp = "\<lparr>fm_dir = True, fm_uid = 0, fm_mode = 0x3FF\<rparr>"
  let ?run = "\<lparr>fm_dir = True, fm_uid = 1000, fm_mode = 0x1C0\<rparr>"
  let ?root = "\<lparr>fm_dir = True, fm_uid = 0, fm_mode = 0x1ED\<rparr>"
  let ?lstat = "\<lambda>p. if p = [] then Ok ?root else if p = [[116]] then Ok ?tmp
    else if p = [[116], [114]] then Ok ?run else Err ENOENT"
  have "parents [[116], [114]] = [[[116]], []]" by (simp add: parents_def upt_rec)
  then have "check_trusted_ancestors 1000 ?lstat [[116], [114]] = Ok ()"
    by (simp add: check_trusted_ancestors_def sticky_protects_def STICKY_def OTHERS_WRITE_def)
  from nobody_else_redirects [OF this, of 1 ?tmp ?run 1001] show ?thesis by simp
qed

text \<open>
  A checked directory is this user's own, at exactly mode 0700, and was never writable by anybody
  else; only a mode no other user could have used is repaired.
\<close>

lemma check_run_dir_there:
  assumes "check_run_dir us lstat a dir = Ok (Some mode)"
  shows "mode = DIR_MODE \<and> check_trusted_ancestors us lstat dir = Ok () \<and>
    (\<exists>m. da_fstat a = Ok m \<and> fm_uid m = us \<and> fm_mode m AND 0xFFF AND OTHERS_WRITE = 0 \<and>
      (fm_mode m AND 0xFFF = DIR_MODE \<or> is_ok (da_chmod a)))"
  using assms
  by (auto simp: check_run_dir_def and_then_eq_Ok Let_def and.assoc split: res.splits if_splits)

lemma ensure_run_dir_Ok:
  assumes "ensure_run_dir us lstat a created lstat' a' dir = Ok ()"
  shows "check_run_dir us lstat a dir = Ok (Some DIR_MODE) \<or>
    is_ok created \<and> check_run_dir us lstat' a' dir = Ok (Some DIR_MODE)"
  using assms check_run_dir_there
  by (fastforce simp: ensure_run_dir_def and_then_eq_Ok split: if_splits res.splits)

end
