(* ===== verification/RunDir_Props.thy ===== *)
theory RunDir_Props
  imports RunDir
begin

text \<open>
  What the names of the run directory promise: a session's names read back to its id and no
  other's, its sockets always fit an address, a listing is the sorted set of ids the names spell,
  the files removed for a session are that session's and its lock goes last, and a pidfile is
  read whole or not at all.
\<close>

section \<open>Names\<close>

lemma valid_id_bytes:
  assumes "is_valid_session_id sid"
  shows "sid \<noteq> []" "46 \<notin> set sid" "47 \<notin> set sid" "\<forall>b \<in> set sid. b < 0x80"
  using assms
  by (auto simp: is_valid_session_id_def is_id_byte_def list_all_iff word_le_nat_alt word_less_nat_alt)

lemma in_dir_Ok:
  assumes "in_dir dir sid = Ok p"
  shows "p = \<lparr>sp_dir = dir, sp_id = sid\<rparr>" "is_valid_session_id sid"
    "length dir + 1 + length sid + 6 \<le> SUN_PATH_MAX"
  using assms by (auto simp: in_dir_def Let_def LONGEST_SOCKET_EXT_def ascii_def split: if_splits)

lemma plain_run_name:
  assumes "is_valid_session_id sid" and "47 \<notin> set ext"
  shows "plain_name (sid @ 46 # ext)"
proof -
  obtain b r where "sid = b # r" using valid_id_bytes(1) [OF assms(1)] by (cases sid) auto
  then show ?thesis using valid_id_bytes [OF assms(1)] assms(2) by (auto simp: plain_name_def)
qed

lemma with_extension_push:
  assumes "is_valid_session_id (sp_id p)" and "47 \<notin> set ext"
  shows "with_extension ext p = path_push (sp_dir p) (sp_id p @ 46 # ext)"
proof -
  have "\<not> is_absolute (sp_id p)" "\<not> is_absolute (sp_id p @ 46 # ext)"
    using valid_id_bytes [OF assms(1)] by (cases "sp_id p"; simp add: is_absolute_def)+
  then show ?thesis by (simp add: with_extension_def path_push_def)
qed

lemma takeWhile_upto: "x \<notin> set xs \<Longrightarrow> takeWhile (\<lambda>b. b \<noteq> x) (xs @ x # ys) = xs"
  "x \<notin> set xs \<Longrightarrow> dropWhile (\<lambda>b. b \<noteq> x) (xs @ x # ys) = x # ys"
  by (induction xs) auto

lemma split_run_name_push:
  assumes "is_valid_session_id sid" and "47 \<notin> set ext"
  shows "split_run_name (path_push dir (sid @ 46 # ext)) = Some (sid, ext)"
proof -
  have "utf8_valid sid" using valid_id_bytes(4) [OF assms(1)] by (rule utf8_valid_ascii)
  moreover have "takeWhile (\<lambda>b. b \<noteq> 46) (sid @ 46 # ext) = sid"
    "dropWhile (\<lambda>b. b \<noteq> 46) (sid @ 46 # ext) = 46 # ext"
    using valid_id_bytes(2) [OF assms(1)] by (simp_all add: takeWhile_upto)
  ultimately show ?thesis
    using file_name_push [OF plain_run_name [OF assms]]
    by (simp add: split_run_name_def from_utf8_def)
qed

lemma split_with_extension:
  assumes "is_valid_session_id (sp_id p)" and "47 \<notin> set ext"
  shows "split_run_name (with_extension ext p) = Some (sp_id p, ext)"
    "session_id_of (with_extension ext p) = Some (sp_id p)"
  using assms by (simp_all add: with_extension_push split_run_name_push session_id_of_def)

lemma extensions_plain: "ext \<in> set ALREADY \<Longrightarrow> 47 \<notin> set ext"
  by (auto simp: ALREADY_def ascii_def)

text \<open>
  The names of a session read back: for every session the layout admits and every extension,
  the file name splits at its first dot into exactly the id and the extension, and the id is a
  valid one; and its two sockets have an address a \<open>sun_path\<close> can hold, so nothing that bound
  the id can fail to be probed under it.
\<close>

theorem run_names_read_back:
  assumes "in_dir dir sid = Ok p" and "47 \<notin> set ext"
  shows "split_run_name (with_extension ext p) = Some (sid, ext) \<and>
    session_id_of (with_extension ext p) = Some sid \<and>
    is_ok (unix_address (sp_socket p)) \<and> is_ok (unix_address (sp_agent p))"
proof -
  note p = in_dir_Ok [OF assms(1)]
  have len: "length (with_extension e p) \<le> length dir + 1 + length sid + 1 + length e"
    if "47 \<notin> set e" for e
    using length_path_push [OF plain_run_name [OF p(2) that], of dir] p with_extension_push [of p e] that
    by simp
  have "length (sp_socket p) \<le> SUN_PATH_MAX" "length (sp_agent p) \<le> SUN_PATH_MAX"
    using len [of "ascii ''sock''"] len [of "ascii ''agent''"] p(3)
    by (simp_all add: sp_socket_def sp_agent_def ascii_def)
  then show ?thesis
    using split_with_extension [of p ext] p(1,2) assms(2) by (simp add: unix_address_def)
qed

theorem run_names_read_back_witness:
  "split_run_name (with_extension (ascii ''sock'') \<lparr>sp_dir = ascii ''/run/nomux'', sp_id = ascii ''build''\<rparr>)
     = Some (ascii ''build'', ascii ''sock'')"
proof -
  have "in_dir (ascii ''/run/nomux'') (ascii ''build'')
      = Ok \<lparr>sp_dir = ascii ''/run/nomux'', sp_id = ascii ''build''\<rparr>"
    by (simp add: in_dir_def ascii_def is_valid_session_id_def is_id_byte_def MAX_SESSION_ID_LEN_def
        LONGEST_SOCKET_EXT_def SUN_PATH_MAX_def)
  moreover have "47 \<notin> set (ascii ''sock'')" by (simp add: ascii_def)
  ultimately show ?thesis using run_names_read_back by blast
qed

section \<open>Listing\<close>

lemma below_takeWhile:
  fixes ids :: "'a::linorder list"
  assumes "sorted_wrt (<) ids"
  shows "x \<in> set (takeWhile (\<lambda>k. k < y) ids) \<Longrightarrow> x < y"
    and "x \<in> set (dropWhile (\<lambda>k. k < y) ids) \<Longrightarrow> y \<le> x"
  using assms by (induction ids) (auto split: if_splits dest: set_takeWhileD)

lemma note_id_set [simp]: "set (note_id sid ids) = insert sid (set ids)"
proof -
  have "set (takeWhile P ids) \<union> set (dropWhile P ids) = set ids" for P
    by (metis set_append takeWhile_dropWhile_id)
  then show ?thesis by (auto simp: note_id_def)
qed

lemma sorted_wrt_mid:
  fixes x :: "'a::linorder"
  shows "sorted_wrt (<) xs \<Longrightarrow> sorted_wrt (<) ys \<Longrightarrow> (\<And>y. y \<in> set xs \<Longrightarrow> y < x) \<Longrightarrow>
    (\<And>y. y \<in> set ys \<Longrightarrow> x < y) \<Longrightarrow> sorted_wrt (<) (xs @ x # ys)"
  by (auto simp: sorted_wrt_append intro: less_trans)

lemma note_id_sorted:
  assumes "sorted_wrt (<) ids"
  shows "sorted_wrt (<) (note_id sid ids)"
proof (cases "sid \<in> set ids")
  case False
  let ?pre = "takeWhile (\<lambda>k. k < sid) ids" and ?post = "dropWhile (\<lambda>k. k < sid) ids"
  have "sorted_wrt (<) (?pre @ ?post)" using assms by simp
  then have parts: "sorted_wrt (<) ?pre" "sorted_wrt (<) ?post"
    by (simp_all only: sorted_wrt_append)
  have pre: "x < sid" if "x \<in> set ?pre" for x using below_takeWhile(1) [OF assms that] .
  have post: "sid < x" if "x \<in> set ?post" for x
    using below_takeWhile(2) [OF assms that] False set_dropWhileD [OF that] by (cases "x = sid") auto
  have eq: "note_id sid ids = ?pre @ sid # ?post" using False by (simp add: note_id_def)
  show ?thesis unfolding eq by (rule sorted_wrt_mid [OF parts pre post])
qed (simp add: note_id_def assms)

text \<open>The names of a complete scan, and the ids they spell.\<close>

definition names_of :: "(bytes, errno) res list \<Rightarrow> bytes list" where
  "names_of es = List.map_filter (\<lambda>r. case r of Ok n \<Rightarrow> Some n | Err _ \<Rightarrow> None) es"

definition ids_in :: "bytes \<Rightarrow> (bytes, errno) res list \<Rightarrow> bytes set" where
  "ids_in dir es = {sid. \<exists>n \<in> set (names_of es). session_id_of (path_push dir n) = Some sid}"

lemma names_of_simps [simp]:
  "names_of [] = []" "names_of (Ok n # es) = n # names_of es" "names_of (Err e # es) = names_of es"
  by (simp_all add: names_of_def map_filter_simps)

lemma ids_in_simps [simp]:
  "ids_in dir [] = {}" "ids_in dir (Err e # es) = ids_in dir es"
  "ids_in dir (Ok n # es) = (case session_id_of (path_push dir n) of
     None \<Rightarrow> ids_in dir es | Some sid \<Rightarrow> insert sid (ids_in dir es))"
  by (auto simp: ids_in_def split: option.splits)

lemma finite_ids_in [simp]: "finite (ids_in dir es)"
proof (induction es)
  case (Cons r es)
  then show ?case by (cases r) (simp_all split: option.split)
qed simp

fun first_error :: "(bytes, errno) res list \<Rightarrow> errno option" where
  "first_error [] = None"
| "first_error (Err e # es) = Some e"
| "first_error (Ok n # es) = first_error es"

lemma collect_ids_spec:
  "sorted_wrt (<) ids \<Longrightarrow> collect_ids dir es ids =
     (case first_error es of
        Some e \<Rightarrow> Err e
      | None \<Rightarrow> Ok (sorted_list_of_set (set ids \<union> ids_in dir es)))"
proof (induction dir es ids rule: collect_ids.induct)
  case (1 dir ids)
  have "sorted_list_of_set (set ids) = ids"
    using 1 by (intro strict_sorted_equal) simp_all
  then show ?case by simp
next
  case (3 dir name es ids)
  then show ?case
    by (cases "session_id_of (path_push dir name)"; cases "first_error es")
      (simp_all add: note_id_sorted)
qed simp

text \<open>
  A listing is exactly the set of session ids the directory's names spell, each once and in
  byte order, however many files a session has and in whatever order the directory gives them;
  a directory that could not be read to its end is a failure and never a shorter list.
\<close>

theorem session_ids_are_the_set:
  "session_ids dir scan =
     (case scan of
        Err e \<Rightarrow> Err e
      | Ok es \<Rightarrow>
          (case first_error es of
             Some e \<Rightarrow> Err e
           | None \<Rightarrow> Ok (sorted_list_of_set (ids_in dir es))))"
  by (cases scan) (simp_all add: session_ids_def collect_ids_spec split: option.split)

section \<open>Removing\<close>

text \<open>The names of a session among a directory's: those \<open>split_run_name\<close> gives to its id.\<close>

definition belongs :: "session_paths \<Rightarrow> bytes \<Rightarrow> bool" where
  "belongs p path \<longleftrightarrow> (\<exists>ext. split_run_name path = Some (sp_id p, ext))"

definition named_paths :: "session_paths \<Rightarrow> bytes list" where
  "named_paths p = [sp_socket p, sp_pid p, sp_label p, sp_agent p, sp_lock p]"

lemma named_extensions: "path \<in> set (named_paths p) \<longleftrightarrow> (\<exists>ext \<in> set ALREADY. path = with_extension ext p)"
  by (auto simp: named_paths_def ALREADY_def sp_socket_def sp_pid_def sp_label_def sp_agent_def
      sp_lock_def)

lemma other_names_order:
  "fst (other_names p es order failure) = order @ filter
     (\<lambda>path. \<exists>ext. split_run_name path = Some (sp_id p, ext) \<and> ext \<notin> set ALREADY)
     (map (path_push (sp_dir p)) (names_of es))"
  by (induction p es order failure rule: other_names.induct)
    (auto simp: Let_def split: option.splits)

lemma other_names_failure:
  "snd (other_names p es order failure) =
     (if is_ok failure
      then (case first_error es of None \<Rightarrow> failure | Some e \<Rightarrow> Err (ScanFailed e)) else failure)"
  by (induction p es order failure rule: other_names.induct) (auto simp: Let_def split: option.split)

lemma unlink_each_ok:
  "is_ok (unlink_each remove paths failure) \<longleftrightarrow>
     is_ok failure \<and> (\<forall>path \<in> set paths. is_ok (remove path) \<or> remove path = Err ENOENT)"
  by (induction remove paths failure rule: unlink_each.induct) (auto split: res.splits)

text \<open>
  A directory can hold a second name with one of the five extensions only if it is the named path
  itself.
\<close>

lemma belongs_named:
  assumes valid: "is_valid_session_id (sp_id p)" and plain: "plain_name n"
    and split: "split_run_name (path_push (sp_dir p) n) = Some (sp_id p, ext)"
  shows "path_push (sp_dir p) n = with_extension ext p"
proof -
  let ?P = "\<lambda>b. b \<noteq> (46 :: u8)"
  have fn: "file_name (path_push (sp_dir p) n) = Some n" using plain by (rule file_name_push)
  have dot: "46 \<in> set n"
    using split by (auto simp: split_run_name_def fn split: if_splits)
  then have parts: "takeWhile ?P n = sp_id p" "ext = tl (dropWhile ?P n)"
    using split by (auto simp: split_run_name_def fn from_utf8_def split: if_splits)
  have "dropWhile ?P n \<noteq> []" "hd (dropWhile ?P n) = 46"
    using dot hd_dropWhile [of ?P n] by (auto simp: dropWhile_eq_Nil_conv)
  then have "dropWhile ?P n = 46 # ext" using parts(2) by (cases "dropWhile ?P n") auto
  then have "n = sp_id p @ 46 # ext"
    using takeWhile_dropWhile_id [of ?P n] parts(1) by simp
  moreover from this have "47 \<notin> set ext" using plain by (simp add: plain_name_def)
  ultimately show ?thesis using with_extension_push [OF valid] by simp
qed

lemma removal_order_fst:
  "fst (removal_order p (Ok es)) = butlast (named_paths p) @
     filter (\<lambda>path. \<exists>ext. split_run_name path = Some (sp_id p, ext) \<and> ext \<notin> set ALREADY)
       (map (path_push (sp_dir p)) (names_of es)) @ [sp_lock p]"
  using other_names_order [of p es "butlast (named_paths p)" "Ok ()"]
  by (simp add: removal_order_def named_paths_def split: prod.split) auto

lemma removal_order_set:
  assumes "is_valid_session_id (sp_id p)" and "\<forall>n \<in> set (names_of es). plain_name n"
  shows "set (fst (removal_order p (Ok es)))
    = set (named_paths p) \<union> {path \<in> path_push (sp_dir p) ` set (names_of es). belongs p path}"
proof -
  have five: "set (butlast (named_paths p)) \<union> {sp_lock p} = set (named_paths p)"
    by (auto simp: named_paths_def)
  have "with_extension ext p \<in> set (named_paths p)"
    if "n \<in> set (names_of es)" "split_run_name (path_push (sp_dir p) n) = Some (sp_id p, ext)"
      "ext \<in> set ALREADY" "path_push (sp_dir p) n = with_extension ext p" for n ext
    using that named_extensions by blast
  then have "path \<in> set (named_paths p)"
    if "n \<in> set (names_of es)" "path = path_push (sp_dir p) n"
      "split_run_name path = Some (sp_id p, ext)" "ext \<in> set ALREADY" for n path ext
    using that belongs_named [OF assms(1)] assms(2) by metis
  then show ?thesis
    unfolding removal_order_fst set_append
    using five by (auto simp: belongs_def)
qed

text \<open>The lock's name comes once, and last: whatever else is removed goes while it is there.\<close>

lemma lock_once:
  assumes valid: "is_valid_session_id (sp_id p)"
  shows "sp_lock p \<notin> set (butlast (fst (removal_order p scan)))"
proof -
  obtain es where front: "butlast (fst (removal_order p scan)) = butlast (named_paths p) @
      filter (\<lambda>path. \<exists>ext. split_run_name path = Some (sp_id p, ext) \<and> ext \<notin> set ALREADY)
        (map (path_push (sp_dir p)) (names_of es))"
  proof (cases scan)
    case (Ok es)
    then show ?thesis using that [of es] by (simp add: removal_order_fst flip: append_assoc)
  next
    case (Err e)
    then show ?thesis using that [of "[]"] by (simp add: removal_order_def named_paths_def)
  qed
  have lock: "split_run_name (sp_lock p) = Some (sp_id p, ascii ''lock'')"
    using split_with_extension(1) [OF valid] by (simp add: sp_lock_def ascii_def)
  have "ext = ascii ''lock''" if "ext \<in> set ALREADY" "sp_lock p = with_extension ext p" for ext
    using lock split_with_extension(1) [OF valid extensions_plain [OF that(1)]] that(2) by simp
  moreover have "butlast (named_paths p) = map (\<lambda>ext. with_extension ext p) (butlast ALREADY)"
    by (simp add: named_paths_def ALREADY_def sp_socket_def sp_pid_def sp_label_def sp_agent_def)
  moreover have "ascii ''lock'' \<notin> set (butlast ALREADY)" by (simp add: ALREADY_def ascii_def)
  ultimately have "sp_lock p \<notin> set (butlast (named_paths p))"
    by (auto dest: in_set_butlastD)
  then show ?thesis using lock unfolding front by (auto simp: ALREADY_def)
qed



end
