(* ===== verification/Start.thy ===== *)
theory Start
  imports Trust RunDir_Props
begin

text \<open>
  Bringing a session up: \<open>bind_socket\<close>, \<open>publish\<close> and \<open>start\<close> of src/crates/nomux/src/daemon.rs, as
  what they do to the files of the run directory.  The system calls of src/crates/nomux/src/startup.rs
  they are made of (the fork, the signal handlers, the descriptors) appear as what they answer.
\<close>

definition PROBE_TIMEOUT :: nat where
  "PROBE_TIMEOUT = secs 1"

datatype start_failure =
  AlreadyRunning
| ProbeFailed connect_error
| BindFailed errno
| StartFailed errno
| LockBusy
| LockRefused lock_refusal
| IdRefused id_refusal
| DirRefused dir_refusal
| RingRefused

section \<open>Binding the socket\<close>

text \<open>Whether the unlinks took, and what \<open>bind\<close> and \<open>set_nonblocking\<close> answer.\<close>

record bind_answers =
  ba_remove :: "(unit, errno) res"
  ba_pid_cleared :: bool
  ba_label_cleared :: bool
  ba_bind :: "(unit, errno) res"
  ba_nonblock :: "(unit, errno) res"
  ba_undone :: bool

definition bind_socket_private :: "bind_answers \<Rightarrow> bytes \<Rightarrow> files \<Rightarrow> files \<times> (unit, start_failure) res" where
  "bind_socket_private a path fs =
     (case ba_bind a of
        Err e \<Rightarrow> (fs, Err (BindFailed e))
      | Ok _ \<Rightarrow>
          (if fs path \<noteq> None then (fs, Err (BindFailed EADDRINUSE))
           else let fs = fs(path \<mapsto> Node SocketFile)
                in case ba_nonblock a of
                     Err e \<Rightarrow> (remove_file (ba_undone a) path fs, Err (BindFailed e))
                   | Ok _ \<Rightarrow> (fs, Ok ())))"

definition bind_socket ::
  "u32 \<Rightarrow> session_paths \<Rightarrow> clock \<Rightarrow> os_connect list \<Rightarrow> bind_answers \<Rightarrow> files
     \<Rightarrow> files \<times> (unit, start_failure) res" where
  "bind_socket ours p ck s a fs =
     (let path = sp_socket p;
          bind = (\<lambda>fs. bind_socket_private a path
            (clear_label (ba_label_cleared a) p (clear_pid (ba_pid_cleared a) p fs)))
      in case fst (probe ours path PROBE_TIMEOUT ck s) of
           LvAlive _ \<Rightarrow> (fs, Err AlreadyRunning)
         | LvStale e \<Rightarrow>
             (if e = CnErrno ECONNREFUSED
              then (case ba_remove a of
                      Ok _ \<Rightarrow> bind (remove_file True path fs)
                    | Err e' \<Rightarrow> (if e' \<noteq> ENOENT then (fs, Err (BindFailed e')) else bind fs))
              else bind fs)
         | LvUnknown e \<Rightarrow> (fs, Err (ProbeFailed e)))"

section \<open>Publishing, and taking it back\<close>

text \<open>\<open>publish\<close>: \<open>armed\<close> is what the fork and the two handlers answer; the label is advisory.\<close>

definition publish ::
  "(unit, errno) res \<Rightarrow> write_answers \<Rightarrow> write_answers \<Rightarrow> nat \<Rightarrow> nat list option \<Rightarrow> session_paths
     \<Rightarrow> files \<Rightarrow> files \<times> (unit, start_failure) res" where
  "publish armed wpid wlabel pid label p fs =
     (case armed of
        Err e \<Rightarrow> (fs, Err (StartFailed e))
      | Ok _ \<Rightarrow>
          (case write_pid wpid pid p fs of
             (fs, Err e) \<Rightarrow> (fs, Err (StartFailed e))
           | (fs, Ok _) \<Rightarrow>
               (case label of
                  None \<Rightarrow> (fs, Ok ())
                | Some l \<Rightarrow> (fst (write_label wlabel l p fs), Ok ()))))"

text \<open>The files once the paths of an \<open>unlink_locked\<close> have been tried.\<close>

definition after_unlink :: "(bytes \<Rightarrow> (unit, errno) res) \<Rightarrow> bytes list \<Rightarrow> files \<Rightarrow> files" where
  "after_unlink remove paths fs =
     (\<lambda>path. if path \<in> set paths \<and> is_ok (remove path) then None else fs path)"

text \<open>
  What everything \<open>start\<close> calls outside the files answers, in order: the descriptors closed, the
  directory ensured, the lock handed over or taken, the ring allocated, the start directory let go,
  the probe and the bind, the fork with the two handlers, the two files, the standard descriptors
  silenced, and the unlinks with the directory scan behind them.
\<close>

record start_answers =
  sa_closed :: "(unit, errno) res"
  sa_run_dir :: "(unit, dir_refusal) res"
  sa_getfd :: "(unit, errno) res"
  sa_setfd :: "(unit, errno) res"
  sa_passes :: "nat \<Rightarrow> lock_pass"
  sa_ring :: bool
  sa_released :: "(unit, errno) res"
  sa_clock :: clock
  sa_connects :: "os_connect list"
  sa_bind :: bind_answers
  sa_armed :: "(unit, errno) res"
  sa_pidfile :: write_answers
  sa_labelfile :: write_answers
  sa_silenced :: "(unit, errno) res"
  sa_remove :: "bytes \<Rightarrow> (unit, errno) res"
  sa_scan :: listing

text \<open>The authority a start runs under, and whether the lock's name was created for it.\<close>

definition publishing :: "bool \<Rightarrow> start_answers \<Rightarrow> (bool, start_failure) res" where
  "publishing inherited a =
     (if inherited
      then (case inherit_spawn_lock (sa_getfd a) (sa_setfd a) (sa_passes a 0) of
              Err e \<Rightarrow> Err (LockRefused e) | Ok created \<Rightarrow> Ok created)
      else (case fst (try_lock_spawn_or_refuse (sa_passes a)) of
              Err e \<Rightarrow> Err (LockRefused e)
            | Ok None \<Rightarrow> Err LockBusy
            | Ok (Some created) \<Rightarrow> Ok created))"

text \<open>Everything past the authority; \<open>fs\<close> are the files with the lock taken.\<close>

definition start_locked ::
  "u32 \<Rightarrow> bool \<Rightarrow> bool \<Rightarrow> start_answers \<Rightarrow> nat \<Rightarrow> nat list option \<Rightarrow> session_paths \<Rightarrow> files
     \<Rightarrow> files \<times> (unit, start_failure) res" where
  "start_locked us inherited created a pid label p fs =
     (let release = release_lock_name created (is_ok (sa_remove a (sp_lock p))) p
      in if \<not> sa_ring a then (release fs, Err RingRefused)
         else case sa_released a of
           Err e \<Rightarrow> (release fs, Err (StartFailed e))
         | Ok _ \<Rightarrow>
             (case bind_socket us p (sa_clock a) (sa_connects a) (sa_bind a) fs of
                (fs, Err e) \<Rightarrow> (release fs, Err e)
              | (fs, Ok _) \<Rightarrow>
                  (case (case publish (sa_armed a) (sa_pidfile a) (sa_labelfile a) pid label p fs of
                           (fs, Err e) \<Rightarrow> (fs, Err e)
                         | (fs, Ok _) \<Rightarrow>
                             (case sa_silenced a of
                                Ok _ \<Rightarrow> (fs, Ok ())
                              | Err e \<Rightarrow> (fs, Err (StartFailed e)))) of
                     (fs, Ok _) \<Rightarrow> (fs, Ok ())
                   | (fs, Err e) \<Rightarrow>
                       (after_unlink (sa_remove a)
                          (fst (unlink_locked (sa_remove a) (\<not> inherited) p (sa_scan a))) fs,
                        Err e))))"

definition start ::
  "u32 \<Rightarrow> bool \<Rightarrow> start_answers \<Rightarrow> nat \<Rightarrow> nat list option \<Rightarrow> bytes \<Rightarrow> bytes \<Rightarrow> files
     \<Rightarrow> files \<times> (unit, start_failure) res" where
  "start us inherited a pid label dir sid fs =
     (case sa_closed a of
        Err e \<Rightarrow> (fs, Err (StartFailed e))
      | Ok _ \<Rightarrow>
          (case in_dir dir sid of
             Err e \<Rightarrow> (fs, Err (IdRefused e))
           | Ok p \<Rightarrow>
               (case sa_run_dir a of
                  Err e \<Rightarrow> (fs, Err (DirRefused e))
                | Ok _ \<Rightarrow>
                    (case publishing inherited a of
                       Err e \<Rightarrow> (fs, Err e)
                     | Ok created \<Rightarrow> start_locked us inherited created a pid label p fs))))"

section \<open>What they promise\<close>

lemma remove_file_other: "path \<noteq> at \<Longrightarrow> remove_file took at fs path = fs path"
  by (simp add: remove_file_def)

lemma remove_file_at: "remove_file took at fs at = fs at \<or> remove_file took at fs at = None"
  by (simp add: remove_file_def)

lemmas clears = clear_pid_def clear_label_def

text \<open>The five names of one session are five.\<close>

lemma names_distinct:
  "sp_socket p \<noteq> sp_pid p" "sp_socket p \<noteq> sp_label p" "sp_pid p \<noteq> sp_label p"
  "sp_lock p \<noteq> sp_socket p" "sp_lock p \<noteq> sp_pid p" "sp_lock p \<noteq> sp_label p"
  by (simp_all add: sp_socket_def sp_pid_def sp_label_def sp_lock_def with_extension_def ascii_def)

lemma bind_private_only:
  "bind_socket_private a path fs = (fs', r) \<Longrightarrow>
     (\<forall>other. other \<noteq> path \<longrightarrow> fs' other = fs other) \<and>
     (r = Ok () \<longrightarrow> fs path = None \<and> fs' path = Some (Node SocketFile))"
  by (auto simp: bind_socket_private_def Let_def remove_file_def split: res.splits if_splits)

lemma bind_cleared_only:
  assumes "bind_socket_private a (sp_socket p) (clear_label l p (clear_pid c p fs)) = (fs', r)"
  shows "(path \<notin> {sp_socket p, sp_pid p, sp_label p} \<longrightarrow> fs' path = fs path) \<and>
    (fs (sp_socket p) \<noteq> None \<longrightarrow> r \<noteq> Ok ()) \<and>
    (r = Ok () \<longrightarrow> fs' (sp_socket p) = Some (Node SocketFile))"
  using bind_private_only [OF assms] names_distinct [of p]
  by (auto simp: clears remove_file_other)

text \<open>A failed bind over a name that is taken leaves it taken by the same node.\<close>

lemma bind_cleared_taken:
  assumes "bind_socket_private a (sp_socket p) (clear_label l p (clear_pid c p fs)) = (fs', r)"
    and "fs (sp_socket p) \<noteq> None"
  shows "fs' (sp_socket p) = fs (sp_socket p)"
  using assms names_distinct [of p]
  by (auto simp: bind_socket_private_def clears remove_file_other Let_def
      split: res.splits if_splits)

text \<open>
  C25. Binding takes over an id only from the dead.  Nothing changes unless a \<open>connect\<close> to the
  socket was refused or found no name, behind nothing but full backlogs and signals, and a node
  already at the socket's name only after it was refused; a listener that answers, and an answer
  that settles nothing, fail with every file as it was.  A success leaves the socket there; and
  only the socket, the pidfile and the label are ever touched.
\<close>

theorem bind_takes_over_the_dead:
  assumes "bind_socket ours p ck s a fs = (fs', r)"
  shows "(fs' = fs \<and> r \<noteq> Ok () \<or> settled_on s (Some (CnErr ECONNREFUSED)) \<or>
       settled_on s (Some (CnErr ENOENT))) \<and>
    (fs' (sp_socket p) = fs (sp_socket p) \<or> fs (sp_socket p) = None \<or>
       settled_on s (Some (CnErr ECONNREFUSED))) \<and>
    (r = Ok () \<longrightarrow> fs' (sp_socket p) = Some (Node SocketFile)) \<and>
    (path \<notin> {sp_socket p, sp_pid p, sp_label p} \<longrightarrow> fs' path = fs path)"
proof (cases "fst (probe ours (sp_socket p) PROBE_TIMEOUT ck s)")
  case (LvStale e)
  then obtain c where c: "c = ECONNREFUSED \<or> c = ENOENT" "e = CnErrno c"
      "settled_on s (Some (CnErr c))"
    using probe_stale [OF LvStale] by auto
  let ?bind = "\<lambda>fs. bind_socket_private a (sp_socket p)
    (clear_label (ba_label_cleared a) p (clear_pid (ba_pid_cleared a) p fs))"
  consider "fs' = fs" "r \<noteq> Ok ()" | "?bind fs = (fs', r)"
    | "c = ECONNREFUSED" "?bind (remove_file True (sp_socket p) fs) = (fs', r)"
    using assms LvStale c(2) by (auto simp: bind_socket_def Let_def split: if_splits res.splits)
  then show ?thesis
  proof cases
    case 1
    then show ?thesis by simp
  next
    case 2
    then show ?thesis
      using bind_cleared_only [OF 2] bind_cleared_taken [OF 2] c by blast
  next
    case 3
    then show ?thesis
      using bind_cleared_only [OF 3(2), of path] c(3) remove_file_other [of path "sp_socket p"]
      by auto
  qed
qed (use assms in \<open>auto simp: bind_socket_def Let_def\<close>)

theorem bind_takes_over_the_dead_witness:
  "fst (bind_socket 1000 \<lparr>sp_dir = [47], sp_id = [97]\<rparr> (0, []) [CnErr EAGAIN, CnErr ECONNREFUSED]
     \<lparr>ba_remove = Ok (), ba_pid_cleared = True, ba_label_cleared = True, ba_bind = Ok (),
       ba_nonblock = Ok (), ba_undone = True\<rparr>
     (\<lambda>_. Some (Node SocketFile))) (sp_socket \<lparr>sp_dir = [47], sp_id = [97]\<rparr>) = Some (Node SocketFile)"
proof -
  let ?p = "\<lparr>sp_dir = [47], sp_id = [97]\<rparr>"
  let ?a = "\<lparr>ba_remove = Ok (), ba_pid_cleared = True, ba_label_cleared = True, ba_bind = Ok (),
       ba_nonblock = Ok (), ba_undone = True\<rparr>"
  let ?out = "bind_socket 1000 ?p (0, []) [CnErr EAGAIN, CnErr ECONNREFUSED] ?a (\<lambda>_. Some (Node SocketFile))"
  have "fst (probe 1000 (sp_socket ?p) PROBE_TIMEOUT (0, []) [CnErr EAGAIN, CnErr ECONNREFUSED])
      = LvStale (CnErrno ECONNREFUSED)"
    by (simp add: probe_def connect_within_def unix_address_def sp_socket_def with_extension_def
        path_push_def is_absolute_def ascii_def SUN_PATH_MAX_def PROBE_TIMEOUT_def PROBE_RETRY_def
        secs_def millis_def connect_loop.simps liveness_of_def Let_def)
  then have "snd ?out = Ok ()"
    using names_distinct [of ?p]
    by (simp add: bind_socket_def bind_socket_private_def clears remove_file_def Let_def)
  then show ?thesis
    using bind_takes_over_the_dead [OF prod.collapse [symmetric], of 1000 ?p "(0, [])"
        "[CnErr EAGAIN, CnErr ECONNREFUSED]" ?a "\<lambda>_. Some (Node SocketFile)"] by blast
qed

lemma write_private_only:
  assumes "write_private a at body fs = (fs', r)"
  shows "(path \<noteq> at \<longrightarrow> fs' path = fs path) \<and>
    (r = Ok () \<longrightarrow> fs' at = Some (Regular body FILE_MODE))"
  using assms by (auto simp: write_private_def Let_def remove_file_def
      split: res.splits if_splits option.splits)

lemma write_label_only:
  "path \<noteq> sp_label p \<Longrightarrow> fst (write_label a label p fs) path = fs path"
  using write_private_only [OF prod.collapse [symmetric], of path "sp_label p" a]
  by (simp add: write_label_def clear_label_def remove_file_other Let_def)

lemma publish_only:
  assumes "publish armed wpid wlabel pid label p fs = (fs', r)"
  shows "(path \<notin> {sp_pid p, sp_label p} \<longrightarrow> fs' path = fs path) \<and>
    (r = Ok () \<longrightarrow> fs' (sp_pid p) = Some (Regular (pid_body pid) FILE_MODE))"
proof (cases "armed")
  case (Ok u)
  obtain fs1 r1 where w: "write_private wpid (sp_pid p) (pid_body pid) fs = (fs1, r1)" by fastforce
  note only = write_private_only [OF w]
  show ?thesis
    using assms only write_label_only names_distinct(3) [of p] Ok
    by (auto simp: publish_def write_pid_def w split: res.splits option.splits)
qed (use assms in \<open>auto simp: publish_def\<close>)

lemma after_unlink_at:
  "after_unlink remove paths fs path = fs path \<or> after_unlink remove paths fs path = None"
  by (simp add: after_unlink_def)

text \<open>What a start past its authority may have done to the files, by how it ended.\<close>

lemma start_locked_cases:
  assumes "start_locked us inherited created a pid label p fs = (fs', r)"
  obtains (released) fs1 where "r \<noteq> Ok ()"
      "fs1 = fs \<or> (\<exists>e. bind_socket us p (sa_clock a) (sa_connects a) (sa_bind a) fs = (fs1, Err e))"
      "fs' = release_lock_name created (is_ok (sa_remove a (sp_lock p))) p fs1"
  | (up) fs1 where "r = Ok ()"
      "bind_socket us p (sa_clock a) (sa_connects a) (sa_bind a) fs = (fs1, Ok ())"
      "publish (sa_armed a) (sa_pidfile a) (sa_labelfile a) pid label p fs1 = (fs', Ok ())"
  | (withdrawn) fs1 fs2 r2 where "r \<noteq> Ok ()"
      "bind_socket us p (sa_clock a) (sa_connects a) (sa_bind a) fs = (fs1, Ok ())"
      "publish (sa_armed a) (sa_pidfile a) (sa_labelfile a) pid label p fs1 = (fs2, r2)"
      "fs' = after_unlink (sa_remove a)
         (fst (unlink_locked (sa_remove a) (\<not> inherited) p (sa_scan a))) fs2"
proof -
  obtain fs1 rb where b: "bind_socket us p (sa_clock a) (sa_connects a) (sa_bind a) fs = (fs1, rb)"
    by fastforce
  obtain fs2 rp where pu: "publish (sa_armed a) (sa_pidfile a) (sa_labelfile a) pid label p fs1 = (fs2, rp)"
    by fastforce
  consider "\<not> sa_ring a \<or> \<not> is_ok (sa_released a)" | e where "sa_ring a" "is_ok (sa_released a)" "rb = Err e"
    | "sa_ring a" "is_ok (sa_released a)" "rb = Ok ()" "rp = Ok ()" "is_ok (sa_silenced a)"
    | "sa_ring a" "is_ok (sa_released a)" "rb = Ok ()" "rp \<noteq> Ok () \<or> \<not> is_ok (sa_silenced a)"
    by (cases rb) auto
  then show thesis
  proof cases
    case 1
    then show thesis using assms released [of fs]
      by (auto simp: start_locked_def Let_def split: if_splits res.splits)
  next
    case 2
    then show thesis using assms released [of fs1] b
      by (auto simp: start_locked_def Let_def split: if_splits res.splits)
  next
    case 3
    then show thesis using assms up [of fs1] b pu
      by (auto simp: start_locked_def Let_def split: if_splits res.splits)
  next
    case 4
    then have "r \<noteq> Ok () \<and> fs' = after_unlink (sa_remove a)
         (fst (unlink_locked (sa_remove a) (\<not> inherited) p (sa_scan a))) fs2"
      using assms b pu by (auto simp: start_locked_def Let_def split: if_splits res.splits)
    then show thesis using withdrawn 4(3) b pu by blast
  qed
qed

lemma bind_failed:
  assumes "bind_socket us p ck s a fs = (fs', Err e)" and "ba_undone a"
  shows "fs' path = fs path \<or> fs' path = None"
  using assms by (auto simp: bind_socket_def bind_socket_private_def clears remove_file_def Let_def
      split: liveness.splits res.splits if_splits)

lemma bind_untouched:
  "bind_socket us p ck s a fs = (fs', r) \<Longrightarrow> path \<notin> {sp_socket p, sp_pid p, sp_label p} \<Longrightarrow> fs' path = fs path"
  by (auto simp: bind_socket_def Let_def remove_file_other dest!: bind_cleared_only [where path = path]
      split: liveness.splits res.splits if_splits)

lemma bind_bound:
  "bind_socket us p ck s a fs = (fs', Ok u) \<Longrightarrow> fs' (sp_socket p) = Some (Node SocketFile)"
  by (auto simp: bind_socket_def Let_def dest!: bind_cleared_only
      split: liveness.splits res.splits if_splits)

text \<open>The paths a failed start unlinks: the lock's name only where the start took the lock itself.\<close>

lemma withdrawn_paths:
  assumes "is_valid_session_id (sp_id p)"
  shows "{sp_socket p, sp_pid p, sp_label p} \<subseteq> set (fst (unlink_locked remove include_lock p scan))"
    and "set (fst (unlink_locked remove include_lock p scan)) \<subseteq> set (fst (removal_order p scan))"
    and "\<not> include_lock \<Longrightarrow> sp_lock p \<notin> set (fst (unlink_locked remove include_lock p scan))"
proof -
  obtain front where order: "fst (removal_order p scan) = front @ [sp_lock p]"
      "{sp_socket p, sp_pid p, sp_label p} \<subseteq> set front"
  proof (cases scan)
    case (Ok es)
    then show ?thesis using that removal_order_fst [of p es] by (simp add: named_paths_def)
  next
    case (Err e)
    then show ?thesis using that by (simp add: removal_order_def named_paths_def)
  qed
  have paths: "fst (unlink_locked remove include_lock p scan) = (if include_lock then front @ [sp_lock p] else front)"
    using order(1) by (simp add: unlink_locked_def Let_def split_beta)
  show "{sp_socket p, sp_pid p, sp_label p} \<subseteq> set (fst (unlink_locked remove include_lock p scan))"
    using paths order(2) by auto
  show "set (fst (unlink_locked remove include_lock p scan)) \<subseteq> set (fst (removal_order p scan))"
    using paths order(1) by auto
  show "sp_lock p \<notin> set (fst (unlink_locked remove include_lock p scan))" if "\<not> include_lock"
    using lock_once [OF assms, of scan] paths order(1) that by simp
qed

lemma lock_is_there: "sp_lock p \<in> set (fst (removal_order p scan))"
  by (simp add: removal_order_def split_beta Let_def)

lemma inherit_not_created: "inherit_spawn_lock getfd setfd a = Ok created \<Longrightarrow> \<not> created"
  by (simp add: inherit_spawn_lock_def split: res.splits if_splits)

lemma start_cases:
  assumes "start us inherited a pid label dir sid fs = (fs', r)" and "in_dir dir sid = Ok p"
  obtains "r \<noteq> Ok ()" "fs' = fs"
  | created where "publishing inherited a = Ok created"
      "start_locked us inherited created a pid label p fs = (fs', r)" "inherited \<longrightarrow> \<not> created"
  using assms inherit_not_created
  by (auto simp: start_def publishing_def split: res.splits if_splits option.splits)

text \<open>
  C26. A start comes up whole or not at all.  Where it succeeds, the socket is bound, the pidfile
  holds the server's pid whole and the lock's name stays; where it fails, and its unlinks take, the
  socket, the pidfile and the label are each gone or as they were.  A handed-over
  lock is never unlinked, its owner still being out there; and no path is touched that removing
  the session would not touch.
\<close>

theorem start_whole_or_withdrawn:
  assumes "start us inherited a pid label dir sid fs = (fs', r)" and "in_dir dir sid = Ok p"
    and "\<forall>path. sa_remove a path = Ok ()" and "ba_undone (sa_bind a)"
  shows "(if r = Ok ()
     then fs' (sp_socket p) = Some (Node SocketFile) \<and>
       fs' (sp_pid p) = Some (Regular (pid_body pid) FILE_MODE) \<and> fs' (sp_lock p) = fs (sp_lock p)
     else \<forall>path \<in> {sp_socket p, sp_pid p, sp_label p}. fs' path = None \<or> fs' path = fs path) \<and>
    (inherited \<longrightarrow> fs' (sp_lock p) = fs (sp_lock p)) \<and>
    (path \<notin> set (fst (removal_order p (sa_scan a))) \<longrightarrow> fs' path = fs path)"
  using assms(1,2)
proof (cases rule: start_cases)
  case 1
  then show ?thesis by simp
next
  case (2 created)
  have valid: "is_valid_session_id (sp_id p)" using assms(2) by (auto simp: in_dir_def Let_def split: if_splits)
  note mine = withdrawn_paths [OF valid, where remove = "sa_remove a" and scan = "sa_scan a"]
  note apart = names_distinct [of p]
  have all: "{sp_socket p, sp_pid p, sp_label p, sp_lock p} \<subseteq> set (fst (removal_order p (sa_scan a)))"
    using mine(1,2) lock_is_there by blast
  then have outside: "path \<notin> {sp_socket p, sp_pid p, sp_label p, sp_lock p}"
    if "path \<notin> set (fst (removal_order p (sa_scan a)))" using that by blast
  from 2(2) show ?thesis
  proof (cases rule: start_locked_cases)
    case (released fs1)
    have only: "other \<notin> {sp_socket p, sp_pid p, sp_label p} \<Longrightarrow> fs1 other = fs other" for other
      using released(2) bind_untouched by blast
    have "fs1 other = fs other \<or> fs1 other = None" for other
      using released(2) bind_failed [OF _ assms(4)] by metis
    then show ?thesis
      using released(1,3) only [of path] only [of "sp_lock p"] 2(3) apart outside
      by (auto simp: release_lock_name_def remove_file_def)
  next
    case (up fs1)
    show ?thesis
      using up(1) bind_bound [OF up(2)] bind_untouched [OF up(2)] publish_only [OF up(3)] apart outside
      by auto
  next
    case (withdrawn fs1 fs2 r2)
    let ?gone = "fst (unlink_locked (sa_remove a) (\<not> inherited) p (sa_scan a))"
    have at: "fs' other = (if other \<in> set ?gone then None else fs2 other)" for other
      using withdrawn(4) assms(3) by (simp add: after_unlink_def)
    have "fs2 other = fs other" if "other \<notin> {sp_socket p, sp_pid p, sp_label p}" for other
      using that bind_untouched [OF withdrawn(2)] publish_only [OF withdrawn(3)] by simp
    then show ?thesis
      using withdrawn(1) at mine [where include_lock = "\<not> inherited"] apart outside by auto
  qed
qed

theorem start_whole_or_withdrawn_witness:
  "fst (start 1000 True
     \<lparr>sa_closed = Ok (), sa_run_dir = Ok (), sa_getfd = Ok (), sa_setfd = Ok (),
       sa_passes = (\<lambda>_. \<lparr>lp_create = Err EEXIST, lp_open = Ok (), lp_lstat = Ok RegularFile,
         lp_fstat = Ok RegularFile, lp_flock = Ok (), lp_same = True, lp_remove = Ok ()\<rparr>),
       sa_ring = True, sa_released = Ok (), sa_clock = (0, []), sa_connects = [CnErr ENOENT],
       sa_bind = \<lparr>ba_remove = Ok (), ba_pid_cleared = True, ba_label_cleared = True, ba_bind = Ok (),
         ba_nonblock = Ok (), ba_undone = True\<rparr>,
       sa_armed = Ok (),
       sa_pidfile = \<lparr>wa_removed = True, wa_create = Ok (), wa_write = Some (1, EIO)\<rparr>,
       sa_labelfile = \<lparr>wa_removed = True, wa_create = Ok (), wa_write = None\<rparr>,
       sa_silenced = Ok (), sa_remove = (\<lambda>_. Ok ()), sa_scan = Ok []\<rparr> 4711 None
     (ascii ''/r'') (ascii ''a'') (\<lambda>_. None)) (sp_lock \<lparr>sp_dir = ascii ''/r'', sp_id = ascii ''a''\<rparr>) = None"
  (is "fst (start 1000 True ?a 4711 None ?dir ?sid ?fs) _ = None")
proof -
  have p: "in_dir ?dir ?sid = Ok \<lparr>sp_dir = ?dir, sp_id = ?sid\<rparr>"
    by (simp add: in_dir_def ascii_def is_valid_session_id_def is_id_byte_def MAX_SESSION_ID_LEN_def
        LONGEST_SOCKET_EXT_def SUN_PATH_MAX_def)
  show ?thesis
    using start_whole_or_withdrawn [OF prod.collapse [symmetric] p, where us = 1000 and inherited = True and a = ?a and pid = 4711 and label = None and fs = ?fs] by simp
qed

end
