(* ===== verification/Exec.thy ===== *)
theory Exec
  imports RunFiles
begin

text \<open>
  The children the program starts, after src/crates/nomux/src/exec.rs: the command line and the
  environment built before the fork, the descriptors as the parent and the child leave them, and
  the pipe a failed \<open>execve\<close> is reported down.  A C string is its bytes, without the terminator.
\<close>

section \<open>The program and its environment\<close>

datatype spawn_failure = InvalidInput | SpawnErrno errno | ChildErrno u32

record exec_program =
  pr_path :: bytes
  pr_args :: "bytes list"
  pr_overrides :: "bytes list"
  pr_dir :: "bytes option"

definition nul_terminated :: "bytes \<Rightarrow> (bytes, spawn_failure) res" where
  "nul_terminated bs = (if 0 \<in> set bs then Err InvalidInput else Ok bs)"

definition program_new :: "bytes \<Rightarrow> bytes \<Rightarrow> (exec_program, spawn_failure) res" where
  "program_new path argv0 =
     and_then (nul_terminated path) (\<lambda>path.
     and_then (nul_terminated argv0) (\<lambda>argv0.
       Ok \<lparr>pr_path = path, pr_args = [argv0], pr_overrides = [], pr_dir = None\<rparr>))"

definition program_arg :: "bytes \<Rightarrow> exec_program \<Rightarrow> (exec_program, spawn_failure) res" where
  "program_arg arg p = and_then (nul_terminated arg) (\<lambda>arg. Ok (p\<lparr>pr_args := pr_args p @ [arg]\<rparr>))"

text \<open>The key of an entry: what precedes its first \<open>=\<close>.\<close>

definition key_of :: "bytes \<Rightarrow> bytes option" where
  "key_of entry = (if 61 \<in> set entry then Some (takeWhile (\<lambda>b. b \<noteq> 61) entry) else None)"

definition program_env ::
  "bytes \<Rightarrow> bytes \<Rightarrow> exec_program \<Rightarrow> (exec_program, spawn_failure) res" where
  "program_env key val p =
     (if key = [] \<or> 61 \<in> set key then Err InvalidInput
      else and_then (nul_terminated (key @ 61 # val)) (\<lambda>entry.
        Ok (p\<lparr>pr_overrides := filter (\<lambda>held. key_of held \<noteq> Some key) (pr_overrides p) @ [entry]\<rparr>)))"

definition current_dir :: "bytes \<Rightarrow> exec_program \<Rightarrow> (exec_program, spawn_failure) res" where
  "current_dir dir p = and_then (nul_terminated dir) (\<lambda>dir. Ok (p\<lparr>pr_dir := Some dir\<rparr>))"

definition shadowed :: "bytes \<Rightarrow> bytes list \<Rightarrow> bool" where
  "shadowed entry overrides =
     (case key_of entry of
        None \<Rightarrow> False
      | Some key \<Rightarrow> list_ex (\<lambda>held. key_of held = Some key) overrides)"

definition environment :: "bytes list \<Rightarrow> bytes list \<Rightarrow> bytes list" where
  "environment block overrides = filter (\<lambda>entry. \<not> shadowed entry overrides) block @ overrides"

text \<open>What a C program finds in a block: the first entry of that key.\<close>

definition value_of :: "bytes \<Rightarrow> bytes" where
  "value_of entry = tl (dropWhile (\<lambda>b. b \<noteq> 61) entry)"

fun getenv :: "bytes \<Rightarrow> bytes list \<Rightarrow> bytes option" where
  "getenv key [] = None"
| "getenv key (entry # block) = (if key_of entry = Some key then Some (value_of entry) else getenv key block)"

text \<open>A series of \<open>Program::env\<close> calls.\<close>

fun set_all :: "(bytes \<times> bytes) list \<Rightarrow> exec_program \<Rightarrow> (exec_program, spawn_failure) res" where
  "set_all [] p = Ok p"
| "set_all ((key, val) # kvs) p = and_then (program_env key val p) (set_all kvs)"

lemma key_of_entry: "61 \<notin> set key \<Longrightarrow> key_of (key @ 61 # val) = Some key"
  by (simp add: key_of_def take_to_sep)

lemma value_of_entry: "61 \<notin> set key \<Longrightarrow> value_of (key @ 61 # val) = val"
  by (simp add: value_of_def drop_to_sep)

lemma getenv_append: "getenv key (xs @ ys) = (case getenv key xs of Some v \<Rightarrow> Some v | None \<Rightarrow> getenv key ys)"
  by (induction xs) auto

lemma getenv_None: "getenv key xs = None \<longleftrightarrow> (\<forall>entry \<in> set xs. key_of entry \<noteq> Some key)"
  by (induction xs) auto

lemma getenv_filter:
  "(\<And>entry. key_of entry = Some key \<Longrightarrow> P entry) \<Longrightarrow> getenv key (filter P xs) = getenv key xs"
  by (induction xs) auto

lemma getenv_environment:
  "getenv key (environment block overrides) =
     (case getenv key overrides of Some v \<Rightarrow> Some v | None \<Rightarrow> getenv key block)"
proof (cases "getenv key overrides")
  case None
  then have "\<not> shadowed entry overrides" if "key_of entry = Some key" for entry
    using that by (auto simp: shadowed_def getenv_None list_ex_iff)
  then show ?thesis using None by (simp add: environment_def getenv_append getenv_filter split: option.split)
next
  case (Some v)
  then have "\<exists>held \<in> set overrides. key_of held = Some key" by (metis getenv_None option.distinct(1))
  then have "getenv key (filter (\<lambda>entry. \<not> shadowed entry overrides) block) = None"
    by (auto simp: getenv_None shadowed_def list_ex_iff)
  then show ?thesis using Some by (simp add: environment_def getenv_append)
qed

lemma program_env_Ok:
  assumes "program_env key val p = Ok q"
  shows "key \<noteq> []" "61 \<notin> set key" "0 \<notin> set key" "0 \<notin> set val"
    and "q = p\<lparr>pr_overrides := filter (\<lambda>held. key_of held \<noteq> Some key) (pr_overrides p) @ [key @ 61 # val]\<rparr>"
  using assms by (auto simp: program_env_def nul_terminated_def split: if_splits)

lemma getenv_program_env:
  assumes "program_env key val p = Ok q"
  shows "getenv k (pr_overrides q) = (if k = key then Some val else getenv k (pr_overrides p))"
proof -
  note q = program_env_Ok [OF assms]
  have "getenv key (filter (\<lambda>held. key_of held \<noteq> Some key) (pr_overrides p)) = None"
    by (simp add: getenv_None)
  moreover have "getenv k (filter (\<lambda>held. key_of held \<noteq> Some key) (pr_overrides p))
      = getenv k (pr_overrides p)" if "k \<noteq> key" using that by (auto intro: getenv_filter)
  ultimately show ?thesis
    using q(2) by (auto simp: q(5) getenv_append key_of_entry value_of_entry split: option.split)
qed

text \<open>Every override names a key, no two the same one.\<close>

definition overrides_ok :: "exec_program \<Rightarrow> bool" where
  "overrides_ok p \<longleftrightarrow> None \<notin> set (map key_of (pr_overrides p)) \<and> distinct (map key_of (pr_overrides p))"

lemma program_env_overrides_ok:
  assumes "program_env key val p = Ok q" and "overrides_ok p"
  shows "overrides_ok q"
proof -
  note q = program_env_Ok [OF assms(1)]
  show ?thesis
    using assms(2) q(2) by (auto simp: overrides_ok_def q(5) key_of_entry distinct_map inj_on_def)
qed

lemma set_all_spec:
  "set_all kvs p = Ok q \<Longrightarrow> overrides_ok p \<Longrightarrow>
     overrides_ok q \<and> (\<forall>k. getenv k (pr_overrides q) =
       (case map_of (rev kvs) k of Some v \<Rightarrow> Some v | None \<Rightarrow> getenv k (pr_overrides p)))"
proof (induction kvs p rule: set_all.induct)
  case (2 key val kvs p)
  then obtain p' where p': "program_env key val p = Ok p'" "set_all kvs p' = Ok q"
    by (auto simp: and_then_eq_Ok)
  show ?case
    using "2.IH" [OF p'(2)] program_env_overrides_ok [OF p'(1) "2.prems"(2)] getenv_program_env [OF p'(1)]
    by (auto simp: map_add_def split: option.split)
qed simp

lemma filter_distinct_key:
  "distinct (map f xs) \<Longrightarrow> length (filter (\<lambda>x. f x = y) xs) = (if y \<in> f ` set xs then 1 else 0)"
  by (induction xs) auto

text \<open>
  A child's environment is its parent's with the settings made on it: what it reads for a name
  is the last value set, and the inherited one where none was; a name that was set is in the
  block exactly once, however often the inherited block holds it; and every other entry is
  carried over unchanged and in order.
\<close>

theorem environment_is_an_update:
  assumes "and_then (program_new path argv0) (set_all kvs) = Ok p"
  shows "getenv k (environment block (pr_overrides p))
      = (case map_of (rev kvs) k of Some v \<Rightarrow> Some v | None \<Rightarrow> getenv k block) \<and>
    length (filter (\<lambda>entry. key_of entry = Some k) (environment block (pr_overrides p)))
      = (if k \<in> fst ` set kvs then 1
         else length (filter (\<lambda>entry. key_of entry = Some k) block)) \<and>
    (\<exists>kept. environment block (pr_overrides p) = kept @ pr_overrides p \<and>
       kept = filter (\<lambda>entry. key_of entry \<notin> Some ` fst ` set kvs) block)"
proof -
  obtain p0 where p0: "program_new path argv0 = Ok p0" "set_all kvs p0 = Ok p"
    using assms by (auto simp: and_then_eq_Ok)
  have fresh: "pr_overrides p0 = []" using p0(1) by (auto simp: program_new_def and_then_eq_Ok)
  have ok: "overrides_ok p" and get: "getenv key (pr_overrides p) = map_of (rev kvs) key" for key
    using set_all_spec [OF p0(2)] fresh by (auto simp: overrides_ok_def split: option.split)
  have named: "key \<in> fst ` set kvs \<longleftrightarrow> getenv key (pr_overrides p) \<noteq> None" for key
    by (simp add: get map_of_eq_None_iff flip: dom_map_of_conv_image_fst)
  have shadow: "shadowed entry (pr_overrides p) \<longleftrightarrow> key_of entry \<in> Some ` fst ` set kvs" for entry
    unfolding image_iff [of _ Some] Bex_def named
    by (auto simp: shadowed_def list_ex_iff getenv_None split: option.split)
  have "Some k \<in> key_of ` set (pr_overrides p) \<longleftrightarrow> k \<in> fst ` set kvs"
    unfolding named getenv_None by force
  then have "length (filter (\<lambda>entry. key_of entry = Some k) (pr_overrides p)) = (if k \<in> fst ` set kvs then 1 else 0)"
    using ok filter_distinct_key [of key_of "pr_overrides p" "Some k"] by (simp add: overrides_ok_def)
  moreover have "filter (\<lambda>entry. key_of entry = Some k)
        (filter (\<lambda>entry. key_of entry \<notin> Some ` fst ` set kvs) block)
      = (if k \<in> fst ` set kvs then [] else filter (\<lambda>entry. key_of entry = Some k) block)"
    by (auto simp: filter_empty_conv intro!: filter_cong) (metis fst_conv image_eqI)
  ultimately show ?thesis
    by (simp add: getenv_environment get) (simp add: environment_def shadow)
qed

theorem environment_is_an_update_witness:
  "getenv [84] (environment [[84, 61, 120], [85, 61], [84, 61, 121]] [[84, 61, 122]]) = Some [122]"
proof -
  have "and_then (program_new [47] [45]) (set_all [([84], [121]), ([84], [122])])
      = Ok \<lparr>pr_path = [47], pr_args = [[45]], pr_overrides = [[84, 61, 122]], pr_dir = None\<rparr>"
    by (simp add: program_new_def nul_terminated_def program_env_def key_of_def)
  from conjunct1 [OF environment_is_an_update [OF this, of "[84]" "[[84, 61, 120], [85, 61], [84, 61, 121]]"]]
  show ?thesis by (simp del: getenv.simps)
qed

section \<open>Descriptors across the fork\<close>

text \<open>
  A descriptor table: the open file behind each number, and whether the number is closed on exec.
  \<open>lim\<close> is the process's limit on descriptor numbers.
\<close>

type_synonym fdtable = "nat \<Rightarrow> (nat \<times> bool) option"

definition lowest_free :: "nat \<Rightarrow> nat \<Rightarrow> fdtable \<Rightarrow> nat option" where
  "lowest_free lim low t = find (\<lambda>n. t n = None) [low..<lim]"

definition above_stdio :: "nat \<Rightarrow> nat \<Rightarrow> fdtable \<Rightarrow> (nat \<times> fdtable, spawn_failure) res" where
  "above_stdio lim fd t =
     (case t fd of
        None \<Rightarrow> Err (SpawnErrno EBADF)
      | Some (f, _) \<Rightarrow>
          (case lowest_free lim 3 t of
             None \<Rightarrow> Err (SpawnErrno EMFILE)
           | Some n \<Rightarrow> Ok (n, t(n \<mapsto> (f, True)))))"

text \<open>\<open>pipe_with(CLOEXEC)\<close> over the two ends \<open>r\<close> and \<open>w\<close>.\<close>

definition make_pipe :: "nat \<Rightarrow> nat \<Rightarrow> nat \<Rightarrow> fdtable \<Rightarrow> (nat \<times> nat \<times> fdtable, spawn_failure) res" where
  "make_pipe lim r w t =
     (case lowest_free lim 0 t of
        None \<Rightarrow> Err (SpawnErrno EMFILE)
      | Some a \<Rightarrow>
          (let t = t(a \<mapsto> (r, True))
           in case lowest_free lim 0 t of
                None \<Rightarrow> Err (SpawnErrno EMFILE)
              | Some b \<Rightarrow> Ok (a, b, t(b \<mapsto> (w, True)))))"

text \<open>The parent's half up to the fork: the three raised copies, the report and the failure end.\<close>

record ready_fds =
  rf_stdio :: "nat list"
  rf_report :: nat
  rf_fail :: nat

definition spawn_fds ::
  "nat \<Rightarrow> nat \<Rightarrow> nat \<Rightarrow> nat \<Rightarrow> nat \<Rightarrow> nat \<Rightarrow> fdtable \<Rightarrow> (ready_fds \<times> fdtable, spawn_failure) res" where
  "spawn_fds lim r w input out diagnostics t =
     and_then (above_stdio lim input t) (\<lambda>(i, t).
     and_then (above_stdio lim out t) (\<lambda>(o', t).
     and_then (above_stdio lim diagnostics t) (\<lambda>(d, t).
     and_then (make_pipe lim r w t) (\<lambda>(report, bound, t).
     and_then (above_stdio lim bound t) (\<lambda>(failure, t).
       Ok (\<lparr>rf_stdio = [i, o', d], rf_report = report, rf_fail = failure\<rparr>, t(bound := None)))))))"

text \<open>The parent once it has returned: its copies and both ends of the pipe closed.\<close>

definition parent_after :: "ready_fds \<Rightarrow> fdtable \<Rightarrow> fdtable" where
  "parent_after rf t = (\<lambda>n. if n \<in> set (rf_stdio rf) \<or> n = rf_report rf \<or> n = rf_fail rf then None else t n)"

text \<open>A call retried past every signal, over what its tries answer.\<close>

fun retry_intr :: "(unit, errno) res list \<Rightarrow> (unit, errno) res \<times> (unit, errno) res list" where
  "retry_intr [] = (Ok (), [])"
| "retry_intr (r # s) = (if r = Err EINTR then retry_intr s else (r, s))"

text \<open>\<open>dup2\<close>: onto itself it changes nothing, and otherwise clears \<open>CLOEXEC\<close>.\<close>

definition dup2 :: "nat \<Rightarrow> nat \<Rightarrow> fdtable \<Rightarrow> fdtable" where
  "dup2 src slot t =
     (case t src of
        None \<Rightarrow> t
      | Some (f, _) \<Rightarrow> if src = slot then t else t(slot \<mapsto> (f, False)))"

fun place :: "(nat \<times> nat) list \<Rightarrow> (unit, errno) res list \<Rightarrow> fdtable \<Rightarrow> fdtable \<times> (unit, errno) res" where
  "place [] answers t = (t, Ok ())"
| "place ((src, slot) # rest) answers t =
     (case retry_intr answers of
        (Err e, _) \<Rightarrow> (t, Err e)
      | (Ok _, answers) \<Rightarrow> place rest answers (dup2 src slot t))"

text \<open>
  The child up to its \<open>execve\<close>: \<open>in_child\<close>, the three placements, the directory; the error of the
  first that failed, and the exec's own otherwise.
\<close>

datatype child_result = Replaced fdtable | Failed_with errno

record child_answers =
  ca_dups :: "(unit, errno) res list"
  ca_chdir :: "(unit, errno) res"
  ca_exec :: "errno option"

definition prepare ::
  "(nat list \<Rightarrow> fdtable \<Rightarrow> (fdtable, errno) res) \<Rightarrow> child_answers \<Rightarrow> nat list \<Rightarrow> bytes option
     \<Rightarrow> fdtable \<Rightarrow> child_result" where
  "prepare in_child a stdio dir t =
     (case in_child stdio t of
        Err e \<Rightarrow> Failed_with e
      | Ok t \<Rightarrow>
          (case place (zip stdio [0, 1, 2]) (ca_dups a) t of
             (_, Err e) \<Rightarrow> Failed_with e
           | (t, Ok _) \<Rightarrow>
               (case (case dir of None \<Rightarrow> Ok () | Some _ \<Rightarrow> ca_chdir a) of
                  Err e \<Rightarrow> Failed_with e
                | Ok _ \<Rightarrow>
                    (case ca_exec a of
                       Some e \<Rightarrow> Failed_with e
                     | None \<Rightarrow> Replaced (\<lambda>n. case t n of Some (f, True) \<Rightarrow> None | e \<Rightarrow> e)))))"

text \<open>The report as the parent reads it: up to the four bytes of an \<open>i32\<close>.\<close>

fun read_report :: "nat \<Rightarrow> os_read list \<Rightarrow> bytes" where
  "read_report room [] = []"
| "read_report room (RdErr e # s) = (if e = EINTR then read_report room s else [])"
| "read_report room (RdOk bs # s) =
     (if bs = [] then []
      else if room \<le> length bs then take room bs
      else bs @ read_report (room - length bs) s)"

definition ne_bytes :: "u32 \<Rightarrow> bytes" where
  "ne_bytes w = rev (word_be 4 w)"

definition from_ne_bytes :: "bytes \<Rightarrow> u32" where
  "from_ne_bytes bs = be_word (rev bs)"

text \<open>What \<open>spawn\<close> answers with, of the pid the fork gave and the report.\<close>

definition spawned :: "nat \<Rightarrow> os_read list \<Rightarrow> (nat, spawn_failure) res" where
  "spawned pid script =
     (let report = read_report 4 script
      in if length report = 4 then Err (ChildErrno (from_ne_bytes report)) else Ok pid)"

lemma lowest_free_Some: "lowest_free lim low t = Some n \<Longrightarrow> low \<le> n \<and> n < lim \<and> t n = None"
  by (auto simp: lowest_free_def find_Some_iff)

lemma above_stdio_Ok:
  assumes "above_stdio lim fd t = Ok (n, t')"
  shows "3 \<le> n \<and> t n = None \<and> (\<exists>f c. t fd = Some (f, c) \<and> t' = t(n \<mapsto> (f, True)))"
  using assms by (auto simp: above_stdio_def dest!: lowest_free_Some split: option.splits prod.splits)

lemma make_pipe_Ok:
  assumes "make_pipe lim r w t = Ok (a, b, t')"
  shows "t a = None" "t b = None" "a \<noteq> b" "t' = t(a \<mapsto> (r, True), b \<mapsto> (w, True))"
  using assms by (auto simp: make_pipe_def Let_def dest!: lowest_free_Some split: option.splits if_splits)

lemma place_Ok: "place moves answers t = (t', Ok ()) \<Longrightarrow> t' = fold (\<lambda>(src, slot). dup2 src slot) moves t"
  by (induction moves answers t rule: place.induct) (auto split: prod.splits res.splits)

lemma upd_None: "(t(n \<mapsto> x)) m = None \<longleftrightarrow> m \<noteq> n \<and> t m = None"
  by simp

lemma spawn_fds_Ok:
  assumes "spawn_fds lim r w a b c t = Ok (rf, t')"
    and "t a = Some (fa, ca)" and "t b = Some (fb, cb)" and "t c = Some (fc, cc)"
  obtains i o' d where "rf_stdio rf = [i, o', d]"
    "3 \<le> i" "3 \<le> o'" "3 \<le> d" "3 \<le> rf_fail rf"
    "distinct [i, o', d, rf_report rf, rf_fail rf]"
    "\<forall>n \<in> {i, o', d, rf_report rf, rf_fail rf}. t n = None"
    "t' = t(i \<mapsto> (fa, True), o' \<mapsto> (fb, True), d \<mapsto> (fc, True), rf_report rf \<mapsto> (r, True),
       rf_fail rf \<mapsto> (w, True))"
proof -
  obtain i t1 o' t2 d t3 rep bound t4 fl t5 where steps:
    "above_stdio lim a t = Ok (i, t1)" "above_stdio lim b t1 = Ok (o', t2)"
    "above_stdio lim c t2 = Ok (d, t3)" "make_pipe lim r w t3 = Ok (rep, bound, t4)"
    "above_stdio lim bound t4 = Ok (fl, t5)"
    "rf = \<lparr>rf_stdio = [i, o', d], rf_report = rep, rf_fail = fl\<rparr>" "t' = t5(bound := None)"
    using assms(1) by (auto simp: spawn_fds_def and_then_eq_Ok)
  have i: "3 \<le> i" "t i = None" and t1: "t1 = t(i \<mapsto> (fa, True))"
    using above_stdio_Ok [OF steps(1)] assms(2) by auto
  then have "t1 b = Some (fb, cb)" using assms(3) by auto
  then have o': "3 \<le> o'" "t1 o' = None" and t2: "t2 = t1(o' \<mapsto> (fb, True))"
    using above_stdio_Ok [OF steps(2)] by auto
  then have "t2 c = Some (fc, cc)" using assms(4) i t1 by auto
  then have d: "3 \<le> d" "t2 d = None" and t3: "t3 = t2(d \<mapsto> (fc, True))"
    using above_stdio_Ok [OF steps(3)] by auto
  note p = make_pipe_Ok [OF steps(4)]
  have fl: "3 \<le> fl" "t4 fl = None" and t5: "t5 = t4(fl \<mapsto> (w, True))"
    using above_stdio_Ok [OF steps(5)] p(4) by auto
  note free = i(2) o'(2) [unfolded t1 upd_None] d(2) [unfolded t2 t1 upd_None]
    p(1,2) [unfolded t3 t2 t1 upd_None] fl(2) [unfolded p(4) t3 t2 t1 upd_None]
  have "t' = t(i \<mapsto> (fa, True), o' \<mapsto> (fb, True), d \<mapsto> (fc, True), rep \<mapsto> (r, True), fl \<mapsto> (w, True))"
  proof
    fix n
    show "t' n = (t(i \<mapsto> (fa, True), o' \<mapsto> (fb, True), d \<mapsto> (fc, True), rep \<mapsto> (r, True), fl \<mapsto> (w, True))) n"
      using free p(3) unfolding steps(7) t5 p(4) t3 t2 t1 by simp
  qed
  moreover have "distinct [i, o', d, rep, fl]" using free by auto
  ultimately show thesis
    using that [of i o' d] i o'(1) d(1) fl(1) free unfolding steps(6) by simp
qed

text \<open>
  The child of \<open>spawn\<close> starts with exactly the three descriptors it was given on 0, 1 and 2, whatever
  their numbers were, 0, 1 and 2 in any permutation included: none is overwritten before it is
  placed.  Every other number is what \<open>in_child\<close> left there, gone where it was to close on exec, the
  pipe among them; and the parent is left with the descriptors it had.
\<close>

theorem child_gets_its_stdio:
  assumes "spawn_fds lim r w a b c t = Ok (rf, tp)"
    and "t a = Some (fa, ca)" and "t b = Some (fb, cb)" and "t c = Some (fc, cc)"
    and "in_child (rf_stdio rf) tp = Ok ts"
    and "\<forall>n \<in> set (rf_stdio rf). map_option fst (ts n) = map_option fst (tp n)"
    and "prepare in_child ans (rf_stdio rf) dir tp = Replaced child"
  shows "child 0 = Some (fa, False) \<and> child 1 = Some (fb, False) \<and> child 2 = Some (fc, False) \<and>
    (\<forall>n. if n \<le> 2 then True else child n = (case ts n of Some (f, True) \<Rightarrow> None | d \<Rightarrow> d)) \<and>
    parent_after rf tp = t"
proof -
  obtain i o' d where rf: "rf_stdio rf = [i, o', d]" "3 \<le> i" "3 \<le> o'" "3 \<le> d"
    "distinct [i, o', d, rf_report rf, rf_fail rf]"
    "\<forall>n \<in> {i, o', d, rf_report rf, rf_fail rf}. t n = None"
    "tp = t(i \<mapsto> (fa, True), o' \<mapsto> (fb, True), d \<mapsto> (fc, True), rf_report rf \<mapsto> (r, True),
       rf_fail rf \<mapsto> (w, True))"
    using spawn_fds_Ok [OF assms(1-4)] by metis
  obtain ci co cd where ts: "ts i = Some (fa, ci)" "ts o' = Some (fb, co)" "ts d = Some (fc, cd)"
    using assms(6) rf(1,5,7) by auto
  obtain t3 where t3: "place (zip [i, o', d] [0, 1, 2]) (ca_dups ans) ts = (t3, Ok ())"
      "child = (\<lambda>n. case t3 n of Some (f, True) \<Rightarrow> None | e \<Rightarrow> e)"
    using assms(5,7) rf(1) by (auto simp: prepare_def split: res.splits prod.splits option.splits)
  have "t3 = ts(0 \<mapsto> (fa, False), 1 \<mapsto> (fb, False), 2 \<mapsto> (fc, False))"
    using place_Ok [OF t3(1)] ts rf(2-4) by (simp add: dup2_def)
  then have "child 0 = Some (fa, False)" "child 1 = Some (fb, False)" "child 2 = Some (fc, False)"
      "\<forall>n. if n \<le> 2 then True else child n = (case ts n of Some (f, True) \<Rightarrow> None | d \<Rightarrow> d)"
    by (auto simp: t3(2))
  moreover have "parent_after rf tp = t"
    using rf by (auto simp: parent_after_def fun_eq_iff)
  ultimately show ?thesis by blast
qed

text \<open>Descriptors 0, 1 and 2 handed over in reverse, over a preparation that lets descriptor 9 through.\<close>

theorem child_gets_its_stdio_witness:
  "\<exists>child. prepare (\<lambda>_ t. Ok (t(9 \<mapsto> (79, False)))) \<lparr>ca_dups = [Err EINTR], ca_chdir = Ok (), ca_exec = None\<rparr>
       [3, 4, 5] None ([0 \<mapsto> (70, False), 1 \<mapsto> (71, False), 2 \<mapsto> (72, False), 9 \<mapsto> (79, True),
         3 \<mapsto> (72, True), 4 \<mapsto> (71, True), 5 \<mapsto> (70, True), 6 \<mapsto> (80, True), 8 \<mapsto> (81, True)]) = Replaced child \<and>
     child 0 = Some (72, False) \<and> child 2 = Some (70, False) \<and> child 9 = Some (79, False) \<and> child 8 = None"
proof -
  let ?t = "[0 \<mapsto> (70, False), 1 \<mapsto> (71, False), 2 \<mapsto> (72, False), 9 \<mapsto> (79, True)] :: fdtable"
  let ?tp = "[0 \<mapsto> (70, False), 1 \<mapsto> (71, False), 2 \<mapsto> (72, False), 9 \<mapsto> (79, True),
         3 \<mapsto> (72, True), 4 \<mapsto> (71, True), 5 \<mapsto> (70, True), 6 \<mapsto> (80, True), 8 \<mapsto> (81, True)] :: fdtable"
  let ?in_child = "\<lambda>_ :: nat list. \<lambda>t :: fdtable. Ok (t(9 \<mapsto> (79, False)))"
  let ?ans = "\<lparr>ca_dups = [Err EINTR], ca_chdir = Ok (), ca_exec = None\<rparr>"
  have "spawn_fds 20 80 81 2 1 0 ?t = Ok (\<lparr>rf_stdio = [3, 4, 5], rf_report = 6, rf_fail = 8\<rparr>, ?tp)"
    by (simp add: spawn_fds_def above_stdio_def make_pipe_def lowest_free_def upt_rec fun_eq_iff)
  moreover obtain child where child: "prepare ?in_child ?ans [3, 4, 5] None ?tp = Replaced child"
    by (simp add: prepare_def)
  ultimately show ?thesis
    using child_gets_its_stdio [of 20 80 81 2 1 0 ?t "\<lparr>rf_stdio = [3, 4, 5], rf_report = 6, rf_fail = 8\<rparr>" ?tp
        72 False 71 False 70 False ?in_child "?tp(9 \<mapsto> (79, False))" ?ans None child] by auto
qed

lemma read_report_holds: "holds content s \<Longrightarrow> read_report room s = take room content"
  by (induction arbitrary: room rule: holds.induct) auto

lemma length_ne_bytes: "length (ne_bytes w) = 4"
  by (simp add: ne_bytes_def)

lemma ne_bytes_back: "from_ne_bytes (ne_bytes w) = w"
  by (simp add: from_ne_bytes_def ne_bytes_def be_word_word_be)

text \<open>
  A child that never became its program is reported as the error it stopped at, and only that:
  however the four bytes arrive, in pieces and between signals, \<open>spawn\<close> answers with the errno
  of the first step that failed, and with the pid where the exec closed the pipe in silence.
\<close>

theorem failed_exec_is_reported:
  assumes "holds (case prepare in_child ans stdio dir t of
      Failed_with e \<Rightarrow> ne_bytes (raw_os_error e) | Replaced _ \<Rightarrow> []) script"
  shows "spawned pid script = (case prepare in_child ans stdio dir t of
      Failed_with e \<Rightarrow> Err (ChildErrno (raw_os_error e)) | Replaced _ \<Rightarrow> Ok pid)"
  using assms
  by (cases "prepare in_child ans stdio dir t")
    (simp_all add: spawned_def read_report_holds ne_bytes_back length_ne_bytes)

theorem failed_exec_is_reported_witness:
  "spawned 77 [RdErr EINTR, RdOk [2], RdOk [0, 0], RdErr EINTR, RdOk [0], RdOk []]
     = Err (ChildErrno 2)"
proof -
  let ?ans = "\<lparr>ca_dups = [], ca_chdir = Ok (), ca_exec = Some ENOENT\<rparr>"
  let ?raw = "\<lambda>e. (if e = ENOENT then 2 else 5) :: u32"
  have failed: "prepare (\<lambda>_ t. Ok t) ?ans [3, 4, 5] None (\<lambda>_. None) = Failed_with ENOENT"
    by (simp add: prepare_def)
  have "4 = Suc (Suc (Suc (Suc 0)))" by simp
  then have "word_be 4 (2 :: u32) = nat_be (Suc (Suc (Suc (Suc 0)))) 2"
    by (simp only: word_be_def) simp
  then have bytes: "ne_bytes 2 = [2] @ [0, 0] @ [0] @ []"
    by (simp add: ne_bytes_def)
  have "holds (ne_bytes 2) [RdErr EINTR, RdOk [2], RdOk [0, 0], RdErr EINTR, RdOk [0], RdOk []]"
    unfolding bytes by (intro holds.signal holds.piece holds.at_end) simp_all
  then show ?thesis
    using failed_exec_is_reported [where raw_os_error = ?raw and in_child = "\<lambda>_ t. Ok t" and ans = ?ans
        and stdio = "[3, 4, 5]" and dir = None and t = "\<lambda>_. None" and pid = 77]
    by (simp add: failed)
qed

end
