(* ===== verification/Attach.thy ===== *)
theory Attach
  imports Trust Exec
begin

text \<open>
  How \<open>spawn\<close> and \<open>attach\<close> reach a session, after src/crates/nomux/src/attach.rs: the classes a
  failure falls into and the exit status of each, the probe \<open>attach\<close> decides on, and the creation of
  a session under its lock, up to the stream that is then relayed.
\<close>

definition EXIT_UNATTACHABLE :: nat where
  "EXIT_UNATTACHABLE = 126"

definition EXIT_NO_SESSION :: nat where
  "EXIT_NO_SESSION = 127"

definition SPAWN_TIMEOUT :: nat where
  "SPAWN_TIMEOUT = secs 5"

definition SPAWN_POLL_INTERVAL :: nat where
  "SPAWN_POLL_INTERVAL = millis 20"

definition CONNECT_TIMEOUT :: nat where
  "CONNECT_TIMEOUT = secs 2"

definition PUBLISH_POLL_INTERVAL :: nat where
  "PUBLISH_POLL_INTERVAL = millis 1"

section \<open>Failures\<close>

datatype failure_class =
  Collision | Retryable | UnsafeHost | Uncertain | MissingSession | StartupFailure | PostConnect

fun details :: "failure_class \<Rightarrow> bytes \<times> nat" where
  "details Collision = (ascii ''collision'', EXIT_UNATTACHABLE)"
| "details Retryable = (ascii ''retryable'', EXIT_UNATTACHABLE)"
| "details UnsafeHost = (ascii ''unsafe-host'', EXIT_UNATTACHABLE)"
| "details Uncertain = (ascii ''uncertain'', EXIT_UNATTACHABLE)"
| "details MissingSession = (ascii ''missing-session'', EXIT_NO_SESSION)"
| "details StartupFailure = (ascii ''startup-failure'', EXIT_NO_SESSION)"
| "details PostConnect = (ascii ''post-connect'', 1)"

definition failure_token :: "failure_class \<Rightarrow> bytes" where
  "failure_token c = fst (details c)"

definition failure_exit :: "failure_class \<Rightarrow> nat" where
  "failure_exit c = snd (details c)"

text \<open>\<open>resume_probe_class\<close>: the kinds and the raw errors it names.\<close>

definition resume_probe_class :: "connect_error \<Rightarrow> failure_class" where
  "resume_probe_class err =
     (case err of
        CnTimedOut _ \<Rightarrow> Retryable
      | PermissionDenied _ \<Rightarrow> UnsafeHost
      | CnErrno e \<Rightarrow>
          (if e = ETIMEDOUT \<or> e = EAGAIN \<or> e = EINTR \<or> e = ENOMEM \<or> e = EMFILE \<or> e = ENFILE \<or> e = ENOBUFS
           then Retryable
           else if e = EACCES \<or> e = EPERM then UnsafeHost
           else Uncertain))"

section \<open>\<open>attach\<close>: a session that is there\<close>

definition resume ::
  "u32 \<Rightarrow> (bytes list \<Rightarrow> (fmeta, errno) res) \<Rightarrow> dir_answers \<Rightarrow> session_paths \<Rightarrow> clock \<Rightarrow> os_connect list
     \<Rightarrow> (peer, failure_class) res" where
  "resume us lstat a p ck s =
     (case check_run_dir us lstat a (path_parts (sp_dir p)) of
        Err _ \<Rightarrow> Err UnsafeHost
      | Ok None \<Rightarrow> Err MissingSession
      | Ok (Some _) \<Rightarrow>
          (case fst (probe us (sp_socket p) CONNECT_TIMEOUT ck s) of
             LvAlive stream \<Rightarrow> Ok stream
           | LvStale _ \<Rightarrow> Err MissingSession
           | LvUnknown err \<Rightarrow> Err (resume_probe_class err)))"

section \<open>\<open>spawn\<close>: a session of one's own\<close>

text \<open>
  \<open>await_publication\<close>: \<open>bodies k\<close> is what the pidfile's \<open>k\<close>th reading meets.  Every wait is positive
  and the deadline fixed, so it ends.
\<close>

definition published :: "(ftype \<times> dev, errno) res \<Rightarrow> bool" where
  "published opened =
     (case read_prefix MAX_PID_LEN opened of Ok body \<Rightarrow> parse_pid body \<noteq> None | Err _ \<Rightarrow> False)"

function await_publication ::
  "nat \<Rightarrow> clock \<Rightarrow> (nat \<Rightarrow> (ftype \<times> dev, errno) res) \<Rightarrow> nat \<Rightarrow> bool \<times> clock" where
  "await_publication deadline ck bodies k =
     (if published (bodies k) then (True, ck)
      else case clock_now ck of (now, ck) \<Rightarrow>
        (let remaining = deadline - now
         in if remaining = 0 then (False, ck)
            else await_publication deadline
              (clock_sleep (min PUBLISH_POLL_INTERVAL remaining) ck) bodies (Suc k)))"
  by pat_completeness auto
termination
  by (relation "measure (\<lambda>(dl, ck, _). dl - fst ck)")
    (auto simp: clock_sleep_def PUBLISH_POLL_INTERVAL_def millis_def min_def dest!: clock_now_mono [OF sym])

declare await_publication.simps [simp del]

text \<open>The wait for the daemon to bind: \<open>probes k\<close> is what the \<open>k\<close>th probe meets.\<close>

function await_bound ::
  "u32 \<Rightarrow> bytes \<Rightarrow> nat \<Rightarrow> clock \<Rightarrow> (nat \<Rightarrow> os_connect list) \<Rightarrow> (nat \<Rightarrow> (ftype \<times> dev, errno) res) \<Rightarrow> nat
     \<Rightarrow> (peer, failure_class) res" where
  "await_bound us socket deadline ck probes bodies k =
     (case probe us socket CONNECT_TIMEOUT ck (probes k) of
        (LvAlive stream, ck) \<Rightarrow>
          (if fst (await_publication deadline ck bodies 0) then Ok stream else Err Uncertain)
      | (LvStale _, ck) \<Rightarrow>
          (case clock_now ck of (now, ck) \<Rightarrow>
             if deadline \<le> now then Err Uncertain
             else await_bound us socket deadline (clock_sleep SPAWN_POLL_INTERVAL ck) probes bodies (Suc k))
      | (LvUnknown _, ck) \<Rightarrow> Err Uncertain)"
  by pat_completeness auto
termination
proof (relation "measure (\<lambda>(_, _, dl, ck, _). dl - fst ck)", goal_cases)
  case (2 us socket deadline ck probes bodies k l ck1 e x y)
  show ?case
    using probe_then_sleep [OF 2(1,3)] 2(4) by (simp add: SPAWN_POLL_INTERVAL_def millis_def)
qed simp

declare await_bound.simps [simp del]

text \<open>
  What \<open>create\<close> meets, in order: the run directory ensured, the attempts at the lock, the one probe
  under it, the daemon's launch, and what the waits behind it see.
\<close>

record create_answers =
  cr_ensured :: "(unit, dir_refusal) res"
  cr_clock :: clock
  cr_locks :: "(bool option, lock_refusal) res list"
  cr_free :: "os_connect list"
  cr_started :: "(unit, spawn_failure) res"
  cr_unlinked :: bool
  cr_probes :: "nat \<Rightarrow> os_connect list"
  cr_bodies :: "nat \<Rightarrow> (ftype \<times> dev, errno) res"

text \<open>What it leaves: the files, whether a daemon was launched, and the stream or the failure.\<close>

definition create ::
  "u32 \<Rightarrow> create_answers \<Rightarrow> session_paths \<Rightarrow> files \<Rightarrow> files \<times> bool \<times> (peer, failure_class) res" where
  "create us a p fs =
     (case cr_ensured a of
        Err _ \<Rightarrow> (fs, False, Err UnsafeHost)
      | Ok _ \<Rightarrow>
          (case clock_now (cr_clock a) of (now, ck) \<Rightarrow>
             let deadline = now + SPAWN_TIMEOUT
             in case lock_spawn_until deadline ck (cr_locks a) of
                  (Err e, ck) \<Rightarrow> (fs, False, Err (if e = LockTimedOut then Retryable else UnsafeHost))
                | (Ok created, ck) \<Rightarrow>
                    (case probe us (sp_socket p) CONNECT_TIMEOUT ck (cr_free a) of
                       (LvAlive _, ck) \<Rightarrow> (fs, False, Err Collision)
                     | (LvUnknown _, ck) \<Rightarrow> (fs, False, Err Uncertain)
                     | (LvStale _, ck) \<Rightarrow>
                         (case cr_started a of
                            Err _ \<Rightarrow>
                              (release_lock_name created (cr_unlinked a) p fs, False, Err StartupFailure)
                          | Ok _ \<Rightarrow>
                              (fs, True,
                               await_bound us (sp_socket p) deadline ck (cr_probes a) (cr_bodies a) 0)))))"

section \<open>The daemon's command line\<close>

definition daemon_program ::
  "(bytes, errno) res \<Rightarrow> bytes \<Rightarrow> nat list option \<Rightarrow> nat \<Rightarrow> (exec_program, spawn_failure) res" where
  "daemon_program current_exe sid label lock_fd =
     (case current_exe of
        Err e \<Rightarrow> Err (SpawnErrno e)
      | Ok argv0 \<Rightarrow>
          and_then (program_new (ascii ''/proc/self/exe'') argv0) (\<lambda>p.
          and_then (program_arg (ascii ''daemon'') p) (\<lambda>p.
          and_then (program_arg sid p) (\<lambda>p.
          and_then (program_arg (ascii ''--lock-fd'') p) (\<lambda>p.
          and_then (program_arg (map of_nat (show_nat lock_fd)) p) (\<lambda>p.
            case map_option sanitize_label label of
              None \<Rightarrow> Ok p
            | Some label \<Rightarrow>
                (if label = [] then Ok p
                 else and_then (program_arg (ascii ''--label'') p) (program_arg (utf8_encode label)))))))))"

section \<open>What the daemon said\<close>

text \<open>\<open>str::lines\<close>: split behind each newline, a final carriage return dropped with it.\<close>

definition str_lines :: "nat list \<Rightarrow> nat list list" where
  "str_lines cs =
     (let parts = split_on 10 cs
      in map (\<lambda>l. if l \<noteq> [] \<and> last l = 13 then butlast l else l) (butlast parts) @
         (if last parts = [] then [] else [last parts]))"

definition strip_prefix :: "'a list \<Rightarrow> 'a list \<Rightarrow> 'a list option" where
  "strip_prefix pre xs = (if take (length pre) xs = pre then Some (drop (length pre) xs) else None)"

text \<open>\<open>flags\<close> is what \<open>F_GETFL\<close> and \<open>F_SETFL\<close> answer.\<close>

definition daemon_complaint :: "(unit, errno) res \<Rightarrow> dev \<Rightarrow> nat list option" where
  "daemon_complaint flags stderr =
     (case flags of
        Err _ \<Rightarrow> None
      | Ok _ \<Rightarrow>
          (case fst (nbio_read 512 stderr) of
             Err _ \<Rightarrow> None
           | Ok body \<Rightarrow>
               (case find (\<lambda>line. trim line \<noteq> []) (str_lines (from_utf8_lossy body)) of
                  None \<Rightarrow> None
                | Some line \<Rightarrow>
                    (let line = trim line;
                         line = (case strip_prefix (chars ''nomux: '') line of Some l \<Rightarrow> l | None \<Rightarrow> line)
                     in Some (sanitize_text line)))))"

section \<open>What the outcomes mean\<close>

lemma await_publication_True: "fst (await_publication deadline ck bodies k) \<Longrightarrow> \<exists>j. published (bodies j)"
proof (induction deadline ck bodies k rule: await_publication.induct)
  case (1 deadline ck bodies k)
  obtain now ck1 where now: "clock_now ck = (now, ck1)" by (cases "clock_now ck")
  show ?case
  proof (cases "published (bodies k) \<or> deadline - now = 0")
    case True
    then show ?thesis using "1.prems" now by (subst (asm) await_publication.simps) (auto split: if_splits)
  next
    case False
    then show ?thesis
      using "1.IH" [OF _ now [symmetric] refl] "1.prems" now by (subst (asm) (2) await_publication.simps) auto
  qed
qed

lemma await_bound_cases:
  "case await_bound us socket deadline ck probes bodies k of
     Ok stream \<Rightarrow> p_uid stream = Ok us \<and> (\<exists>j. published (bodies j))
   | Err c \<Rightarrow> c = Uncertain"
proof (induction us socket deadline ck probes bodies k rule: await_bound.induct)
  case (1 us socket deadline ck probes bodies k)
  obtain l ck1 where l: "probe us socket CONNECT_TIMEOUT ck (probes k) = (l, ck1)"
    by (cases "probe us socket CONNECT_TIMEOUT ck (probes k)")
  obtain now ck2 where now: "clock_now ck1 = (now, ck2)" by (cases "clock_now ck1")
  show ?case
  proof (cases l)
    case (LvAlive stream)
    then have "p_uid stream = Ok us" using probe_alive l by (metis fst_conv)
    then show ?thesis
      using l LvAlive await_publication_True by (subst await_bound.simps) auto
  next
    case (LvStale e)
    show ?thesis
    proof (cases "deadline \<le> now")
      case False
      then show ?thesis
        using "1.IH" [OF l [symmetric] LvStale now [symmetric] False] l LvStale now
        by (subst await_bound.simps) simp
    qed (use l LvStale now in \<open>subst await_bound.simps, simp\<close>)
  next
    case (LvUnknown e)
    then show ?thesis using l by (subst await_bound.simps) simp
  qed
qed

text \<open>
  What \<open>attach\<close> tells a client is what it established.  A stream is a peer of this very uid, in a run
  directory that is this user's alone.  The exit status for \<open>no session\<close> is given only where the
  directory is missing or a \<open>connect\<close> was refused or found no name; a timeout, pressure on the host, a
  foreign listener and every other error are never taken for absence.
\<close>

theorem attach_outcomes:
  "case resume us lstat a p ck s of
     Ok stream \<Rightarrow> p_uid stream = Ok us \<and> settled_on s (Some (CnOk stream)) \<and>
       check_run_dir us lstat a (path_parts (sp_dir p)) = Ok (Some DIR_MODE)
   | Err c \<Rightarrow> c \<in> {UnsafeHost, MissingSession, Retryable, Uncertain} \<and>
       (if failure_exit c = EXIT_NO_SESSION
        then check_run_dir us lstat a (path_parts (sp_dir p)) = Ok None \<or>
          check_run_dir us lstat a (path_parts (sp_dir p)) = Ok (Some DIR_MODE) \<and> proved_free s
        else c \<noteq> MissingSession)"
proof (cases "check_run_dir us lstat a (path_parts (sp_dir p))")
  case (Err e)
  then show ?thesis by (simp add: resume_def failure_exit_def EXIT_UNATTACHABLE_def EXIT_NO_SESSION_def)
next
  case (Ok there)
  show ?thesis
  proof (cases there)
    case None
    then show ?thesis using Ok by (simp add: resume_def failure_exit_def)
  next
    case (Some mode)
    then have dir: "check_run_dir us lstat a (path_parts (sp_dir p)) = Ok (Some DIR_MODE)"
      using Ok check_run_dir_there by blast
    show ?thesis
    proof (cases "fst (probe us (sp_socket p) CONNECT_TIMEOUT ck s)")
      case (LvUnknown e)
      then show ?thesis using dir
        by (simp add: resume_def resume_probe_class_def failure_exit_def EXIT_UNATTACHABLE_def
            EXIT_NO_SESSION_def split: connect_error.split)
    qed (use dir probe_alive probe_free in \<open>auto simp: resume_def failure_exit_def\<close>)
  qed
qed

text \<open>
  C31. What \<open>spawn\<close> tells a client is what it established.  A daemon is launched only under the lock and
  over an id proved free; a stream is a peer of this very uid behind a whole pidfile; once a
  daemon was launched no failure claims that retrying is safe or that the id is free; a collision
  is a peer of this uid that answered; and the lock's name is given back only where nothing was
  launched over an id proved free, by the acquisition that made it.
\<close>

theorem spawn_outcomes:
  "case create us a p fs of (fs', launched, r) \<Rightarrow>
     (if launched then proved_free (cr_free a) \<and> is_ok (cr_started a) \<and>
        is_ok (fst (lock_spawn_until (fst (clock_now (cr_clock a)) + SPAWN_TIMEOUT)
          (snd (clock_now (cr_clock a))) (cr_locks a))) \<and> fs' = fs
      else \<not> is_ok r) \<and>
     (case r of
        Ok stream \<Rightarrow> p_uid stream = Ok us \<and> (\<exists>k. published (cr_bodies a k))
      | Err c \<Rightarrow> (if launched then c = Uncertain else c \<notin> {MissingSession, PostConnect}) \<and>
          (if c = Collision then \<exists>stream. settled_on (cr_free a) (Some (CnOk stream)) \<and> p_uid stream = Ok us
           else True) \<and>
          (if c = StartupFailure then proved_free (cr_free a) \<and> \<not> is_ok (cr_started a) else fs' = fs)) \<and>
     (\<exists>created. fs' = fs \<or>
        fst (lock_spawn_until (fst (clock_now (cr_clock a)) + SPAWN_TIMEOUT)
          (snd (clock_now (cr_clock a))) (cr_locks a)) = Ok True \<and> fs' = remove_file created (sp_lock p) fs)"
proof (cases "cr_ensured a")
  case (Err e)
  then show ?thesis by (simp add: create_def)
next
  case (Ok u)
  obtain now ck where now: "clock_now (cr_clock a) = (now, ck)" by (cases "clock_now (cr_clock a)")
  obtain lk ck1 where lk: "lock_spawn_until (now + SPAWN_TIMEOUT) ck (cr_locks a) = (lk, ck1)"
    by (cases "lock_spawn_until (now + SPAWN_TIMEOUT) ck (cr_locks a)")
  obtain l ck2 where l: "probe us (sp_socket p) CONNECT_TIMEOUT ck1 (cr_free a) = (l, ck2)"
    by (cases "probe us (sp_socket p) CONNECT_TIMEOUT ck1 (cr_free a)")
  note at = Ok now lk l
  show ?thesis
  proof (cases lk)
    case (Err e)
    then show ?thesis using at by (simp add: create_def)
  next
    case (Ok created)
    show ?thesis
    proof (cases l)
      case (LvAlive stream)
      then have "settled_on (cr_free a) (Some (CnOk stream)) \<and> p_uid stream = Ok us"
        using probe_alive [of us "sp_socket p" CONNECT_TIMEOUT ck1 "cr_free a"] l by simp
      then show ?thesis using at Ok LvAlive by (auto simp: create_def)
    next
      case (LvStale e)
      then have free: "proved_free (cr_free a)"
        using probe_free [of us "sp_socket p" CONNECT_TIMEOUT ck1 "cr_free a"] l by simp
      show ?thesis
      proof (cases "cr_started a")
        case (Err e')
        then show ?thesis using at Ok LvStale free
          by (auto simp: create_def release_lock_name_def)
      next
        case started: (Ok v)
        then show ?thesis
          using at Ok LvStale free await_bound_cases [where us = us and socket = "sp_socket p"
              and deadline = "now + SPAWN_TIMEOUT" and ck = ck2 and probes = "cr_probes a"
              and bodies = "cr_bodies a" and k = 0]
          by (auto simp: create_def split: res.splits)
      qed
    next
      case (LvUnknown e)
      then show ?thesis using at Ok by (simp add: create_def)
    qed
  qed
qed

end
