(* ===== verification/Cli.thy ===== *)
theory Cli
  imports RunFiles
begin

text \<open>
  The command line of src/crates/nomux/src/main.rs: the modes, their arguments, and the exit
  status each outcome maps to.  An \<open>OsString\<close> is its bytes; \<open>to_str\<close> is the UTF-8 check.
\<close>

definition EXIT_USAGE :: nat where
  "EXIT_USAGE = 64"

datatype cli_refusal =
  NotUtf8 bytes
| MissingLockFd | NonUtf8LockFd | BadLockFd | LockFdTwice
| LabelMissing | NonUtf8Label | LabelTwice
| UnknownOption bytes | UnexpectedArgument bytes
| SessionMissing bytes | LabelRefused bytes | TakesNoArguments bytes bytes
| ModeMissing | UnknownMode bytes

record session_args =
  arg_session :: "bytes option"
  arg_label :: "bytes option"
  arg_lock_fd :: "int option"

definition parse_lock_fd :: "bytes \<Rightarrow> session_args \<Rightarrow> (session_args, cli_refusal) res" where
  "parse_lock_fd val a =
     (case parse_i32 (utf8_chars val) of
        None \<Rightarrow> Err BadLockFd
      | Some fd \<Rightarrow>
          (if \<not> 2 < fd then Err BadLockFd
           else if arg_lock_fd a \<noteq> None then Err LockFdTwice
           else Ok (a\<lparr>arg_lock_fd := Some fd\<rparr>)))"

text \<open>\<open>split_once\<close>, on the first \<open>=\<close>.\<close>

definition split_once_eq :: "bytes \<Rightarrow> (bytes \<times> bytes) option" where
  "split_once_eq bs =
     (if 61 \<in> set bs
      then Some (takeWhile (\<lambda>b. b \<noteq> 61) bs, tl (dropWhile (\<lambda>b. b \<noteq> 61) bs)) else None)"

definition set_label :: "bytes \<Rightarrow> session_args \<Rightarrow> (session_args, cli_refusal) res" where
  "set_label val a =
     (if arg_label a \<noteq> None then Err LabelTwice else Ok (a\<lparr>arg_label := Some val\<rparr>))"

text \<open>The loop of \<open>parse_session_args\<close>, its arms in the order of the match.\<close>

function parse_args ::
  "bool \<Rightarrow> bytes list \<Rightarrow> session_args \<Rightarrow> (session_args, cli_refusal) res" where
  "parse_args private_ok [] a = Ok a"
| "parse_args private_ok (arg # rest) a =
     (case from_utf8 arg of
        None \<Rightarrow> Err (NotUtf8 arg)
      | Some str \<Rightarrow>
          (let key = map_option fst (split_once_eq str);
               val = (case split_once_eq str of Some (_, v) \<Rightarrow> v | None \<Rightarrow> [])
           in if private_ok \<and> key = Some (ascii ''--lock-fd'')
              then and_then (parse_lock_fd val a) (parse_args private_ok rest)
              else if key = Some (ascii ''--label'')
              then and_then (set_label val a) (parse_args private_ok rest)
              else if private_ok \<and> str = ascii ''--lock-fd''
              then (case rest of
                      [] \<Rightarrow> Err MissingLockFd
                    | v # rest \<Rightarrow>
                        (case from_utf8 v of
                           None \<Rightarrow> Err NonUtf8LockFd
                         | Some v \<Rightarrow> and_then (parse_lock_fd v a) (parse_args private_ok rest)))
              else if str = ascii ''--label''
              then (case rest of
                      [] \<Rightarrow> Err LabelMissing
                    | v # rest \<Rightarrow>
                        (case from_utf8 v of
                           None \<Rightarrow> Err NonUtf8Label
                         | Some v \<Rightarrow> and_then (set_label v a) (parse_args private_ok rest)))
              else if take 1 str = [45] then Err (UnknownOption str)
              else if arg_session a = None
              then parse_args private_ok rest (a\<lparr>arg_session := Some str\<rparr>)
              else Err (UnexpectedArgument str)))"
  by pat_completeness auto
termination
  by (relation "measure (\<lambda>(_, args, _). length args)") auto

declare parse_args.simps(2) [simp del]

definition parse_session_args :: "bool \<Rightarrow> bytes list \<Rightarrow> (session_args, cli_refusal) res" where
  "parse_session_args private_ok args =
     parse_args private_ok args \<lparr>arg_session = None, arg_label = None, arg_lock_fd = None\<rparr>"

text \<open>What a command line asks for.\<close>

datatype action =
  RunList | ShowVersion | ShowHelp
| RunDaemon bytes "bytes option" "int option"
| RunSpawn bytes "bytes option"
| RunAttach bytes
| RunKill bytes

definition with_session ::
  "bytes \<Rightarrow> bytes list \<Rightarrow> bool \<Rightarrow> (bytes \<Rightarrow> bytes option \<Rightarrow> int option \<Rightarrow> (action, cli_refusal) res)
     \<Rightarrow> (action, cli_refusal) res" where
  "with_session word args private_ok run =
     and_then (parse_session_args private_ok args) (\<lambda>a.
       case arg_session a of
         None \<Rightarrow> Err (SessionMissing word)
       | Some session \<Rightarrow> run session (arg_label a) (arg_lock_fd a))"

definition only :: "bytes list \<Rightarrow> bytes \<Rightarrow> action \<Rightarrow> (action, cli_refusal) res" where
  "only args word run = (case args of [] \<Rightarrow> Ok run | extra # _ \<Rightarrow> Err (TakesNoArguments word extra))"

text \<open>\<open>main\<close>, of the arguments behind the program's name.\<close>

definition dispatch :: "bytes list \<Rightarrow> (action, cli_refusal) res" where
  "dispatch args =
     (case args of
        [] \<Rightarrow> Err ModeMissing
      | word # args \<Rightarrow>
          (if word = ascii ''list'' then only args word RunList
           else if word = ascii ''--version'' \<or> word = ascii ''-V'' then only args word ShowVersion
           else if word = ascii ''--help'' \<or> word = ascii ''-h'' then only args word ShowHelp
           else if word = ascii ''daemon''
           then with_session word args True (\<lambda>session label lock_fd. Ok (RunDaemon session label lock_fd))
           else if word = ascii ''spawn''
           then with_session word args False (\<lambda>session label _. Ok (RunSpawn session label))
           else if word = ascii ''attach''
           then with_session word args False (\<lambda>session label _.
             if label \<noteq> None then Err (LabelRefused word) else Ok (RunAttach session))
           else if word = ascii ''kill''
           then with_session word args False (\<lambda>session label _.
             if label \<noteq> None then Err (LabelRefused word) else Ok (RunKill session))
           else Err (UnknownMode word)))"

text \<open>
  \<open>reported\<close>: the status of a mode that ran, of whether its error was \<open>InvalidInput\<close> and of the
  status its other failures have.
\<close>

definition reported :: "(unit, bool) res \<Rightarrow> nat \<Rightarrow> nat" where
  "reported r failed =
     (case r of Ok _ \<Rightarrow> 0 | Err invalid_input \<Rightarrow> if invalid_input then EXIT_USAGE else failed)"

section \<open>What it accepts\<close>

text \<open>
  The grammar, written apart from the loop: a command line is a list of items, an option spelled with \<open>=\<close>
  or with its value behind it, and no kind of item comes twice.
\<close>

datatype cli_item = ItSession bytes | ItLabel bool bytes | ItLockFd bool bytes

fun render_item :: "cli_item \<Rightarrow> bytes list" where
  "render_item (ItSession str) = [str]"
| "render_item (ItLabel joined v) =
     (if joined then [ascii ''--label'' @ 61 # v] else [ascii ''--label'', v])"
| "render_item (ItLockFd joined v) =
     (if joined then [ascii ''--lock-fd'' @ 61 # v] else [ascii ''--lock-fd'', v])"

definition lock_fd_of :: "bytes \<Rightarrow> int option" where
  "lock_fd_of v = (case parse_i32 (utf8_chars v) of Some fd \<Rightarrow> if 2 < fd then Some fd else None | None \<Rightarrow> None)"

fun item_ok :: "bool \<Rightarrow> cli_item \<Rightarrow> bool" where
  "item_ok private_ok (ItSession str) \<longleftrightarrow> utf8_valid str \<and> take 1 str \<noteq> [45]"
| "item_ok private_ok (ItLabel joined v) \<longleftrightarrow> utf8_valid v"
| "item_ok private_ok (ItLockFd joined v) \<longleftrightarrow> private_ok \<and> utf8_valid v \<and> lock_fd_of v \<noteq> None"

fun note_item :: "cli_item \<Rightarrow> session_args \<Rightarrow> session_args option" where
  "note_item (ItSession str) a =
     (if arg_session a = None then Some (a\<lparr>arg_session := Some str\<rparr>) else None)"
| "note_item (ItLabel joined v) a =
     (if arg_label a = None then Some (a\<lparr>arg_label := Some v\<rparr>) else None)"
| "note_item (ItLockFd joined v) a =
     (if arg_lock_fd a = None then Some (a\<lparr>arg_lock_fd := lock_fd_of v\<rparr>) else None)"

fun note_items :: "cli_item list \<Rightarrow> session_args \<Rightarrow> session_args option" where
  "note_items [] a = Some a"
| "note_items (it # items) a = (case note_item it a of None \<Rightarrow> None | Some a \<Rightarrow> note_items items a)"

lemma utf8_valid_prefix: "\<forall>b \<in> set xs. b < 0x80 \<Longrightarrow> utf8_valid (xs @ ys) = utf8_valid ys"
  by (induction xs) auto

lemma split_once_eq_joined: "61 \<notin> set key \<Longrightarrow> split_once_eq (key @ 61 # v) = Some (key, v)"
  by (simp add: split_once_eq_def take_to_sep drop_to_sep)

lemma split_once_eq_Some: "split_once_eq str = Some (key, v) \<Longrightarrow> str = key @ 61 # v"
  unfolding split_once_eq_def
  by (metis (mono_tags, lifting) dropWhile_eq_Nil_conv hd_dropWhile list.collapse option.distinct(1)
      option.inject prod.inject takeWhile_dropWhile_id)

lemma split_once_eq_None: "61 \<notin> set str \<Longrightarrow> split_once_eq str = None"
  by (simp add: split_once_eq_def)

lemma option_words:
  "61 \<notin> set (ascii ''--label'')" "61 \<notin> set (ascii ''--lock-fd'')"
  "\<forall>b \<in> set (ascii ''--label''). b < 0x80" "\<forall>b \<in> set (ascii ''--lock-fd''). b < 0x80"
  "ascii ''--label'' \<noteq> ascii ''--lock-fd''" "ascii ''--lock-fd'' \<noteq> ascii ''--label''"
  "take (Suc 0) (ascii ''--label'') = [45]" "take (Suc 0) (ascii ''--lock-fd'') = [45]"
  by (simp_all add: ascii_def)

text \<open>One item at the front of the arguments is taken for what it is.\<close>

lemma parse_item:
  assumes "item_ok private_ok it"
  shows "(case note_item it a of
      None \<Rightarrow> \<not> is_ok (parse_args private_ok (render_item it @ rest) a)
    | Some b \<Rightarrow> parse_args private_ok (render_item it @ rest) a = parse_args private_ok rest b)"
proof (cases it)
  case (ItSession str)
  then have "split_once_eq str \<noteq> Some (ascii ''--label'', v) \<and> split_once_eq str \<noteq> Some (ascii ''--lock-fd'', v)" for v
    using assms option_words(7,8) by (auto dest!: split_once_eq_Some simp: ascii_def)
  then show ?thesis
    using ItSession assms option_words(7,8)
    by (auto simp: parse_args.simps(2) from_utf8_def Let_def split: option.split)
next
  case (ItLabel joined v)
  then show ?thesis
    using assms option_words
    by (cases joined) (auto simp: parse_args.simps(2) from_utf8_def Let_def utf8_valid_prefix utf8_valid_ascii
        split_once_eq_joined split_once_eq_None set_label_def split: option.split)
next
  case (ItLockFd joined v)
  then show ?thesis
    using assms option_words
    by (cases joined) (auto simp: parse_args.simps(2) from_utf8_def Let_def utf8_valid_prefix utf8_valid_ascii
        split_once_eq_joined split_once_eq_None parse_lock_fd_def lock_fd_of_def split: option.splits if_splits)
qed

text \<open>Whatever is parsed starts with an item.\<close>

lemma parse_lock_fd_Ok: "parse_lock_fd v a = Ok b \<Longrightarrow> lock_fd_of v \<noteq> None"
  by (auto simp: parse_lock_fd_def lock_fd_of_def split: option.splits if_splits)

lemma utf8_valid_joined:
  "utf8_valid (ascii ''--label'' @ 61 # v) \<Longrightarrow> utf8_valid v"
  "utf8_valid (ascii ''--lock-fd'' @ 61 # v) \<Longrightarrow> utf8_valid v"
  using option_words(3,4) by (simp_all add: utf8_valid_prefix)

lemma parse_args_item:
  assumes "parse_args private_ok (arg # rest) a = Ok b"
  obtains it rest' where "arg # rest = render_item it @ rest'" "item_ok private_ok it"
proof -
  have valid: "utf8_valid arg" using assms by (auto simp: parse_args.simps(2) from_utf8_def split: if_splits)
  note step = assms [unfolded parse_args.simps(2) from_utf8_def]
  consider (fd_joined) v where "private_ok" "split_once_eq arg = Some (ascii ''--lock-fd'', v)"
    | (label_joined) v where "split_once_eq arg = Some (ascii ''--label'', v)"
    | (other) "\<not> (private_ok \<and> map_option fst (split_once_eq arg) = Some (ascii ''--lock-fd''))"
        "map_option fst (split_once_eq arg) \<noteq> Some (ascii ''--label'')"
    by (cases "split_once_eq arg") fastforce+
  then show thesis
  proof cases
    case (fd_joined v)
    have "parse_args private_ok (arg # rest) a = and_then (parse_lock_fd v a) (parse_args private_ok rest)"
      by (subst parse_args.simps(2))
        (simp only: from_utf8_def valid fd_joined Let_def option.map fst_conv option.case prod.case
          simp_thms if_True)
    then have "and_then (parse_lock_fd v a) (parse_args private_ok rest) = Ok b" using assms by simp
    then have "lock_fd_of v \<noteq> None" using parse_lock_fd_Ok by (auto simp: and_then_eq_Ok)
    moreover have arg: "arg = ascii ''--lock-fd'' @ 61 # v" using fd_joined(2) by (rule split_once_eq_Some)
    moreover have "utf8_valid v" using valid unfolding arg by (rule utf8_valid_joined)
    ultimately show thesis using that [of "ItLockFd True v" rest] fd_joined(1) by simp
  next
    case (label_joined v)
    then have arg: "arg = ascii ''--label'' @ 61 # v" by (rule split_once_eq_Some)
    moreover have "utf8_valid v" using valid unfolding arg by (rule utf8_valid_joined)
    ultimately show thesis using that [of "ItLabel True v" rest] by simp
  next
    case other
    note step = step [unfolded Let_def if_not_P [OF other(1)] if_not_P [OF other(2)]]
    consider "private_ok" "arg = ascii ''--lock-fd''" | "\<not> (private_ok \<and> arg = ascii ''--lock-fd'')" "arg = ascii ''--label''"
      | "\<not> (private_ok \<and> arg = ascii ''--lock-fd'')" "arg \<noteq> ascii ''--label''" by blast
    then show thesis
    proof cases
      case 1
      then have "(case rest of [] \<Rightarrow> Err MissingLockFd
          | v # rest \<Rightarrow> (case (if utf8_valid v then Some v else None) of None \<Rightarrow> Err NonUtf8LockFd
             | Some v \<Rightarrow> and_then (parse_lock_fd v a) (parse_args private_ok rest))) = Ok b"
        using step valid by (simp add: split_once_eq_None option_words)
      then obtain v rest' where v: "rest = v # rest'" "utf8_valid v"
          "and_then (parse_lock_fd v a) (parse_args private_ok rest') = Ok b"
        by (auto simp: from_utf8_def split: list.splits if_splits)
      then have "lock_fd_of v \<noteq> None" using parse_lock_fd_Ok by (auto simp: and_then_eq_Ok)
      then show thesis using that [of "ItLockFd False v" rest'] 1 v by simp
    next
      case 2
      then obtain v rest' where "rest = v # rest'" "utf8_valid v"
        using step valid
        by (cases rest) (auto simp: split_once_eq_None option_words split: if_splits)
      then show thesis using that [of "ItLabel False v" rest'] 2 by simp
    next
      case 3
      then have "take 1 arg \<noteq> [45]" using step valid other by (auto split: if_splits)
      then show thesis using that [of "ItSession arg" rest] valid by simp
    qed
  qed
qed

text \<open>
  C27. A session mode's command line is accepted exactly when it is one: options in any place, each
  spelled with \<open>=\<close> or with its value behind it, no kind twice, one bare word at most, the lock's descriptor
  only where private options may be and only above the standard three.  What is parsed is then what
  the items say, whatever their order.
\<close>

theorem parse_args_grammar:
  "parse_session_args private_ok args = Ok a \<longleftrightarrow>
     (\<exists>items. args = concat (map render_item items) \<and> list_all (item_ok private_ok) items \<and>
        note_items items \<lparr>arg_session = None, arg_label = None, arg_lock_fd = None\<rparr> = Some a)"
proof -
  have right: "parse_args private_ok (concat (map render_item items)) a0 = Ok a"
    if "list_all (item_ok private_ok) items" "note_items items a0 = Some a" for items a0
    using that
  proof (induction items arbitrary: a0)
    case (Cons it items)
    obtain b where b: "note_item it a0 = Some b" "note_items items b = Some a"
      using Cons.prems(2) by (auto split: option.splits)
    then show ?case
      using Cons.IH [of b] Cons.prems(1) parse_item [of private_ok it "concat (map render_item items)" a0] by simp
  qed simp
  have left: "\<exists>items. args = concat (map render_item items) \<and> list_all (item_ok private_ok) items \<and>
      note_items items a0 = Some a" if "parse_args private_ok args a0 = Ok a" for a0
    using that
  proof (induction "length args" arbitrary: args a0 rule: less_induct)
    case less
    show ?case
    proof (cases args)
      case Nil
      then show ?thesis using less.prems by (intro exI [of _ "[]"]) simp
    next
      case (Cons arg rest)
      obtain it rest' where it: "args = render_item it @ rest'" "item_ok private_ok it"
        using parse_args_item less.prems unfolding Cons by metis
      obtain b where b: "note_item it a0 = Some b" "parse_args private_ok rest' b = Ok a"
        using parse_item [OF it(2), of rest' a0] less.prems unfolding it(1)
        by (cases "note_item it a0") auto
      have "length rest' < length args" using it(1) by (cases it) auto
      then obtain items where "rest' = concat (map render_item items)" "list_all (item_ok private_ok) items"
          "note_items items b = Some a"
        using less.hyps b(2) by blast
      then show ?thesis using it b(1) by (intro exI [of _ "it # items"]) simp
    qed
  qed
  show ?thesis unfolding parse_session_args_def using left right by blast
qed

end
