(* ===== verification/Control.thy ===== *)
theory Control
  imports Start
begin

text \<open>
  The frozen control surface, after src/crates/nomux/src/control.rs: \<open>list\<close> and \<open>kill\<close>, which act
  on a session through its files alone.  What the kernel answers (probes, reads of the pidfile and
  of \<open>/proc\<close>, pidfds and signals) is given per pass of each loop.
\<close>

definition CONTROL_PROBE_TIMEOUT :: nat where
  "CONTROL_PROBE_TIMEOUT = secs 2"

definition LIST_PROBE :: nat where
  "LIST_PROBE = 0"

definition GRACE :: nat where
  "GRACE = secs 2"

definition KILL_GRACE :: nat where
  "KILL_GRACE = millis 500"

definition POLL_INTERVAL :: nat where
  "POLL_INTERVAL = millis 25"

definition PATH_MAX :: nat where
  "PATH_MAX = 4096"

definition MAX_CMDLINE_LEN :: nat where
  "MAX_CMDLINE_LEN = PATH_MAX + 1 + length (ascii ''daemon'') + 1 + MAX_SESSION_ID_LEN + 1"

section \<open>Whose command line it is\<close>

text \<open>The rest of the arguments behind \<open>daemon\<close>: the first that is neither an option nor its value.\<close>

fun first_bare :: "bytes list \<Rightarrow> bytes option \<Rightarrow> bytes option" where
  "first_bare [] session = session"
| "first_bare (arg # args) session =
     (if arg = ascii ''--label'' \<or> arg = ascii ''--lock-fd''
      then (case args of [] \<Rightarrow> session | _ # args \<Rightarrow> first_bare args session)
      else if take 1 arg \<noteq> [45]
      then first_bare args (case session of None \<Rightarrow> Some arg | Some s \<Rightarrow> Some s)
      else first_bare args session)"

definition session_named :: "bytes \<Rightarrow> bytes option" where
  "session_named whole =
     (case tl (split_on 0 whole) of
        [] \<Rightarrow> None
      | word # args \<Rightarrow> if word \<noteq> ascii ''daemon'' then None else first_bare args None)"

text \<open>What precedes the last NUL: the arguments read whole.\<close>

definition read_whole :: "bytes \<Rightarrow> bytes" where
  "read_whole body = (if 0 \<in> set body then rev (tl (dropWhile (\<lambda>b. b \<noteq> 0) (rev body))) else [])"

definition daemon_verdict :: "bytes \<Rightarrow> bytes \<Rightarrow> bool option" where
  "daemon_verdict body sid =
     (let whole = read_whole body;
          named = session_named whole
      in if named = Some sid then Some True
         else if length body < MAX_CMDLINE_LEN then Some False
         else
           let cut_before_the_id = named = None \<and>
             (case tl (split_on 0 whole) of [] \<Rightarrow> False | word # _ \<Rightarrow> word = ascii ''daemon'')
           in if 0 \<in> set whole \<and> \<not> cut_before_the_id then Some False else None)"

definition is_daemon_for :: "(ftype \<times> dev, errno) res \<Rightarrow> bytes \<Rightarrow> bool option" where
  "is_daemon_for cmdline sid =
     (case read_prefix MAX_CMDLINE_LEN cmdline of
        Err _ \<Rightarrow> None
      | Ok body \<Rightarrow> daemon_verdict body sid)"

section \<open>The process a pidfile names\<close>

text \<open>
  What one look at the pidfile meets: the file, whether a pid may be signalled, a pidfd on it, and
  its command line.
\<close>

record pid_answers =
  pa_file :: "(ftype \<times> dev, errno) res"
  pa_signallable :: "int \<Rightarrow> bool"
  pa_pin :: "int \<Rightarrow> (unit, errno) res"
  pa_cmdline :: "int \<Rightarrow> (ftype \<times> dev, errno) res"

definition pidfile :: "pid_answers \<Rightarrow> (int option \<times> bytes, read_failure) res" where
  "pidfile a =
     and_then (read_prefix MAX_PID_LEN (pa_file a)) (\<lambda>body.
       Ok (case parse_pid body of
             None \<Rightarrow> None
           | Some pid \<Rightarrow> if pa_signallable a pid then Some pid else None, body))"

record chosen =
  ch_pid :: int
  ch_reach :: "(unit, errno) res"

definition identified :: "pid_answers \<Rightarrow> bytes \<Rightarrow> int option \<Rightarrow> int option" where
  "identified a sid filed =
     (case filed of
        None \<Rightarrow> None
      | Some pid \<Rightarrow> if is_daemon_for (pa_cmdline a pid) sid \<noteq> Some False then Some pid else None)"

definition choose_pid :: "pid_answers \<Rightarrow> bytes \<Rightarrow> int option \<Rightarrow> chosen option" where
  "choose_pid a sid filed =
     (case filed of
        None \<Rightarrow> None
      | Some f \<Rightarrow>
          (let reach = pa_pin a f
           in map_option (\<lambda>pid. \<lparr>ch_pid = pid, ch_reach = reach\<rparr>) (identified a sid filed)))"

text \<open>The refusals, by what their message says.\<close>

datatype unidentified = NotItsDaemon int | RunsPast bytes | HoldsOther bytes | NoSuchProcess int

datatype pid_problem = NeverAppeared | NeverWritten | NotReadable read_failure | Unidentified unidentified

datatype kill_refusal =
  KillIdRefused id_refusal | KillDirRefused dir_refusal | KillLockRefused lock_refusal
| Unprobeable connect_error
| RunningBut pid_problem
| StillAnswering int "(unit, errno) res" "(unit, errno) res"
| BoundSince
| KillUnlink unlink_failure

definition unidentified_as :: "int option \<Rightarrow> bytes \<Rightarrow> unidentified" where
  "unidentified_as filed body =
     (case filed of
        Some f \<Rightarrow> NotItsDaemon f
      | None \<Rightarrow>
          (if MAX_PID_LEN \<le> length body then RunsPast body
           else case parse_pid body of None \<Rightarrow> HoldsOther body | Some pid \<Rightarrow> NoSuchProcess pid))"

definition unresolved :: "connect_error option \<Rightarrow> pid_problem \<Rightarrow> kill_refusal" where
  "unresolved unprobed problem =
     (case unprobed of None \<Rightarrow> RunningBut problem | Some err \<Rightarrow> Unprobeable err)"

text \<open>\<open>u8::is_ascii_whitespace\<close>, and whether \<open>trim_ascii\<close> leaves anything.\<close>

definition ascii_blank :: "bytes \<Rightarrow> bool" where
  "ascii_blank body \<longleftrightarrow> list_all (\<lambda>b. b = 9 \<or> b = 10 \<or> b = 12 \<or> b = 13 \<or> b = 32) body"

text \<open>\<open>resolve\<close>: the process to signal, or none where nothing is listening.\<close>

function resolve_loop ::
  "u32 \<Rightarrow> session_paths \<Rightarrow> nat \<Rightarrow> clock \<Rightarrow> (nat \<Rightarrow> os_connect list) \<Rightarrow> (nat \<Rightarrow> pid_answers) \<Rightarrow> nat
     \<Rightarrow> (chosen option, kill_refusal) res \<times> clock" where
  "resolve_loop us p deadline ck probes looks k =
     (case probe us (sp_socket p) CONTROL_PROBE_TIMEOUT ck (probes k) of
        (l, ck) \<Rightarrow>
          (let unprobed = (case l of LvUnknown err \<Rightarrow> Some err | _ \<Rightarrow> None);
               look = pidfile (looks k)
           in if is_stale l then (Ok None, ck)
              else case look of
                Ok (filed, body) \<Rightarrow>
                  (if \<not> ascii_blank body
                   then (case choose_pid (looks k) (sp_id p) filed of
                           Some c \<Rightarrow> (Ok (Some c), ck)
                         | None \<Rightarrow>
                             (Err (unresolved unprobed (Unidentified (unidentified_as filed body))), ck))
                   else case clock_now ck of (now, ck) \<Rightarrow>
                     if deadline \<le> now then (Err (unresolved unprobed NeverWritten), ck)
                     else resolve_loop us p deadline (clock_sleep POLL_INTERVAL ck) probes looks (Suc k))
              | Err f \<Rightarrow>
                  (if f = ReadFailed ENOENT
                   then (case clock_now ck of (now, ck) \<Rightarrow>
                     if deadline \<le> now then (Err (unresolved unprobed NeverAppeared), ck)
                     else resolve_loop us p deadline (clock_sleep POLL_INTERVAL ck) probes looks (Suc k))
                   else (Err (unresolved unprobed (NotReadable f)), ck))))"
  by pat_completeness auto
termination
  by (relation "measure (\<lambda>(_, _, dl, ck, _). dl - fst ck)")
    (simp_all add: probe_then_sleep POLL_INTERVAL_def millis_def)

declare resolve_loop.simps [simp del]

section \<open>\<open>kill\<close>\<close>

datatype ctl_signal = TermSignal | KillSignal

text \<open>\<open>Chosen::signal\<close>: through the pidfd, or the error its opening had.\<close>

definition chosen_signal :: "chosen \<Rightarrow> (unit, errno) res \<Rightarrow> (unit, errno) res" where
  "chosen_signal c answer = and_then (ch_reach c) (\<lambda>_. answer)"

text \<open>
  The wait behind \<open>SIGTERM\<close>: until the socket is dead, with one \<open>SIGKILL\<close> where it still answers at the first
  deadline.  The second component is what the \<open>SIGKILL\<close> answered, if one was due.
\<close>

function kill_waits ::
  "u32 \<Rightarrow> session_paths \<Rightarrow> chosen \<Rightarrow> (unit, errno) res \<Rightarrow> (unit, errno) res \<Rightarrow> (unit, errno) res option
     \<Rightarrow> nat \<Rightarrow> clock \<Rightarrow> (nat \<Rightarrow> os_connect list) \<Rightarrow> nat
     \<Rightarrow> (unit, kill_refusal) res \<times> (unit, errno) res option \<times> clock" where
  "kill_waits us p c term_sent kill_answer killed deadline ck probes k =
     (case probe us (sp_socket p) CONTROL_PROBE_TIMEOUT ck (probes k) of
        (l, ck) \<Rightarrow>
          (case l of
             LvStale _ \<Rightarrow> (Ok (), killed, ck)
           | LvUnknown err \<Rightarrow> (Err (Unprobeable err), killed, ck)
           | LvAlive _ \<Rightarrow>
               (case clock_now ck of (now, ck) \<Rightarrow>
                  if deadline \<le> now
                  then (case killed of
                          Some sent \<Rightarrow> (Err (StillAnswering (ch_pid c) term_sent sent), killed, ck)
                        | None \<Rightarrow>
                            (case clock_now ck of (now, ck) \<Rightarrow>
                               kill_waits us p c term_sent kill_answer (Some (chosen_signal c kill_answer))
                                 (now + KILL_GRACE) (clock_sleep POLL_INTERVAL ck) probes (Suc k)))
                  else kill_waits us p c term_sent kill_answer killed deadline
                         (clock_sleep POLL_INTERVAL ck) probes (Suc k))))"
  by pat_completeness auto
termination
  by (relation "measures [\<lambda>(_, _, _, _, _, killed, _). if killed = None then 1 else 0,
        \<lambda>(_, _, _, _, _, _, dl, ck, _). dl - fst ck]")
    (auto simp: probe_then_sleep POLL_INTERVAL_def millis_def)

declare kill_waits.simps [simp del]

record kill_answers =
  ka_lstat :: "bytes list \<Rightarrow> (fmeta, errno) res"
  ka_dir :: dir_answers
  ka_clock :: clock
  ka_locks :: "(bool option, lock_refusal) res list"
  ka_resolve :: "nat \<Rightarrow> os_connect list"
  ka_looks :: "nat \<Rightarrow> pid_answers"
  ka_term :: "(unit, errno) res"
  ka_kill :: "(unit, errno) res"
  ka_probes :: "nat \<Rightarrow> os_connect list"
  ka_final :: "os_connect list"
  ka_remove :: "bytes \<Rightarrow> (unit, errno) res"
  ka_scan :: listing

text \<open>What a \<open>kill\<close> did: the signals it had delivered, the paths it unlinked, and its answer.\<close>

record kill_done =
  kd_signals :: "(ctl_signal \<times> int) list"
  kd_removed :: "bytes list"
  kd_result :: "(unit, kill_refusal) res"

definition kill_nothing :: "(unit, kill_refusal) res \<Rightarrow> kill_done" where
  "kill_nothing r = \<lparr>kd_signals = [], kd_removed = [], kd_result = r\<rparr>"

text \<open>The last probe under the lock, and the one successful exit.\<close>

definition kill_collect ::
  "u32 \<Rightarrow> session_paths \<Rightarrow> clock \<Rightarrow> kill_answers \<Rightarrow> (ctl_signal \<times> int) list \<Rightarrow> kill_done" where
  "kill_collect us p ck a signals =
     (case fst (probe us (sp_socket p) CONTROL_PROBE_TIMEOUT ck (ka_final a)) of
        LvStale _ \<Rightarrow>
          (case unlink_locked (ka_remove a) True p (ka_scan a) of (paths, r) \<Rightarrow>
             \<lparr>kd_signals = signals, kd_removed = paths,
              kd_result = (case r of Ok _ \<Rightarrow> Ok () | Err f \<Rightarrow> Err (KillUnlink f))\<rparr>)
      | LvAlive _ \<Rightarrow> \<lparr>kd_signals = signals, kd_removed = [], kd_result = Err BoundSince\<rparr>
      | LvUnknown err \<Rightarrow> \<lparr>kd_signals = signals, kd_removed = [], kd_result = Err (Unprobeable err)\<rparr>)"

definition delivered :: "chosen \<Rightarrow> ctl_signal \<Rightarrow> (unit, errno) res \<Rightarrow> (ctl_signal \<times> int) list" where
  "delivered c sig sent = (if is_ok sent then [(sig, ch_pid c)] else [])"

definition kill_locked :: "u32 \<Rightarrow> session_paths \<Rightarrow> clock \<Rightarrow> kill_answers \<Rightarrow> kill_done" where
  "kill_locked us p ck a =
     (case clock_now ck of (now, ck) \<Rightarrow>
        case resolve_loop us p (now + GRACE) ck (ka_resolve a) (ka_looks a) 0 of
          (Err e, ck) \<Rightarrow> kill_nothing (Err e)
        | (Ok None, ck) \<Rightarrow> kill_collect us p ck a []
        | (Ok (Some c), ck) \<Rightarrow>
            (let term_sent = chosen_signal c (ka_term a)
             in case clock_now ck of (now, ck) \<Rightarrow>
                  case kill_waits us p c term_sent (ka_kill a) None (now + GRACE) ck (ka_probes a) 0 of
                    (r, killed, ck) \<Rightarrow>
                      (let signals = delivered c TermSignal term_sent @
                         (case killed of None \<Rightarrow> [] | Some sent \<Rightarrow> delivered c KillSignal sent)
                       in case r of
                            Err e \<Rightarrow> \<lparr>kd_signals = signals, kd_removed = [], kd_result = Err e\<rparr>
                          | Ok _ \<Rightarrow> kill_collect us p ck a signals)))"

definition kill_session :: "u32 \<Rightarrow> kill_answers \<Rightarrow> bytes \<Rightarrow> bytes \<Rightarrow> kill_done" where
  "kill_session us a dir sid =
     (case in_dir dir sid of
        Err e \<Rightarrow> kill_nothing (Err (KillIdRefused e))
      | Ok p \<Rightarrow>
          (case check_run_dir us (ka_lstat a) (ka_dir a) (path_parts dir) of
             Err e \<Rightarrow> kill_nothing (Err (KillDirRefused e))
           | Ok None \<Rightarrow> kill_nothing (Ok ())
           | Ok (Some _) \<Rightarrow>
               (case clock_now (ka_clock a) of (now, ck) \<Rightarrow>
                  case lock_spawn_until (now + GRACE) ck (ka_locks a) of
                    (Err e, _) \<Rightarrow> kill_nothing (Err (KillLockRefused e))
                  | (Ok _, ck) \<Rightarrow> kill_locked us p ck a)))"

section \<open>\<open>list\<close>\<close>

text \<open>
  What \<open>list\<close> meets for one id: its probe, the passes at the lock and the second probe of a collection with
  the unlinks behind them, the pidfile and the label, and what writing the row answers.
\<close>

record list_answers =
  li_clock :: clock
  li_probe :: "os_connect list"
  li_passes :: "nat \<Rightarrow> lock_pass"
  li_again :: "os_connect list"
  li_remove :: "bytes \<Rightarrow> (unit, errno) res"
  li_scan :: listing
  li_look :: pid_answers
  li_label :: "(ftype \<times> dev, errno) res"
  li_written :: "(unit, errno) res"

type_synonym row = "bytes \<times> int option \<times> nat list"

definition collect_dead :: "u32 \<Rightarrow> session_paths \<Rightarrow> list_answers \<Rightarrow> bytes list" where
  "collect_dead us p a =
     (case try_lock_spawn (li_passes a) of
        None \<Rightarrow> []
      | Some _ \<Rightarrow>
          (if is_stale (fst (probe us (sp_socket p) LIST_PROBE (li_clock a) (li_again a)))
           then fst (unlink_locked (li_remove a) True p (li_scan a)) else []))"

definition row_of :: "bytes \<Rightarrow> list_answers \<Rightarrow> row" where
  "row_of sid a =
     (let filed = (case pidfile (li_look a) of Ok (f, _) \<Rightarrow> f | Err _ \<Rightarrow> None)
      in (sid, identified (li_look a) sid filed, read_label (li_label a)))"

text \<open>The sweep: the rows printed, the paths unlinked, and the answer.\<close>

fun list_rows ::
  "u32 \<Rightarrow> bytes \<Rightarrow> (bytes \<Rightarrow> list_answers) \<Rightarrow> bool \<Rightarrow> bytes list
     \<Rightarrow> row list \<times> bytes list \<times> (unit, errno) res" where
  "list_rows us dir ans listening [] = ([], [], Ok ())"
| "list_rows us dir ans listening (sid # ids) =
     (case in_dir dir sid of
        Err _ \<Rightarrow> list_rows us dir ans listening ids
      | Ok p \<Rightarrow>
          (let a = ans sid
           in if is_stale (fst (probe us (sp_socket p) LIST_PROBE (li_clock a) (li_probe a)))
              then (case list_rows us dir ans listening ids of
                      (rows, gone, r) \<Rightarrow> (rows, collect_dead us p a @ gone, r))
              else if \<not> listening then list_rows us dir ans listening ids
              else case li_written a of
                     Ok _ \<Rightarrow>
                       (case list_rows us dir ans listening ids of
                          (rows, gone, r) \<Rightarrow> (row_of sid a # rows, gone, r))
                   | Err e \<Rightarrow>
                       (if e = EPIPE then list_rows us dir ans False ids else ([], [], Err e))))"

datatype list_refusal = ListDirRefused dir_refusal | ListFailed errno

definition list_sessions ::
  "u32 \<Rightarrow> (bytes list \<Rightarrow> (fmeta, errno) res) \<Rightarrow> dir_answers \<Rightarrow> listing \<Rightarrow> (bytes \<Rightarrow> list_answers) \<Rightarrow> bytes
     \<Rightarrow> row list \<times> bytes list \<times> (unit, list_refusal) res" where
  "list_sessions us lstat da names ans dir =
     (case check_run_dir us lstat da (path_parts dir) of
        Err e \<Rightarrow> ([], [], Err (ListDirRefused e))
      | Ok None \<Rightarrow> ([], [], Ok ())
      | Ok (Some _) \<Rightarrow>
          (case session_ids dir names of
             Err e \<Rightarrow> ([], [], Err (ListFailed e))
           | Ok ids \<Rightarrow>
               (case list_rows us dir ans True ids of
                  (rows, gone, r) \<Rightarrow>
                    (rows, gone, case r of Ok _ \<Rightarrow> Ok () | Err e \<Rightarrow> Err (ListFailed e)))))"

end
