(* ===== verification/Control_Props.thy ===== *)
theory Control_Props
  imports Control
begin

text \<open>
  What the control surface promises: which command lines are a session's daemon's, what \<open>kill\<close> may signal and
  unlink, when it escalates, and what \<open>list\<close> prints and sweeps.
\<close>

section \<open>Command lines, whole and cut short\<close>

text \<open>\<open>/proc/<pid>/cmdline\<close>: every argument with a NUL behind it.\<close>

definition cmdline :: "bytes list \<Rightarrow> bytes" where
  "cmdline args = concat (map (\<lambda>a. a @ [0]) args)"

lemma cmdline_simps [simp]: "cmdline [] = []" "cmdline (a # args) = a @ 0 # cmdline args"
  by (simp_all add: cmdline_def)

lemma cmdline_append [simp]: "cmdline (xs @ ys) = cmdline xs @ cmdline ys"
  by (simp add: cmdline_def)

text \<open>A prefix of a command line is some whole arguments and part of the next.\<close>

lemma take_cmdline:
  "\<forall>a \<in> set args. 0 \<notin> set a \<Longrightarrow>
     \<exists>j part. take n (cmdline args) = cmdline (take j args) @ part \<and> 0 \<notin> set part \<and> j \<le> length args \<and>
       (\<forall>i. i \<le> length args \<longrightarrow> length (cmdline (take i args)) \<le> n \<longrightarrow> i \<le> j) \<and>
       (n < length (cmdline args) \<or> j = length args \<and> part = [])"
proof (induction args arbitrary: n)
  case (Cons a args)
  show ?case
  proof (cases "length a < n")
    case False
    then show ?thesis
      using Cons.prems by (intro exI [of _ 0] exI [of _ "take n a"]) (auto dest: in_set_takeD simp: take_Cons split: nat.splits)
  next
    case True
    obtain j part where j: "take (n - length a - 1) (cmdline args) = cmdline (take j args) @ part"
      "0 \<notin> set part" "j \<le> length args"
      "\<forall>i. i \<le> length args \<longrightarrow> length (cmdline (take i args)) \<le> n - length a - 1 \<longrightarrow> i \<le> j"
      "n - length a - 1 < length (cmdline args) \<or> j = length args \<and> part = []"
      using Cons.IH [of "n - length a - 1"] Cons.prems by (meson list.set_intros(2))
    have "take n (cmdline (a # args)) = a @ 0 # take (n - length a - 1) (cmdline args)"
      using True by (simp add: take_Cons')
    moreover have "i \<le> Suc j" if "i \<le> length (a # args)" "length (cmdline (take i (a # args))) \<le> n" for i
      using j(4) that by (cases i) auto
    ultimately show ?thesis
      using j by (intro exI [of _ "Suc j"] exI [of _ part]) auto
  qed
qed (auto intro: exI [of _ "[]"])

lemma read_whole_cmdline:
  assumes "0 \<notin> set part"
  shows "read_whole (cmdline args @ part) = butlast (cmdline args)"
proof (cases args rule: rev_cases)
  case Nil
  then show ?thesis using assms by (simp add: read_whole_def)
next
  case (snoc xs x)
  have "dropWhile (\<lambda>b. b \<noteq> 0) (rev part @ 0 # rev (cmdline xs @ x)) = 0 # rev (cmdline xs @ x)"
    using assms by (intro drop_to_sep) simp
  then show ?thesis by (simp add: snoc read_whole_def butlast_append)
qed

lemma split_on_cmdline:
  "\<forall>a \<in> set args. 0 \<notin> set a \<Longrightarrow> args \<noteq> [] \<Longrightarrow> split_on 0 (butlast (cmdline args)) = args"
proof (induction args)
  case (Cons a args)
  show ?case
  proof (cases "args = []")
    case True
    then show ?thesis using Cons.prems by (simp add: split_on_whole butlast_append)
  next
    case False
    then have "cmdline args \<noteq> []" by (cases args) auto
    then show ?thesis
      using Cons False by (simp add: butlast_append split_on_append split_on_whole)
  qed
qed simp

lemma first_bare_Some: "first_bare args (Some s) = Some s"
  by (induction args "Some s" rule: first_bare.induct) (auto split: list.split)

lemma first_bare_take:
  "first_bare (take n args) None = None \<or> first_bare (take n args) None = first_bare args None"
proof (induction "length args" arbitrary: args n rule: less_induct)
  case less
  show ?case
  proof (cases args)
    case (Cons arg rest)
    show ?thesis
    proof (cases n)
      case (Suc m)
      show ?thesis
      proof (cases "arg = ascii ''--label'' \<or> arg = ascii ''--lock-fd''")
        case True
        then show ?thesis
          using less.hyps [of "tl rest" "m - 1"] Cons Suc
          by (cases rest; cases m) auto
      next
        case False
        then show ?thesis
          using less.hyps [of rest m] Cons Suc by (auto simp: first_bare_Some)
      qed
    qed simp
  qed simp
qed

lemma session_named_args:
  assumes "\<forall>a \<in> set args. 0 \<notin> set a"
  shows "session_named (butlast (cmdline args)) =
    (case args of argv0 # word # rest \<Rightarrow> if word = ascii ''daemon'' then first_bare rest None else None
     | _ \<Rightarrow> None)"
  using split_on_cmdline [OF assms]
  by (cases args rule: remdups_adj.cases) (simp_all add: session_named_def)

lemma nul_in_butlast:
  assumes "\<forall>a \<in> set args. 0 \<notin> set a"
  shows "0 \<in> set (butlast (cmdline args)) \<longleftrightarrow> 2 \<le> length args"
proof (cases args rule: remdups_adj.cases)
  case (3 x y xs)
  then show ?thesis by (simp add: butlast_append)
qed (use assms in \<open>simp_all add: butlast_append\<close>)

lemma first_bare_valid:
  assumes "is_valid_session_id sid"
  shows "first_bare (sid # args) None = Some sid"
proof -
  obtain b bs where sid: "sid = b # bs" "b \<noteq> 45"
    using assms by (cases sid) (auto simp: is_valid_session_id_def)
  have "ascii ''--label'' \<noteq> b # bs" "ascii ''--lock-fd'' \<noteq> b # bs"
    using sid(2) by (auto simp: ascii_def)
  then show ?thesis using sid by (auto simp: first_bare_Some)
qed

text \<open>The command line \<open>spawn\<close> starts a daemon with holds its id within one read of it.\<close>

lemma verdict_of_told:
  assumes clean: "\<forall>a \<in> set (argv0 # ascii ''daemon'' # sid # tail). 0 \<notin> set a"
    and short: "length argv0 \<le> PATH_MAX" and sid: "is_valid_session_id sid"
  shows "daemon_verdict (take MAX_CMDLINE_LEN (cmdline (argv0 # ascii ''daemon'' # sid # tail))) sid = Some True"
proof -
  let ?args = "argv0 # ascii ''daemon'' # sid # tail"
  obtain j part where j: "take MAX_CMDLINE_LEN (cmdline ?args) = cmdline (take j ?args) @ part" "0 \<notin> set part"
    "\<forall>i. i \<le> length ?args \<longrightarrow> length (cmdline (take i ?args)) \<le> MAX_CMDLINE_LEN \<longrightarrow> i \<le> j"
    using take_cmdline [OF clean, of MAX_CMDLINE_LEN] by metis
  have "length (cmdline (take 3 ?args)) \<le> MAX_CMDLINE_LEN"
    using short sid by (simp add: MAX_CMDLINE_LEN_def is_valid_session_id_def ascii_def numeral_3_eq_3)
  then have "3 \<le> j" using j(3) by simp
  then have "j = Suc (Suc (Suc (j - 3)))" by simp
  then obtain m where m: "j = Suc (Suc (Suc m))" by blast
  have "\<forall>a \<in> set (take j ?args). 0 \<notin> set a" using clean by (meson in_set_takeD)
  note named = session_named_args [OF this]
  have "session_named (butlast (cmdline (take j ?args))) = Some sid"
    unfolding named using first_bare_valid [OF sid, of "take m tail"] by (simp add: m del: first_bare.simps)
  then show ?thesis
    unfolding j(1) daemon_verdict_def read_whole_cmdline [OF j(2)] by simp
qed



section \<open>\<open>kill\<close>\<close>

text \<open>The grounds on which a process may be signalled for a session.\<close>

definition named_by :: "pid_answers \<Rightarrow> bytes \<Rightarrow> chosen \<Rightarrow> bool" where
  "named_by look sid c \<longleftrightarrow>
     (\<exists>body. pidfile look = Ok (Some (ch_pid c), body)) \<and> ch_reach c = pa_pin look (ch_pid c) \<and>
     is_daemon_for (pa_cmdline look (ch_pid c)) sid \<noteq> Some False"

lemma choose_pid_Some:
  "choose_pid look sid filed = Some c \<Longrightarrow> filed = Some (ch_pid c) \<and> ch_reach c = pa_pin look (ch_pid c) \<and>
     is_daemon_for (pa_cmdline look (ch_pid c)) sid \<noteq> Some False"
  by (auto simp: choose_pid_def identified_def Let_def split: option.splits if_splits)

lemma resolve_loop_cases:
  "case fst (resolve_loop us p deadline ck probes looks k) of
     Ok None \<Rightarrow> \<exists>j. proved_free (probes j)
   | Ok (Some c) \<Rightarrow> \<exists>j. named_by (looks j) (sp_id p) c
   | Err _ \<Rightarrow> True"
proof (induction us p deadline ck probes looks k rule: resolve_loop.induct)
  case (1 us p deadline ck probes looks k)
  obtain l ck1 where l: "probe us (sp_socket p) CONTROL_PROBE_TIMEOUT ck (probes k) = (l, ck1)"
    by (cases "probe us (sp_socket p) CONTROL_PROBE_TIMEOUT ck (probes k)")
  obtain now ck2 where now: "clock_now ck1 = (now, ck2)" by (cases "clock_now ck1")
  let ?un = "case l of LvUnknown err \<Rightarrow> Some err | _ \<Rightarrow> None"
  show ?case
  proof (cases "is_stale l")
    case True
    then obtain e where "l = LvStale e" by (auto simp: is_stale_iff)
    then have "proved_free (probes k)"
      using l probe_free [of us "sp_socket p" CONTROL_PROBE_TIMEOUT ck "probes k" e] by simp
    then show ?thesis using True l by (subst resolve_loop.simps) auto
  next
    case alive: False
    note again = "1.IH" [OF l [symmetric] refl refl alive]
    show ?thesis
    proof (cases "pidfile (looks k)")
      case (Ok fb)
      obtain filed body where fb: "fb = (filed, body)" by (cases fb)
      show ?thesis
      proof (cases "ascii_blank body")
        case True
        then show ?thesis
          using again(1) [OF Ok fb [symmetric] _ now [symmetric]] l now alive Ok fb
          by (subst resolve_loop.simps) (auto simp: Let_def)
      next
        case False
        show ?thesis
        proof (cases "choose_pid (looks k) (sp_id p) filed")
          case (Some c)
          then have "named_by (looks k) (sp_id p) c"
            using choose_pid_Some Ok fb by (auto simp: named_by_def)
          then show ?thesis
            using Some l alive Ok fb False by (subst resolve_loop.simps) (auto simp: Let_def)
        qed (use l alive Ok fb False in \<open>subst resolve_loop.simps, simp add: Let_def\<close>)
      qed
    next
      case (Err f)
      then show ?thesis
        using again(2) [OF Err _ now [symmetric]] l now alive
        by (subst resolve_loop.simps) (auto simp: Let_def)
    qed
  qed
qed

text \<open>How the wait behind \<open>SIGTERM\<close> may have ended.\<close>

definition kill_end ::
  "u32 \<Rightarrow> chosen \<Rightarrow> (unit, errno) res \<Rightarrow> (unit, errno) res \<Rightarrow> (unit, errno) res option \<Rightarrow> nat \<Rightarrow> clock
     \<Rightarrow> (nat \<Rightarrow> os_connect list) \<Rightarrow> (unit, kill_refusal) res \<times> (unit, errno) res option \<times> clock \<Rightarrow> bool" where
  "kill_end us c term_sent kill_answer killed deadline ck probes out \<longleftrightarrow>
     (case out of (r, killed', ck') \<Rightarrow>
        fst ck \<le> fst ck' \<and>
        (killed' = killed \<or> killed = None \<and> killed' = Some (chosen_signal c kill_answer) \<and> deadline \<le> fst ck') \<and>
        (case r of
           Ok _ \<Rightarrow> \<exists>j. proved_free (probes j)
         | Err (StillAnswering pid t sent) \<Rightarrow>
             pid = ch_pid c \<and> t = term_sent \<and> killed' = Some sent \<and>
             (if killed = None then deadline + KILL_GRACE else deadline) \<le> fst ck' \<and>
             (\<exists>j peer. settled_on (probes j) (Some (CnOk peer)) \<and> p_uid peer = Ok us)
         | Err (Unprobeable _) \<Rightarrow> True
         | Err _ \<Rightarrow> False))"

lemma kill_end_earlier:
  "kill_end us c term_sent kill_answer killed deadline ck' probes out \<Longrightarrow> fst ck \<le> fst ck' \<Longrightarrow>
     kill_end us c term_sent kill_answer killed deadline ck probes out"
  by (cases out) (simp add: kill_end_def)

lemma kill_waits_end:
  "kill_end us c term_sent kill_answer killed deadline ck probes
     (kill_waits us p c term_sent kill_answer killed deadline ck probes k)"
proof (induction us p c term_sent kill_answer killed deadline ck probes k rule: kill_waits.induct)
  case (1 us p c term_sent kill_answer killed deadline ck probes k)
  obtain l ck1 where l: "probe us (sp_socket p) CONTROL_PROBE_TIMEOUT ck (probes k) = (l, ck1)"
    by (cases "probe us (sp_socket p) CONTROL_PROBE_TIMEOUT ck (probes k)")
  obtain now ck2 where now: "clock_now ck1 = (now, ck2)" by (cases "clock_now ck1")
  obtain now' ck3 where now': "clock_now ck2 = (now', ck3)" by (cases "clock_now ck2")
  have time: "fst ck \<le> fst ck1" "fst ck1 \<le> now" "fst ck2 = now" "now \<le> now'" "fst ck3 = now'"
    using probe_clock [of ck us "sp_socket p" CONTROL_PROBE_TIMEOUT "probes k"] l
      clock_now_mono [OF now] clock_now_mono [OF now'] by auto
  show ?case
  proof (cases l)
    case (LvStale e)
    then have "proved_free (probes k)"
      using l probe_free [of us "sp_socket p" CONTROL_PROBE_TIMEOUT ck "probes k" e] by simp
    then show ?thesis using l LvStale time by (subst kill_waits.simps) (auto simp: kill_end_def)
  next
    case (LvUnknown e)
    then show ?thesis using l time by (subst kill_waits.simps) (simp add: kill_end_def)
  next
    case (LvAlive peer)
    then have peer: "settled_on (probes k) (Some (CnOk peer)) \<and> p_uid peer = Ok us"
      using l probe_alive [of us "sp_socket p" CONTROL_PROBE_TIMEOUT ck "probes k" peer] by simp
    note ih = "1.IH" [OF l [symmetric] LvAlive now [symmetric]]
    consider (sooner) "\<not> deadline \<le> now" | (done') sent where "deadline \<le> now" "killed = Some sent"
      | (escalate) "deadline \<le> now" "killed = None" by (cases killed) auto
    then show ?thesis
    proof cases
      case sooner
      then have "kill_waits us p c term_sent kill_answer killed deadline ck probes k
          = kill_waits us p c term_sent kill_answer killed deadline (clock_sleep POLL_INTERVAL ck2) probes (Suc k)"
        using l LvAlive now by (subst kill_waits.simps) simp
      then show ?thesis using kill_end_earlier [OF ih(2) [OF sooner]] time
        by (simp add: clock_sleep_def)
    next
      case done'
      then show ?thesis using l LvAlive now time peer
        by (subst kill_waits.simps) (auto simp: kill_end_def)
    next
      case escalate
      then have step: "kill_waits us p c term_sent kill_answer killed deadline ck probes k
          = kill_waits us p c term_sent kill_answer (Some (chosen_signal c kill_answer)) (now' + KILL_GRACE)
              (clock_sleep POLL_INTERVAL ck3) probes (Suc k)"
        using l LvAlive now now' by (subst kill_waits.simps) simp
      have "kill_end us c term_sent kill_answer (Some (chosen_signal c kill_answer)) (now' + KILL_GRACE)
          (clock_sleep POLL_INTERVAL ck3) probes
          (kill_waits us p c term_sent kill_answer (Some (chosen_signal c kill_answer)) (now' + KILL_GRACE)
              (clock_sleep POLL_INTERVAL ck3) probes (Suc k))"
        using ih(1) [OF escalate now' [symmetric]] .
      then show ?thesis
        unfolding step using time escalate
        by (auto simp: kill_end_def clock_sleep_def split: prod.splits res.splits kill_refusal.splits)
    qed
  qed
qed


lemma kill_collect_cases:
  "kd_signals (kill_collect us p ck a signals) = signals \<and>
   (if kd_removed (kill_collect us p ck a signals) = [] then True
    else proved_free (ka_final a) \<and>
      kd_removed (kill_collect us p ck a signals) = fst (unlink_locked (ka_remove a) True p (ka_scan a))) \<and>
   (is_ok (kd_result (kill_collect us p ck a signals)) \<longrightarrow>
      kd_removed (kill_collect us p ck a signals) \<noteq> [])"
proof (cases "fst (probe us (sp_socket p) CONTROL_PROBE_TIMEOUT ck (ka_final a))")
  case (LvStale e)
  moreover have "fst (unlink_locked (ka_remove a) True p (ka_scan a)) \<noteq> []"
    by (simp add: unlink_locked_def removal_order_def Let_def split_beta)
  ultimately show ?thesis
    using probe_free [OF LvStale] by (simp add: kill_collect_def split_beta)
qed (simp_all add: kill_collect_def)

lemma delivered_set:
  "delivered c sig (chosen_signal c answer) \<in> {[], [(sig, ch_pid c)]} \<and>
   (delivered c sig (chosen_signal c answer) \<noteq> [] \<longrightarrow> ch_reach c = Ok ())"
  by (cases "ch_reach c") (auto simp: delivered_def chosen_signal_def)

text \<open>Everything under the lock: what was signalled, and on which grounds.\<close>

lemma kill_locked_cases:
  "(\<exists>pid. kd_signals (kill_locked us p ck a) \<in>
      {[], [(TermSignal, pid)], [(KillSignal, pid)], [(TermSignal, pid), (KillSignal, pid)]} \<and>
      (kd_signals (kill_locked us p ck a) \<noteq> [] \<longrightarrow>
        (\<exists>k c. named_by (ka_looks a k) (sp_id p) c \<and> ch_pid c = pid \<and> ch_reach c = Ok ()))) \<and>
   (kd_removed (kill_locked us p ck a) \<noteq> [] \<longrightarrow> proved_free (ka_final a) \<and>
      kd_removed (kill_locked us p ck a) = fst (unlink_locked (ka_remove a) True p (ka_scan a))) \<and>
   (is_ok (kd_result (kill_locked us p ck a)) \<longrightarrow> kd_removed (kill_locked us p ck a) \<noteq> [])"
proof -
  obtain now ck1 where now: "clock_now ck = (now, ck1)" by (cases "clock_now ck")
  obtain r ck2 where r: "resolve_loop us p (now + GRACE) ck1 (ka_resolve a) (ka_looks a) 0 = (r, ck2)"
    by (cases "resolve_loop us p (now + GRACE) ck1 (ka_resolve a) (ka_looks a) 0")
  note named = resolve_loop_cases [where us = us and p = p and deadline = "now + GRACE" and ck = ck1
      and probes = "ka_resolve a" and looks = "ka_looks a" and k = 0, unfolded r fst_conv]
  consider e where "r = Err e" | "r = Ok None" | c where "r = Ok (Some c)"
    by (metis option.exhaust res.exhaust)
  then show ?thesis
  proof cases
    case 1
    then show ?thesis using now r by (simp add: kill_locked_def kill_nothing_def)
  next
    case 2
    then show ?thesis
      using now r kill_collect_cases [of us p ck2 a "[]"] by (auto simp: kill_locked_def split: if_splits)
  next
    case (3 c)
    obtain now' ck3 where now': "clock_now ck2 = (now', ck3)" by (cases "clock_now ck2")
    let ?loop = "kill_waits us p c (chosen_signal c (ka_term a)) (ka_kill a) None (now' + GRACE) ck3 (ka_probes a) 0"
    obtain rl killed ck4 where loop: "?loop = (rl, killed, ck4)" by (cases ?loop)
    have killed: "killed = None \<or> killed = Some (chosen_signal c (ka_kill a))"
      using kill_waits_end [of us c "chosen_signal c (ka_term a)" "ka_kill a" None "now' + GRACE" ck3 "ka_probes a" p 0]
      by (auto simp: loop kill_end_def)
    define signals where "signals = delivered c TermSignal (chosen_signal c (ka_term a)) @
      (case killed of None \<Rightarrow> [] | Some sent \<Rightarrow> delivered c KillSignal sent)"
    have set: "signals \<in> {[], [(TermSignal, ch_pid c)], [(KillSignal, ch_pid c)],
        [(TermSignal, ch_pid c), (KillSignal, ch_pid c)]}"
      and reach: "signals \<noteq> [] \<longrightarrow> ch_reach c = Ok ()"
      using killed delivered_set [of c TermSignal "ka_term a"] delivered_set [of c KillSignal "ka_kill a"]
      by (auto simp: signals_def)
    have out: "kill_locked us p ck a = (case rl of
        Err e \<Rightarrow> \<lparr>kd_signals = signals, kd_removed = [], kd_result = Err e\<rparr>
      | Ok _ \<Rightarrow> kill_collect us p ck4 a signals)"
      unfolding signals_def using now r now' loop 3 by (simp add: kill_locked_def Let_def)
    have "kd_signals (kill_locked us p ck a) = signals"
      using kill_collect_cases [of us p ck4 a signals] by (simp add: out split: res.split)
    then have "\<exists>pid. kd_signals (kill_locked us p ck a) \<in>
      {[], [(TermSignal, pid)], [(KillSignal, pid)], [(TermSignal, pid), (KillSignal, pid)]} \<and>
      (kd_signals (kill_locked us p ck a) \<noteq> [] \<longrightarrow>
        (\<exists>k c. named_by (ka_looks a k) (sp_id p) c \<and> ch_pid c = pid \<and> ch_reach c = Ok ()))"
      using set reach named 3 by (intro exI [of _ "ch_pid c"]) auto
    then show ?thesis
      using kill_collect_cases [of us p ck4 a signals] by (auto simp: out split: res.splits if_splits)
  qed
qed


section \<open>\<open>list\<close>\<close>

text \<open>What a sweep makes of an id: dead, live, or one whose files this directory cannot address.\<close>

definition dead_id :: "u32 \<Rightarrow> bytes \<Rightarrow> (bytes \<Rightarrow> list_answers) \<Rightarrow> bytes \<Rightarrow> bool" where
  "dead_id us dir ans sid =
     (case in_dir dir sid of
        Err _ \<Rightarrow> False
      | Ok p \<Rightarrow> is_stale (fst (probe us (sp_socket p) LIST_PROBE (li_clock (ans sid)) (li_probe (ans sid)))))"

definition live_id :: "u32 \<Rightarrow> bytes \<Rightarrow> (bytes \<Rightarrow> list_answers) \<Rightarrow> bytes \<Rightarrow> bool" where
  "live_id us dir ans sid \<longleftrightarrow> is_ok (in_dir dir sid) \<and> \<not> dead_id us dir ans sid"

definition swept :: "u32 \<Rightarrow> bytes \<Rightarrow> (bytes \<Rightarrow> list_answers) \<Rightarrow> bytes \<Rightarrow> bytes list" where
  "swept us dir ans sid = (case in_dir dir sid of Err _ \<Rightarrow> [] | Ok p \<Rightarrow> collect_dead us p (ans sid))"

lemma list_rows_silent:
  "list_rows us dir ans False ids = ([], concat (map (swept us dir ans) (filter (dead_id us dir ans) ids)), Ok ())"
  by (induction ids) (auto simp: dead_id_def swept_def split: res.split)

lemma list_rows_cases:
  "case list_rows us dir ans True ids of (rows, gone, r) \<Rightarrow>
     rows = map (\<lambda>sid. row_of sid (ans sid))
       (takeWhile (\<lambda>sid. li_written (ans sid) = Ok ()) (filter (live_id us dir ans) ids)) \<and>
     (if is_ok r then gone = concat (map (swept us dir ans) (filter (dead_id us dir ans) ids))
      else \<exists>sid \<in> set ids. live_id us dir ans sid \<and> r = li_written (ans sid) \<and> r \<noteq> Err EPIPE) \<and>
     (\<exists>rest. concat (map (swept us dir ans) (filter (dead_id us dir ans) ids)) = gone @ rest)"
proof (induction ids)
  case (Cons sid ids)
  obtain rows gone r where ih: "list_rows us dir ans True ids = (rows, gone, r)"
    by (cases "list_rows us dir ans True ids")
  show ?case
  proof (cases "in_dir dir sid")
    case (Err e)
    then show ?thesis using Cons.IH ih by (auto simp: dead_id_def live_id_def)
  next
    case (Ok p)
    show ?thesis
    proof (cases "dead_id us dir ans sid")
      case True
      then show ?thesis using Cons.IH ih Ok by (auto simp: dead_id_def live_id_def swept_def)
    next
      case False
      then have live: "live_id us dir ans sid"
        "\<not> is_stale (fst (probe us (sp_socket p) LIST_PROBE (li_clock (ans sid)) (li_probe (ans sid))))"
        using Ok by (auto simp: live_id_def dead_id_def)
      show ?thesis
      proof (cases "li_written (ans sid)")
        case written: (Ok u)
        then show ?thesis using Cons.IH ih Ok live False by auto
      next
        case (Err e)
        show ?thesis
        proof (cases "e = EPIPE")
          case True
          then show ?thesis using Err Ok live False list_rows_silent [of us dir ans ids] by simp
        next
          case e: False
          then show ?thesis using Err Ok live False by simp
        qed
      qed
    qed
  qed
qed simp


end
