(* ===== verification/Cmdline.thy ===== *)
theory Cmdline
  imports Attach Cli Control_Props
begin

text \<open>
  The command line that ties three components: \<open>spawn\<close> writes it (attach.rs), the daemon's \<open>main\<close> parses it
  (main.rs), and \<open>list\<close> and \<open>kill\<close> recognise the daemon by it in \<open>/proc\<close> (control.rs).
\<close>

text \<open>The arguments of the program \<open>spawn\<close> starts.\<close>

definition label_args :: "nat list option \<Rightarrow> bytes list" where
  "label_args label =
     (case map_option sanitize_label label of
        None \<Rightarrow> []
      | Some label \<Rightarrow> if label = [] then [] else [ascii ''--label'', utf8_encode label])"

lemma daemon_program_args:
  assumes "daemon_program (Ok exe) sid label fd = Ok prog"
  shows "pr_args prog = [exe, ascii ''daemon'', sid, ascii ''--lock-fd'', map of_nat (show_nat fd)] @ label_args label"
    and "\<forall>a \<in> set (pr_args prog). 0 \<notin> set a"
  using assms
  by (auto simp: daemon_program_def program_new_def program_arg_def nul_terminated_def label_args_def
      and_then_eq_Ok split: if_splits option.splits)

lemma parse_lock_fd_show:
  assumes "2 < fd" and "fd < 2 ^ 31" and "arg_lock_fd a = None"
  shows "parse_lock_fd (map of_nat (show_nat fd)) a = Ok (a\<lparr>arg_lock_fd := Some (int fd)\<rparr>)"
  using assms show_nat_digits [of fd]
  by (simp add: parse_lock_fd_def digits_arg parse_i32_show)

lemma id_bytes:
  assumes "is_valid_session_id sid"
  shows "utf8_valid sid" "split_once_eq sid = None" "take 1 sid \<noteq> [45]"
proof -
  have "list_all is_id_byte sid" "sid \<noteq> []" "hd sid \<noteq> 45" using assms by (auto simp: is_valid_session_id_def)
  moreover from this have "take 1 sid \<noteq> [45]" by (cases sid) auto
  ultimately show "utf8_valid sid" "split_once_eq sid = None" "take 1 sid \<noteq> [45]"
    by (auto simp: list_all_iff is_id_byte_def split_once_eq_def word_less_nat_alt word_le_nat_alt
        intro!: utf8_valid_ascii dest!: bspec)
qed

text \<open>The loop over each kind of argument \<open>spawn\<close> writes.\<close>

lemma parse_args_id:
  assumes "is_valid_session_id sid" and "arg_session a = None"
  shows "parse_args True (sid # rest) a = parse_args True rest (a\<lparr>arg_session := Some sid\<rparr>)"
  using id_bytes [OF assms(1)] assms(2)
  by (auto simp: parse_args.simps(2) from_utf8_def ascii_def)

lemma parse_args_fd:
  assumes "2 < fd" and "fd < 2 ^ 31" and "arg_lock_fd a = None"
  shows "parse_args True (ascii ''--lock-fd'' # map of_nat (show_nat fd) # rest) a
    = parse_args True rest (a\<lparr>arg_lock_fd := Some (int fd)\<rparr>)"
  using parse_lock_fd_show [OF assms] show_nat_digits [of fd]
  by (simp add: parse_args.simps(2) from_utf8_def ascii_def split_once_eq_def digits_arg)

lemma parse_args_label:
  assumes "utf8_valid l" and "arg_label a = None"
  shows "parse_args True [ascii ''--label'', l] a = Ok (a\<lparr>arg_label := Some l\<rparr>)"
  using assms by (simp add: parse_args.simps(2) from_utf8_def ascii_def split_once_eq_def set_label_def)

text \<open>What the daemon is to record: the sanitised label, unless nothing of it is left.\<close>

definition label_told :: "nat list option \<Rightarrow> bytes option" where
  "label_told label =
     (case label of
        None \<Rightarrow> None
      | Some l \<Rightarrow> if sanitize_label l = [] then None else Some (utf8_encode (sanitize_label l)))"

lemma sanitize_label_scalar: "list_all scalar l \<Longrightarrow> list_all scalar (sanitize_label l)"
  using sanitize_label_subset [of l] by (auto simp: list_all_iff sanitize_text_def)

lemma parse_label_args:
  assumes "list_all scalar (case label of None \<Rightarrow> [] | Some l \<Rightarrow> l)"
  shows "parse_args True (label_args label) \<lparr>arg_session = s, arg_label = None, arg_lock_fd = f\<rparr>
    = Ok \<lparr>arg_session = s, arg_label = label_told label, arg_lock_fd = f\<rparr>"
proof (cases label)
  case None
  then show ?thesis by (simp add: label_args_def label_told_def)
next
  case (Some l)
  then have "utf8_valid (utf8_encode (sanitize_label l))"
    using assms by (simp add: utf8_valid_encode sanitize_label_scalar)
  then show ?thesis using Some by (simp add: label_args_def label_told_def parse_args_label)
qed

lemma dispatch_daemon:
  "dispatch (ascii ''daemon'' # args)
     = with_session (ascii ''daemon'') args True (\<lambda>session label lock_fd. Ok (RunDaemon session label lock_fd))"
  by (simp add: dispatch_def) (simp add: ascii_def)

lemma daemon_verdict_of_program:
  assumes "daemon_program (Ok exe) sid label fd = Ok prog" and "is_valid_session_id sid"
    and "length exe \<le> PATH_MAX"
  shows "daemon_verdict (take MAX_CMDLINE_LEN (cmdline (pr_args prog))) sid = Some True"
  using daemon_program_args(2) [OF assms(1)] assms(2,3)
  unfolding daemon_program_args(1) [OF assms(1)] append_Cons by (intro verdict_of_told)

text \<open>
  C28. A daemon is told what \<open>spawn\<close> meant, and is recognised by it.  Whatever id, label and lock
  descriptor a \<open>spawn\<close> was given, the command line it starts the daemon with is one the daemon's own
  \<open>main\<close> accepts, as exactly that id, that descriptor and the sanitised label -- no label where nothing of it
  was left -- and as read back from \<open>/proc\<close>, cut off where \<open>list\<close> and \<open>kill\<close> stop reading, it is recognised
  as that session's daemon's, however long the label.
\<close>

theorem spawn_and_daemon_agree:
  assumes "daemon_program (Ok exe) sid label fd = Ok prog" and "is_valid_session_id sid"
    and "2 < fd" and "fd < 2 ^ 31" and "length exe \<le> PATH_MAX"
    and "list_all scalar (case label of None \<Rightarrow> [] | Some l \<Rightarrow> l)"
  shows "dispatch (tl (pr_args prog)) = Ok (RunDaemon sid (label_told label) (Some (int fd))) \<and>
    daemon_verdict (take MAX_CMDLINE_LEN (cmdline (pr_args prog))) sid = Some True"
proof -
  have "dispatch (tl (pr_args prog))
      = with_session (ascii ''daemon'') (sid # ascii ''--lock-fd'' # map of_nat (show_nat fd) # label_args label)
          True (\<lambda>session label lock_fd. Ok (RunDaemon session label lock_fd))"
    unfolding daemon_program_args(1) [OF assms(1)] append_Cons append_Nil list.sel by (rule dispatch_daemon)
  moreover have "parse_session_args True (sid # ascii ''--lock-fd'' # map of_nat (show_nat fd) # label_args label)
      = Ok \<lparr>arg_session = Some sid, arg_label = label_told label, arg_lock_fd = Some (int fd)\<rparr>"
    using assms(6)
    unfolding parse_session_args_def
    by (simp only: parse_args_id [OF assms(2)] parse_args_fd [OF assms(3,4)] parse_label_args session_args.simps)
  ultimately show ?thesis
    using daemon_verdict_of_program [OF assms(1,2,5)] by (simp add: with_session_def)
qed

theorem spawn_and_daemon_agree_witness:
  "dispatch [ascii ''daemon'', ascii ''s'', ascii ''--lock-fd'', ascii ''7'', ascii ''--label'', ascii ''b'']
     = Ok (RunDaemon (ascii ''s'') (Some (ascii ''b'')) (Some 7))"
proof -
  let ?args = "[ascii ''daemon'', ascii ''s'', ascii ''--lock-fd'', ascii ''7'', ascii ''--label'', ascii ''b'']"
  have label: "sanitize_label [98] = [98]" "utf8_encode [98] = ascii ''b''"
    by (simp_all add: sanitize_label_def sanitize_text_def is_deceptive_def is_control_def trim_def trim_start_def
        trim_end_def is_whitespace_def MAX_LABEL_LEN_def char_len_def utf8_encode_def utf8_char_def ascii_def)
  have num: "map of_nat (show_nat 7) = ascii ''7''" by (subst show_nat.simps) (simp add: ascii_def)
  have "daemon_program (Ok (ascii ''/n'')) (ascii ''s'') (Some [98]) 7
      = Ok \<lparr>pr_path = ascii ''/proc/self/exe'', pr_args = ascii ''/n'' # ?args, pr_overrides = [], pr_dir = None\<rparr>"
    unfolding daemon_program_def program_new_def program_arg_def nul_terminated_def num
    by (simp add: label) (simp add: ascii_def)
  moreover have "is_valid_session_id (ascii ''s'')"
    by (simp add: is_valid_session_id_def is_id_byte_def MAX_SESSION_ID_LEN_def ascii_def)
  moreover have "length (ascii ''/n'') \<le> PATH_MAX" by (simp add: PATH_MAX_def ascii_def)
  moreover have "list_all scalar (case Some [98] of None \<Rightarrow> [] | Some l \<Rightarrow> l)" by (simp add: scalar_def)
  ultimately show ?thesis
    using spawn_and_daemon_agree [of "ascii ''/n''" "ascii ''s''" "Some [98]" 7] label
    by (simp add: label_told_def)
qed

end
