(* ===== verification/Startup.thy ===== *)
theory Startup
  imports Exec
begin

text \<open>
  What the daemon does to itself before it is a daemon, after src/crates/nomux/src/startup.rs: the
  descriptors it inherited, its controlling terminal, and its standard streams.
\<close>

section \<open>Inherited descriptors\<close>

definition U32_MAX :: nat where
  "U32_MAX = 2 ^ 32 - 1"

text \<open>\<open>close_range\<close>: an empty range is done, and \<open>known\<close> is whether the kernel knows the call.\<close>

definition close_range :: "bool \<Rightarrow> nat \<Rightarrow> nat \<Rightarrow> fdtable \<Rightarrow> bool \<times> fdtable" where
  "close_range known lo hi t =
     (if hi < lo then (True, t)
      else if known then (True, \<lambda>n. if lo \<le> n \<and> n \<le> hi then None else t n)
      else (False, t))"

text \<open>The numbers \<open>/proc/self/fd\<close> lists that are to be closed, or the error its reading met.\<close>

fun inherited_fds :: "int option \<Rightarrow> (bytes, errno) res list \<Rightarrow> (nat list, errno) res" where
  "inherited_fds keep [] = Ok []"
| "inherited_fds keep (Err e # entries) = Err e"
| "inherited_fds keep (Ok name # entries) =
     and_then (inherited_fds keep entries) (\<lambda>fds. Ok (
       case (case from_utf8 name of None \<Rightarrow> None | Some s \<Rightarrow> parse_i32 (utf8_chars s)) of
         None \<Rightarrow> fds
       | Some fd \<Rightarrow> if 2 < fd \<and> keep \<noteq> Some fd then nat fd # fds else fds))"

text \<open>
  \<open>close_inherited_descriptors\<close>: \<open>ranges\<close> is what \<open>close_range\<close> answers to each call in turn, \<open>listed\<close> what
  reading \<open>/proc/self/fd\<close> finds.
\<close>

definition close_inherited ::
  "int option \<Rightarrow> bool \<times> bool \<Rightarrow> ((bytes, errno) res list, errno) res \<Rightarrow> fdtable \<Rightarrow> fdtable \<times> (unit, errno) res" where
  "close_inherited keep ranges listed t =
     (let keep = (case keep of None \<Rightarrow> None | Some fd \<Rightarrow> if 0 \<le> fd then Some fd else None)
      in case (case keep of
                 None \<Rightarrow> close_range (fst ranges) 3 U32_MAX t
               | Some fd \<Rightarrow>
                   (case close_range (fst ranges) 3 (nat fd - 1) t of
                      (True, t) \<Rightarrow> close_range (snd ranges) (min (nat fd + 1) U32_MAX) U32_MAX t
                    | (False, t) \<Rightarrow> (False, t))) of
           (True, t) \<Rightarrow> (t, Ok ())
         | (False, t) \<Rightarrow>
             (case listed of
                Err e \<Rightarrow> (t, Err e)
              | Ok entries \<Rightarrow>
                  (case inherited_fds keep entries of
                     Err e \<Rightarrow> (t, Err e)
                   | Ok fds \<Rightarrow> (\<lambda>n. if n \<in> set fds then None else t n, Ok ()))))"

section \<open>The controlling terminal\<close>

text \<open>
  A process as POSIX has it: its id, its session's and its group's, and whether it has a controlling
  terminal.  \<open>setsid\<close> is refused to the leader of a group, and \<open>fork\<close> copies all but the id.
\<close>

record process =
  pr_pid :: nat
  pr_sid :: nat
  pr_pgid :: nat
  pr_terminal :: bool

definition setsid :: "process \<Rightarrow> (process, errno) res" where
  "setsid p =
     (if pr_pid p = pr_pgid p then Err EPERM
      else Ok (p\<lparr>pr_sid := pr_pid p, pr_pgid := pr_pid p, pr_terminal := False\<rparr>))"

definition terminal_behind :: "errno \<Rightarrow> bool" where
  "terminal_behind e \<longleftrightarrow> \<not> (e = ENXIO \<or> e = ENOENT \<or> e = ENODEV)"

definition has_controlling_terminal :: "(unit, errno) res \<Rightarrow> bool" where
  "has_controlling_terminal opened = (case opened of Ok _ \<Rightarrow> True | Err e \<Rightarrow> terminal_behind e)"

text \<open>
  \<open>detach_from_controlling_terminal\<close>: \<open>opened\<close> is what opening \<open>/dev/tty\<close> answers, \<open>forked\<close> what a \<open>fork\<close> does.  The
  process it leaves is the one that goes on, behind the flag whether the caller's own has exited.
\<close>

definition detach :: "(unit, errno) res \<Rightarrow> (nat, errno) res \<Rightarrow> process \<Rightarrow> (bool \<times> process, errno) res" where
  "detach opened forked p =
     (let leads_session = (pr_sid p = pr_pid p)
      in if leads_session \<and> \<not> has_controlling_terminal opened then Ok (False, p)
         else case setsid p of
           Ok p \<Rightarrow> Ok (False, p)
         | Err _ \<Rightarrow>
             (case forked of
                Err e \<Rightarrow> Err e
              | Ok child \<Rightarrow> and_then (setsid (p\<lparr>pr_pid := child\<rparr>)) (\<lambda>p. Ok (True, p))))"

section \<open>Signals\<close>

text \<open>
  The handlers: one byte down a non-blocking pipe that holds \<open>capacity\<close>, once its write end \<open>raw\<close> has been
  published.  A full pipe refuses the byte, and is readable already.
\<close>

definition note_signal :: "int \<Rightarrow> nat \<Rightarrow> bytes \<Rightarrow> bytes" where
  "note_signal raw capacity queued =
     (if raw < 0 then queued else if length queued < capacity then queued @ [0] else queued)"

lemma note_signal_wakes: "0 \<le> raw \<Longrightarrow> 0 < capacity \<Longrightarrow> note_signal raw capacity queued \<noteq> []"
  by (auto simp: note_signal_def)

lemma note_signal_bounded: "length queued \<le> capacity \<Longrightarrow> length (note_signal raw capacity queued) \<le> capacity"
  by (simp add: note_signal_def)

section \<open>The standard streams\<close>

definition silence :: "nat \<Rightarrow> (unit, errno) res list \<Rightarrow> fdtable \<Rightarrow> fdtable \<times> (unit, errno) res" where
  "silence null answers t = place [(null, 0), (null, 1), (null, 2)] answers t"

text \<open>Standard error goes last: whatever fails before it can still reach the launcher.\<close>

lemma dup2_elsewhere: "n \<noteq> slot \<Longrightarrow> dup2 src slot t n = t n"
  by (auto simp: dup2_def split: option.split prod.split)

lemma silence_stderr_last: "silence null answers t = (t', Err e) \<Longrightarrow> t' 2 = t 2"
  by (auto simp: silence_def dup2_elsewhere split: prod.splits res.splits)

lemma silence_Ok:
  assumes "silence null answers t = (t', Ok ())" and "2 < null" and "t null = Some (f, c)"
  shows "t' = t(0 \<mapsto> (f, False), 1 \<mapsto> (f, False), 2 \<mapsto> (f, False))"
  using place_Ok [OF assms(1) [unfolded silence_def]] assms(2,3) by (simp add: dup2_def)

section \<open>What is left of what was inherited\<close>

lemma inherited_fds_set:
  "inherited_fds keep entries = Ok fds \<Longrightarrow> set fds =
     {n. 2 < n \<and> keep \<noteq> Some (int n) \<and> (\<exists>name \<in> set entries. \<exists>s. name = Ok s \<and>
        utf8_valid s \<and> parse_i32 (utf8_chars s) = Some (int n))}"
proof (induction keep entries arbitrary: fds rule: inherited_fds.induct)
  case (3 keep name entries)
  then obtain fds' where fds': "inherited_fds keep entries = Ok fds'" by (auto simp: and_then_eq_Ok)
  show ?case
    using 3 fds'
    by (auto simp: and_then_eq_Ok from_utf8_def split: if_splits option.splits)
qed auto

text \<open>The name of a descriptor in \<open>/proc/self/fd\<close>.\<close>

definition fd_name :: "nat \<Rightarrow> bytes" where
  "fd_name n = map of_nat (show_nat n)"

lemma fd_name_read: "n < 2 ^ 31 \<Longrightarrow> utf8_valid (fd_name n) \<and> parse_i32 (utf8_chars (fd_name n)) = Some (int n)"
  using show_nat_digits [of n] by (simp add: fd_name_def digits_arg parse_i32_show)

lemma close_range_True:
  "close_range known lo hi t = (ok, u) \<Longrightarrow> ok \<Longrightarrow> u = (\<lambda>n. if lo \<le> n \<and> n \<le> hi then None else t n)"
  by (auto simp: close_range_def fun_eq_iff split: if_splits)

lemma close_range_False: "close_range known lo hi t = (ok, u) \<Longrightarrow> \<not> ok \<Longrightarrow> u = t"
  by (auto simp: close_range_def split: if_splits)

text \<open>
  A daemon starts with its three standard streams and the lock it was handed, and nothing else, whether the
  kernel has \<open>close_range\<close>, knows it for one call only, or leaves it to \<open>/proc/self/fd\<close>: with a listing that holds every
  open descriptor, each way closes exactly the same numbers.
\<close>

theorem only_the_lock_is_inherited:
  assumes "\<forall>n. t n \<noteq> None \<longrightarrow> n < 2 ^ 31 \<and> Ok (fd_name n) \<in> set entries"
    and "case keep of None \<Rightarrow> True | Some k \<Rightarrow> 2 < k \<and> k < 2 ^ 31"
    and "close_inherited keep ranges (Ok entries) t = (t', Ok ())"
  shows "t' = (\<lambda>n. if n \<le> 2 \<or> keep = Some (int n) then t n else None)"
proof -
  have gone: "t n = None" if "U32_MAX < n" for n
  proof (rule ccontr)
    assume "t n \<noteq> None"
    then have "n < 2 ^ 31" using assms(1) by blast
    then show False using that by (simp add: U32_MAX_def)
  qed
  have range: "(\<lambda>n. if n \<in> set fds then None else u n) = (\<lambda>n. if n \<le> 2 \<or> keep = Some (int n) then t n else None)"
    if fds: "inherited_fds keep entries = Ok fds"
      and u: "\<And>n. u n = t n \<or> u n = None \<and> 2 < n \<and> keep \<noteq> Some (int n)" for u fds
  proof
    fix n
    have "n \<in> set fds" if "t n \<noteq> None" "2 < n" "keep \<noteq> Some (int n)"
      using that assms(1) fd_name_read [of n] unfolding inherited_fds_set [OF fds] by blast
    moreover have "2 < n \<and> keep \<noteq> Some (int n)" if "n \<in> set fds"
      using that unfolding inherited_fds_set [OF fds] by blast
    ultimately show "(if n \<in> set fds then None else u n) = (if n \<le> 2 \<or> keep = Some (int n) then t n else None)"
      using u [of n] by (cases "t n") (auto simp: not_le)
  qed
  have listed: ?thesis
    if out: "(case inherited_fds keep entries of Err e \<Rightarrow> (u, Err e)
        | Ok fds \<Rightarrow> (\<lambda>n. if n \<in> set fds then None else u n, Ok ())) = (t', Ok ())"
      and u: "\<And>n. u n = t n \<or> u n = None \<and> 2 < n \<and> keep \<noteq> Some (int n)" for u
    using out range [OF _ u] by (auto split: res.splits)
  show ?thesis
  proof (cases keep)
    case None
    obtain ok u where first: "close_range (fst ranges) 3 U32_MAX t = (ok, u)"
      by (cases "close_range (fst ranges) 3 U32_MAX t")
    show ?thesis
    proof (cases ok)
      case True
      then have "t' = u" using assms(3) first None by (simp add: close_inherited_def)
      then show ?thesis
        using close_range_True [OF first True] gone None by (auto simp: fun_eq_iff not_le)
    next
      case False
      then have "u = t" using close_range_False [OF first] by simp
      then show ?thesis using assms(3) first None False by (intro listed [of t]) (simp_all add: close_inherited_def)
    qed
  next
    case (Some k)
    define K where "K = nat k"
    have K: "2 < K" "K < 2 ^ 31" "k = int K" using assms(2) Some by (auto simp: K_def)
    obtain ok u where first: "close_range (fst ranges) 3 (K - 1) t = (ok, u)"
      by (cases "close_range (fst ranges) 3 (K - 1) t")
    have top: "min (K + 1) U32_MAX = K + 1" using K(2) by (simp add: U32_MAX_def)
    obtain ok' u' where second: "close_range (snd ranges) (K + 1) U32_MAX u = (ok', u')"
      by (cases "close_range (snd ranges) (K + 1) U32_MAX u")
    note run = assms(3) [unfolded close_inherited_def Let_def Some option.case]
    show ?thesis
    proof (cases ok)
      case False
      then have "u = t" using close_range_False [OF first] by simp
      then show ?thesis
        using run first False K by (intro listed [of t]) (simp_all add: Some)
    next
      case True
      then have u: "u = (\<lambda>n. if 3 \<le> n \<and> n \<le> K - 1 then None else t n)"
        using close_range_True [OF first] by simp
      show ?thesis
      proof (cases ok')
        case False
        then have "u' = u" using close_range_False [OF second] by simp
        then have "(case inherited_fds keep entries of Err e \<Rightarrow> (u, Err e)
            | Ok fds \<Rightarrow> (\<lambda>n. if n \<in> set fds then None else u n, Ok ())) = (t', Ok ())"
          using run first second True False K top by (simp add: Some)
        then show ?thesis by (rule listed) (use K in \<open>auto simp: Some u\<close>)
      next
        case ok': True
        then have "t' = u'" using run first second True K top by simp
        then show ?thesis
          using close_range_True [OF second ok'] gone K by (auto simp: fun_eq_iff not_le u Some)
      qed
    qed
  qed
qed

theorem only_the_lock_is_inherited_witness:
  "fst (close_inherited (Some 4) (False, False) (Ok [Ok (fd_name 4), Ok (fd_name 5)])
     (\<lambda>n. if n = 4 \<or> n = 5 then Some (n, False) else None)) 5 = None"
proof -
  let ?t = "\<lambda>n::nat. if n = 4 \<or> n = 5 then Some (n, False) else None"
  let ?names = "[Ok (fd_name 4), Ok (fd_name 5)] :: (bytes, errno) res list"
  have "\<forall>n. ?t n \<noteq> None \<longrightarrow> n < 2 ^ 31 \<and> Ok (fd_name n) \<in> set ?names" by simp
  moreover have "case Some (4 :: int) of None \<Rightarrow> True | Some k \<Rightarrow> 2 < k \<and> k < 2 ^ 31" by simp
  moreover have "inherited_fds (Some 4) ?names = Ok [5]"
    using fd_name_read [of 4] fd_name_read [of 5] by (simp add: from_utf8_def)
  then have "close_inherited (Some 4) (False, False) (Ok ?names) ?t
      = (\<lambda>n. if n \<in> set [5] then None else ?t n, Ok ())"
    by (simp add: close_inherited_def close_range_def U32_MAX_def)
  ultimately show ?thesis
    using only_the_lock_is_inherited [of ?t ?names "Some 4" "(False, False)" "\<lambda>n. if n \<in> set [5] then None else ?t n"]
    by simp
qed

text \<open>
  The daemon ends up leading a session of its own with no terminal that could hang it up, as long as a failed
  \<open>/dev/tty\<close> that it takes for \<open>no terminal\<close> means one: \<open>setsid\<close> alone where that suffices, and one \<open>fork\<close> exactly
  where the process led its group and was not already a leader without a terminal.  It fails only where that fork
  does.
\<close>

theorem no_terminal_is_left:
  assumes "pr_terminal p \<Longrightarrow> has_controlling_terminal opened"
    and "case forked of Ok child \<Rightarrow> child \<noteq> pr_pgid p | Err _ \<Rightarrow> True"
  shows "case detach opened forked p of
      Ok (split_off, p') \<Rightarrow> \<not> pr_terminal p' \<and> pr_sid p' = pr_pid p' \<and>
        (split_off \<longleftrightarrow> pr_pid p = pr_pgid p \<and> (pr_sid p \<noteq> pr_pid p \<or> has_controlling_terminal opened)) \<and>
        (split_off \<or> pr_pid p' = pr_pid p)
    | Err e \<Rightarrow> forked = Err e"
  using assms by (auto simp: detach_def setsid_def split: res.splits)

theorem no_terminal_is_left_witness:
  "detach (Ok ()) (Ok 8) \<lparr>pr_pid = 7, pr_sid = 7, pr_pgid = 7, pr_terminal = True\<rparr>
     = Ok (True, \<lparr>pr_pid = 8, pr_sid = 8, pr_pgid = 8, pr_terminal = False\<rparr>) \<and>
   (case detach (Ok ()) (Ok 8) \<lparr>pr_pid = 7, pr_sid = 7, pr_pgid = 7, pr_terminal = True\<rparr> of
      Ok (_, p) \<Rightarrow> \<not> pr_terminal p | Err _ \<Rightarrow> False)"
  using no_terminal_is_left [of "\<lparr>pr_pid = 7, pr_sid = 7, pr_pgid = 7, pr_terminal = True\<rparr>" "Ok ()" "Ok 8"]
  by (simp add: detach_def setsid_def has_controlling_terminal_def)

end
