(* ===== verification/Handoff.thy ===== *)
theory Handoff
  imports Cmdline Startup
begin

text \<open>
  The daemon's launch from end to end: \<open>spawn_daemon\<close> of src/crates/nomux/src/attach.rs over the descriptors of the
  relay, through the fork and exec of exec.rs, to what the daemon of startup.rs keeps of them.
\<close>

text \<open>\<open>spawn_daemon\<close>'s work in the child: a session of its own, and the lock kept across the exec.\<close>

definition keep_lock :: "(unit, errno) res \<Rightarrow> nat \<Rightarrow> nat list \<Rightarrow> fdtable \<Rightarrow> (fdtable, errno) res" where
  "keep_lock new_session lock_fd stdio t =
     and_then new_session (\<lambda>_.
       case t lock_fd of None \<Rightarrow> Err EBADF | Some (f, _) \<Rightarrow> Ok (t(lock_fd \<mapsto> (f, False))))"

text \<open>
  The files behind what it opens: \<open>/dev/null\<close>, the complaint pipe's two ends, and the two ends of the exec's
  report.
\<close>

record launch_files =
  lf_null :: nat
  lf_complaint :: nat
  lf_diagnostics :: nat
  lf_report :: nat
  lf_failure :: nat

text \<open>
  \<open>spawn_daemon\<close> up to the fork: the program, what the child is to place and the descriptors it starts with;
  and the complaint's read end, the one descriptor the relay keeps.
\<close>

definition spawn_daemon ::
  "(bytes, errno) res \<Rightarrow> bytes \<Rightarrow> nat list option \<Rightarrow> nat \<Rightarrow> nat \<Rightarrow> launch_files \<Rightarrow> fdtable
     \<Rightarrow> (exec_program \<times> ready_fds \<times> nat \<times> fdtable, spawn_failure) res" where
  "spawn_daemon exe sid label lock_fd lim lf t =
     and_then (daemon_program exe sid label lock_fd) (\<lambda>program.
       case lowest_free lim 0 t of
         None \<Rightarrow> Err (SpawnErrno EMFILE)
       | Some null \<Rightarrow>
           (let t = t(null \<mapsto> (lf_null lf, True))
            in and_then (make_pipe lim (lf_complaint lf) (lf_diagnostics lf) t) (\<lambda>(complaint, diagnostics, t).
                 and_then (spawn_fds lim (lf_report lf) (lf_failure lf) null null diagnostics t) (\<lambda>(rf, t).
                   Ok (program, rf, complaint, t)))))"

lemma spawn_daemon_Ok:
  assumes "spawn_daemon exe sid label lock_fd lim lf t = Ok (program, rf, complaint, tp)"
  obtains null diagnostics t2 where "daemon_program exe sid label lock_fd = Ok program"
    "spawn_fds lim (lf_report lf) (lf_failure lf) null null diagnostics t2 = Ok (rf, tp)"
    "t2 null = Some (lf_null lf, True)" "t2 diagnostics = Some (lf_diagnostics lf, True)"
    "\<forall>n. t n \<noteq> None \<longrightarrow> t2 n = t n"
proof -
  obtain null where program: "daemon_program exe sid label lock_fd = Ok program"
    and null: "lowest_free lim 0 t = Some null"
    using assms by (auto simp: spawn_daemon_def and_then_eq_Ok split: option.splits)
  obtain diagnostics t2 where pipe:
    "make_pipe lim (lf_complaint lf) (lf_diagnostics lf) (t(null \<mapsto> (lf_null lf, True))) = Ok (complaint, diagnostics, t2)"
    and fds: "spawn_fds lim (lf_report lf) (lf_failure lf) null null diagnostics t2 = Ok (rf, tp)"
    using assms null by (auto simp: spawn_daemon_def and_then_eq_Ok Let_def)
  note p = make_pipe_Ok [OF pipe]
  have "t null = None" using lowest_free_Some [OF null] by simp
  moreover have "t2 null = Some (lf_null lf, True)" using p by (auto split: if_splits)
  moreover have "t2 diagnostics = Some (lf_diagnostics lf, True)" using p by simp
  moreover have "\<forall>n. t n \<noteq> None \<longrightarrow> t2 n = t n" using p \<open>t null = None\<close> by (auto split: if_splits)
  ultimately show thesis using that program fds by blast
qed

text \<open>
  C29. A daemon that \<open>spawn\<close> launched holds four descriptors and no others: \<open>/dev/null\<close> for its input and output,
  the complaint pipe for its errors, and the lock it was handed, open across the exec under the number its
  command line gives -- whatever else the relay had open, close-on-exec or not, wherever its free numbers were,
  and whether the host has \<open>close_range\<close> or only \<open>/proc\<close>.
\<close>

theorem daemon_holds_only_the_lock:
  assumes "spawn_daemon exe sid label lock_fd lim lf t = Ok (program, rf, complaint, tp)"
    and "t lock_fd = Some (lock, cloexec)" and "2 < lock_fd" and "lock_fd < 2 ^ 31"
    and "prepare (keep_lock new_session lock_fd) ans (rf_stdio rf) (pr_dir program) tp = Replaced child"
    and "\<forall>n. child n \<noteq> None \<longrightarrow> n < 2 ^ 31 \<and> Ok (fd_name n) \<in> set entries"
    and "close_inherited (Some (int lock_fd)) ranges (Ok entries) child = (daemon, Ok ())"
  shows "daemon = [0 \<mapsto> (lf_null lf, False), 1 \<mapsto> (lf_null lf, False), 2 \<mapsto> (lf_diagnostics lf, False),
    lock_fd \<mapsto> (lock, False)]"
proof -
  obtain null diagnostics t2 where fds:
    "spawn_fds lim (lf_report lf) (lf_failure lf) null null diagnostics t2 = Ok (rf, tp)"
    and t2: "t2 null = Some (lf_null lf, True)" "t2 diagnostics = Some (lf_diagnostics lf, True)"
    and old: "\<forall>n. t n \<noteq> None \<longrightarrow> t2 n = t n"
    using spawn_daemon_Ok [OF assms(1)] by metis
  obtain i o' d where rf: "rf_stdio rf = [i, o', d]"
    "\<forall>n \<in> {i, o', d, rf_report rf, rf_fail rf}. t2 n = None"
    "tp = t2(i \<mapsto> (lf_null lf, True), o' \<mapsto> (lf_null lf, True), d \<mapsto> (lf_diagnostics lf, True),
       rf_report rf \<mapsto> (lf_report lf, True), rf_fail rf \<mapsto> (lf_failure lf, True))"
    using spawn_fds_Ok [OF fds t2(1) t2(1) t2(2)] by metis
  have "t2 lock_fd = Some (lock, cloexec)" using old assms(2) by auto
  then have lock: "tp lock_fd = Some (lock, cloexec)" "lock_fd \<notin> set (rf_stdio rf)" using rf by auto
  define ts where "ts = tp(lock_fd \<mapsto> (lock, False))"
  have session: "is_ok new_session"
    using assms(5) by (cases new_session) (simp_all add: prepare_def keep_lock_def)
  then have in_child: "keep_lock new_session lock_fd (rf_stdio rf) tp = Ok ts"
    using lock(1) by (cases new_session) (simp_all add: keep_lock_def ts_def)
  have "\<forall>n \<in> set (rf_stdio rf). map_option fst (ts n) = map_option fst (tp n)"
    using lock(2) by (auto simp: ts_def)
  note child = child_gets_its_stdio [OF fds t2(1) t2(1) t2(2) in_child this assms(5)]
  have "child lock_fd = Some (lock, False)" using child assms(3) by (auto simp: ts_def)
  moreover have "daemon = (\<lambda>n. if n \<le> 2 \<or> int lock_fd = int n then child n else None)"
    using only_the_lock_is_inherited [OF assms(6) _ assms(7)] assms(3,4) by simp
  ultimately show ?thesis
    using child assms(3) by (auto simp: fun_eq_iff le_Suc_eq numeral_2_eq_2)
qed

text \<open>A relay that leaks descriptor 7 across execs, on a host without \<open>close_range\<close>.\<close>

theorem daemon_holds_only_the_lock_witness:
  "\<exists>program rf complaint tp child daemon.
     spawn_daemon (Ok (ascii ''/n'')) (ascii ''s'') None 4 20 \<lparr>lf_null = 60, lf_complaint = 61, lf_diagnostics = 62,
       lf_report = 63, lf_failure = 64\<rparr> [0 \<mapsto> (70, False), 1 \<mapsto> (70, False), 2 \<mapsto> (70, False), 4 \<mapsto> (74, True), 7 \<mapsto> (77, False)]
       = Ok (program, rf, complaint, tp) \<and>
     prepare (keep_lock (Ok ()) 4) \<lparr>ca_dups = [], ca_chdir = Ok (), ca_exec = None\<rparr> (rf_stdio rf) (pr_dir program) tp
       = Replaced child \<and>
     close_inherited (Some (int 4)) (False, False) (Ok (map (Ok \<circ> fd_name) [0, 1, 2, 4, 7])) child = (daemon, Ok ()) \<and>
     daemon = [0 \<mapsto> (60, False), 1 \<mapsto> (60, False), 2 \<mapsto> (62, False), 4 \<mapsto> (74, False)]"
proof -
  let ?lf = "\<lparr>lf_null = 60, lf_complaint = 61, lf_diagnostics = 62, lf_report = 63, lf_failure = 64\<rparr>"
  let ?t = "[0 \<mapsto> (70, False), 1 \<mapsto> (70, False), 2 \<mapsto> (70, False), 4 \<mapsto> (74, True), 7 \<mapsto> (77, False)] :: fdtable"
  let ?tp = "?t(3 \<mapsto> (60, True), 5 \<mapsto> (61, True), 6 \<mapsto> (62, True), 8 \<mapsto> (60, True), 9 \<mapsto> (60, True),
     10 \<mapsto> (62, True), 11 \<mapsto> (63, True), 13 \<mapsto> (64, True))"
  let ?rf = "\<lparr>rf_stdio = [8, 9, 10], rf_report = 11, rf_fail = 13\<rparr>"
  let ?ans = "\<lparr>ca_dups = [], ca_chdir = Ok (), ca_exec = None\<rparr>"
  let ?names = "map (Ok \<circ> fd_name) [0, 1, 2, 4, 7] :: (bytes, errno) res list"
  let ?child = "[0 \<mapsto> (60, False), 1 \<mapsto> (60, False), 2 \<mapsto> (62, False), 4 \<mapsto> (74, False), 7 \<mapsto> (77, False)] :: fdtable"
  have num: "map of_nat (show_nat 4) = ascii ''4''" by (subst show_nat.simps) (simp add: ascii_def)
  obtain program where program: "daemon_program (Ok (ascii ''/n'')) (ascii ''s'') None 4 = Ok program" "pr_dir program = None"
    unfolding daemon_program_def program_new_def program_arg_def nul_terminated_def num
    by (simp add: ascii_def)
  have launch: "spawn_daemon (Ok (ascii ''/n'')) (ascii ''s'') None 4 20 ?lf ?t = Ok (program, ?rf, 5, ?tp)"
    by (simp add: spawn_daemon_def program spawn_fds_def above_stdio_def make_pipe_def lowest_free_def upt_rec fun_eq_iff)
  have child: "prepare (keep_lock (Ok ()) 4) ?ans (rf_stdio ?rf) (pr_dir program) ?tp = Replaced ?child"
    by (simp add: prepare_def keep_lock_def program dup2_def fun_eq_iff)
  have "inherited_fds (Some 4) ?names = Ok [7]"
    using fd_name_read [of 0] fd_name_read [of 1] fd_name_read [of 2] fd_name_read [of 4] fd_name_read [of 7]
    by (simp add: from_utf8_def)
  then obtain daemon where daemon:
    "close_inherited (Some (int 4)) (False, False) (Ok ?names) ?child = (daemon, Ok ())"
    by (simp add: close_inherited_def close_range_def U32_MAX_def)
  have "daemon = [0 \<mapsto> (60, False), 1 \<mapsto> (60, False), 2 \<mapsto> (62, False), 4 \<mapsto> (74, False)]"
    using daemon_holds_only_the_lock [OF launch _ _ _ child _ daemon, of 74 True] by simp
  then show ?thesis using launch child daemon by blast
qed

end
