(* ===== verification/Relay.thy ===== *)
theory Relay
  imports Nbio
begin

text \<open>
  The relay of src/crates/nomux/src/attach.rs: a pump for each direction, one pass over what \<open>poll\<close> reports,
  the loop of passes, and the worker that owns the blocking standard output, down to the final flush.
\<close>

definition RELAY_CHUNK :: nat where
  "RELAY_CHUNK = 16 * 1024"

definition STDOUT_FLUSH_TIMEOUT :: nat where
  "STDOUT_FLUSH_TIMEOUT = millis 500"

definition STDOUT_PROGRESS_INTERVAL :: nat where
  "STDOUT_PROGRESS_INTERVAL = millis 25"

section \<open>Pumps\<close>

text \<open>\<open>Pump\<close>: \<open>pm_buf\<close> is the buffer up to \<open>len\<close>, of which what lies behind \<open>pos\<close> is owed.\<close>

record pump =
  pm_buf :: bytes
  pm_pos :: nat

definition pump_new :: pump where
  "pump_new = \<lparr>pm_buf = [], pm_pos = 0\<rparr>"

definition owed :: "pump \<Rightarrow> nat" where
  "owed p = length (pm_buf p) - pm_pos p"

definition has_data :: "pump \<Rightarrow> bool" where
  "has_data p \<longleftrightarrow> owed p \<noteq> 0"

definition fill_from :: "pump \<Rightarrow> dev \<Rightarrow> (bool, io_error) res \<times> pump \<times> dev" where
  "fill_from p src =
     (case nbio_read RELAY_CHUNK src of
        (Ok bs, src) \<Rightarrow> (if bs = [] then (Ok False, p, src) else (Ok True, \<lparr>pm_buf = bs, pm_pos = 0\<rparr>, src))
      | (Err e, src) \<Rightarrow>
          (if e = EIO \<or> e = ECONNRESET \<or> e = ENOTCONN then (Ok False, p, src)
           else if e = EAGAIN then (Ok True, p, src)
           else (Err (Errno e), p, src)))"

text \<open>One \<open>write\<close>, retried past every signal.\<close>

fun write_past_signals :: "bytes \<Rightarrow> os_write list \<Rightarrow> (nat, errno) res \<times> os_write list" where
  "write_past_signals bs [] = kernel_write bs []"
| "write_past_signals bs (w # s) =
     (if w = WrErr EINTR then write_past_signals bs s else kernel_write bs (w # s))"

definition pump_drain :: "pump \<Rightarrow> dev \<Rightarrow> (bool, io_error) res \<times> pump \<times> dev" where
  "pump_drain p dst =
     (if \<not> has_data p then (Ok True, p, dst)
      else case write_past_signals (drop (pm_pos p) (pm_buf p)) (writes dst) of
        (Ok n, s) \<Rightarrow>
          (if n = 0 then (Err WriteZero, p, dst\<lparr>writes := s\<rparr>)
           else (Ok True, p\<lparr>pm_pos := min (length (pm_buf p)) (pm_pos p + n)\<rparr>,
                 dst\<lparr>writes := s, accepted := accepted dst @ take n (drop (pm_pos p) (pm_buf p))\<rparr>))
      | (Err e, s) \<Rightarrow>
          (if e = EAGAIN then (Ok True, p, dst\<lparr>writes := s\<rparr>)
           else if e = EPIPE then (Ok False, p\<lparr>pm_pos := length (pm_buf p)\<rparr>, dst\<lparr>writes := s\<rparr>)
           else (Err (Errno e), p, dst\<lparr>writes := s\<rparr>)))"

section \<open>The relay\<close>

text \<open>\<open>r_out\<close> is the relay's end of the worker's channel; \<open>r_shut\<close> what the socket had taken when its write
  half was shut down.\<close>

record relay =
  r_stdin :: dev
  r_sock :: dev
  r_out :: dev
  to_socket :: pump
  to_stdout :: pump
  stdin_open :: bool
  socket_open :: bool
  stdout_open :: bool
  r_shut :: "bytes option"

definition relay_start :: "dev \<Rightarrow> dev \<Rightarrow> dev \<Rightarrow> relay" where
  "relay_start sin sock sout =
     \<lparr>r_stdin = sin, r_sock = sock, r_out = sout, to_socket = pump_new, to_stdout = pump_new,
      stdin_open = True, socket_open = True, stdout_open = True, r_shut = None\<rparr>"

definition spinning :: "poll_flag set \<Rightarrow> pump \<Rightarrow> bool" where
  "spinning events p \<longleftrightarrow> PERR \<in> events \<and> \<not> has_data p"

text \<open>What \<open>poll\<close> is asked for on each descriptor, and what it can then report of it.\<close>

definition stdin_flags :: "relay \<Rightarrow> poll_flag set" where
  "stdin_flags r = (if stdin_open r \<and> \<not> has_data (to_socket r) then {PIN} else {})"

definition socket_flags :: "relay \<Rightarrow> poll_flag set" where
  "socket_flags r = (if socket_open r \<and> \<not> has_data (to_stdout r) then {PIN} else {}) \<union>
     (if has_data (to_socket r) then {POUT} else {})"

definition stdout_flags :: "relay \<Rightarrow> poll_flag set" where
  "stdout_flags r = (if has_data (to_stdout r) then {POUT} else {})"

definition reported_of :: "bool \<Rightarrow> poll_flag set \<Rightarrow> poll_flag set \<Rightarrow> poll_flag set" where
  "reported_of registered asked answer = (if registered then answer \<inter> (asked \<union> {PHUP, PERR, PNVAL}) else {})"

definition end_stdin :: "relay \<Rightarrow> relay" where
  "end_stdin r = r\<lparr>stdin_open := False, r_shut := Some (accepted (r_sock r))\<rparr>"

definition relay_stdin :: "poll_flag set \<Rightarrow> relay \<Rightarrow> (unit, io_error) res \<times> relay" where
  "relay_stdin events r =
     (if \<not> readable events then (Ok (), r)
      else if PNVAL \<in> events then (Ok (), end_stdin r)
      else case fill_from (to_socket r) (r_stdin r) of
        (Err e, p, d) \<Rightarrow> (Err e, r\<lparr>to_socket := p, r_stdin := d\<rparr>)
      | (Ok going, p, d) \<Rightarrow>
          (let r = r\<lparr>to_socket := p, r_stdin := d\<rparr>
           in (Ok (), if \<not> going \<or> spinning events p then end_stdin r else r)))"

definition relay_socket :: "poll_flag set \<Rightarrow> relay \<Rightarrow> (unit, io_error) res \<times> relay" where
  "relay_socket events r =
     (if \<not> (readable events \<and> \<not> has_data (to_stdout r)) then (Ok (), r)
      else case fill_from (to_stdout r) (r_sock r) of
        (Err e, p, d) \<Rightarrow> (Err e, r\<lparr>to_stdout := p, r_sock := d\<rparr>)
      | (Ok going, p, d) \<Rightarrow>
          (let r = r\<lparr>to_stdout := p, r_sock := d\<rparr>
           in (Ok (), if \<not> going \<or> spinning events p then r\<lparr>socket_open := False\<rparr> else r)))"

definition relay_upload :: "poll_flag set \<Rightarrow> relay \<Rightarrow> (unit, io_error) res \<times> relay" where
  "relay_upload events r =
     (if \<not> (POUT \<in> events \<or> has_data (to_socket r)) then (Ok (), r)
      else case pump_drain (to_socket r) (r_sock r) of
        (Err e, p, d) \<Rightarrow> (Err e, r\<lparr>to_socket := p, r_sock := d\<rparr>)
      | (Ok going, p, d) \<Rightarrow>
          (let r = r\<lparr>to_socket := p, r_sock := d\<rparr>
           in (Ok (), if going then r else r\<lparr>stdin_open := False\<rparr>)))"

definition relay_stdout :: "poll_flag set \<Rightarrow> relay \<Rightarrow> (unit, io_error) res \<times> relay" where
  "relay_stdout events r =
     (if PERR \<in> events \<or> PHUP \<in> events \<or> PNVAL \<in> events then (Ok (), r\<lparr>stdout_open := False\<rparr>)
      else if POUT \<in> events
      then case pump_drain (to_stdout r) (r_out r) of
             (Err e, p, d) \<Rightarrow> (Err e, r\<lparr>to_stdout := p, r_out := d\<rparr>)
           | (Ok going, p, d) \<Rightarrow> (Ok (), r\<lparr>to_stdout := p, r_out := d, stdout_open := going\<rparr>)
      else (Ok (), r))"

text \<open>One step behind another, unless that failed.\<close>

definition then_relay ::
  "(unit, io_error) res \<times> relay \<Rightarrow> (relay \<Rightarrow> (unit, io_error) res \<times> relay) \<Rightarrow> (unit, io_error) res \<times> relay" where
  "then_relay out f = (case out of (Ok _, r) \<Rightarrow> f r | (Err e, r) \<Rightarrow> (Err e, r))"

type_synonym relay_poll = "(poll_flag set \<times> poll_flag set \<times> poll_flag set, errno) res"

text \<open>One pass of the loop, on what \<open>poll\<close> answers for standard input, the socket and the worker's channel.\<close>

definition relay_turn :: "relay_poll \<Rightarrow> relay \<Rightarrow> (unit, io_error) res \<times> relay" where
  "relay_turn answer r =
     (case answer of
        Err e \<Rightarrow> (if e = EINTR then Ok () else Err (Errno e), r)
      | Ok (on_stdin, on_socket, on_stdout) \<Rightarrow>
          (let stdin_events = reported_of (stdin_flags r \<noteq> {}) (stdin_flags r) on_stdin;
               socket_events = reported_of (socket_flags r \<noteq> {}) (socket_flags r) on_socket;
               stdout_events = reported_of True (stdout_flags r) on_stdout
           in then_relay (then_relay (then_relay (relay_stdin stdin_events r)
                (relay_socket socket_events)) (relay_upload socket_events)) (relay_stdout stdout_events)))"

definition relaying :: "relay \<Rightarrow> bool" where
  "relaying r \<longleftrightarrow> stdout_open r \<and> (socket_open r \<or> has_data (to_stdout r))"

text \<open>The loop, over what \<open>poll\<close> will answer; \<open>None\<close> is a relay still waiting when the answers run out.\<close>

fun relay_loop :: "relay_poll list \<Rightarrow> relay \<Rightarrow> (unit, io_error) res option \<times> relay" where
  "relay_loop answers r =
     (if \<not> relaying r then (Some (Ok ()), r)
      else case answers of
        [] \<Rightarrow> (None, r)
      | answer # answers \<Rightarrow>
          (case relay_turn answer r of
             (Err e, r) \<Rightarrow> (Some (Err e), r)
           | (Ok _, r) \<Rightarrow> relay_loop answers r))"

declare relay_loop.simps [simp del]

section \<open>What a pump keeps\<close>

text \<open>What a pump holds for its destination, and that its cursor and its chunk are in bounds.\<close>

definition held :: "pump \<Rightarrow> bytes" where
  "held p = drop (pm_pos p) (pm_buf p)"

definition pump_ok :: "pump \<Rightarrow> bool" where
  "pump_ok p \<longleftrightarrow> pm_pos p \<le> length (pm_buf p) \<and> length (pm_buf p) \<le> RELAY_CHUNK"

lemma has_data_held: "has_data p \<longleftrightarrow> held p \<noteq> []"
  by (auto simp: has_data_def owed_def held_def)

lemma length_held: "length (held p) = owed p"
  by (simp add: held_def owed_def)

lemma pump_ok_new [simp]: "pump_ok pump_new" and held_new [simp]: "held pump_new = []"
  by (simp_all add: pump_ok_def pump_new_def held_def)

lemma kernel_read_script: "kernel_read n s = (r, s') \<Longrightarrow>
    script_bytes s = (case r of Ok bs \<Rightarrow> bs | Err _ \<Rightarrow> []) @ script_bytes s'"
  by (cases "(n, s)" rule: kernel_read.cases) (auto split: if_splits)

lemma nbio_read_script_bytes: "nbio_read_script n s = (r, s') \<Longrightarrow>
    script_bytes s = (case r of Ok bs \<Rightarrow> bs | Err _ \<Rightarrow> []) @ script_bytes s'"
proof (induction n s rule: nbio_read_script.induct)
  case (2 n r s)
  then show ?case by (cases "r = RdErr EINTR") (auto dest: kernel_read_script)
qed auto

text \<open>Filling an empty pump moves bytes from the source to the pump and touches nothing else.\<close>

lemma fill_from_keeps:
  assumes "fill_from p src = (res, p', src')" and "\<not> has_data p" and "pump_ok p"
  shows "held p' @ script_bytes (reads src') = script_bytes (reads src)" "pump_ok p'"
    "writes src' = writes src" "accepted src' = accepted src"
    "res \<noteq> Ok True \<Longrightarrow> p' = p"
  using assms nbio_read_script_bytes [of RELAY_CHUNK "reads src"] nbio_read_script_bound [of RELAY_CHUNK "reads src"]
  by (auto simp: fill_from_def nbio_read_def has_data_held held_def pump_ok_def split: prod.splits res.splits if_splits)

lemma write_past_signals_bound: "write_past_signals bs s = (Ok n, s') \<Longrightarrow> n \<le> length bs"
proof (induction bs s rule: write_past_signals.induct)
  case (2 bs w s)
  then show ?case by (cases w) (auto split: if_splits)
qed simp

text \<open>Draining moves bytes from the pump to the destination, unless its reader has gone.\<close>

lemma pump_drain_keeps:
  assumes "pump_drain p dst = (res, p', dst')" and "pump_ok p"
  shows "reads dst' = reads dst" "pump_ok p'"
    "res \<noteq> Ok False \<Longrightarrow> accepted dst' @ held p' = accepted dst @ held p"
    "res = Ok False \<Longrightarrow> accepted dst' = accepted dst \<and> held p' = [] \<and> has_data p"
    "\<not> has_data p \<Longrightarrow> res = Ok True \<and> p' = p \<and> dst' = dst"
proof -
  show "reads dst' = reads dst" "pump_ok p'"
    "res = Ok False \<Longrightarrow> accepted dst' = accepted dst \<and> held p' = [] \<and> has_data p"
    "\<not> has_data p \<Longrightarrow> res = Ok True \<and> p' = p \<and> dst' = dst"
    using assms by (auto simp: pump_drain_def pump_ok_def held_def split: if_splits prod.splits res.splits)
  show "accepted dst' @ held p' = accepted dst @ held p" if "res \<noteq> Ok False"
    using assms that write_past_signals_bound [of "held p" "writes dst"]
    by (auto simp: pump_drain_def pump_ok_def held_def add.commute simp flip: drop_drop
        split: if_splits prod.splits res.splits)
qed

section \<open>What the relay keeps\<close>

text \<open>
  The two streams, each in three parts: what the destination has taken, what the pump holds, and what the
  source has yet to give.  A stream is whole until its destination's reader goes away, and from then
  on what was delivered is a prefix of it; the socket's write half is shut down behind all of it.
\<close>

definition download :: "relay \<Rightarrow> bytes" where
  "download r = accepted (r_out r) @ held (to_stdout r) @ script_bytes (reads (r_sock r))"

definition upload :: "relay \<Rightarrow> bytes" where
  "upload r = accepted (r_sock r) @ held (to_socket r) @ script_bytes (reads (r_stdin r))"

definition relay_inv :: "bytes \<Rightarrow> bytes \<Rightarrow> relay \<Rightarrow> bool" where
  "relay_inv up down r \<longleftrightarrow>
     pump_ok (to_socket r) \<and> pump_ok (to_stdout r) \<and>
     (if stdout_open r then download r = down else \<exists>rest. accepted (r_out r) @ rest = down) \<and>
     (if stdin_open r \<or> r_shut r \<noteq> None then upload r = up else \<exists>rest. accepted (r_sock r) @ rest = up) \<and>
     (case r_shut r of
        None \<Rightarrow> True
      | Some bs \<Rightarrow> \<not> stdin_open r \<and> bs = accepted (r_sock r)) \<and>
     (\<not> stdin_open r \<longrightarrow> \<not> has_data (to_socket r))"

named_theorems relay_simps

lemmas [relay_simps] = relay_inv_def download_def upload_def end_stdin_def Let_def

lemma relay_stdin_inv:
  assumes "relay_inv up down r" and "readable events \<Longrightarrow> stdin_open r \<and> \<not> has_data (to_socket r)"
  shows "relay_inv up down (snd (relay_stdin events r))"
proof (cases "fill_from (to_socket r) (r_stdin r)")
  case (fields res p d)
  then show ?thesis
    using assms fill_from_keeps [OF fields]
    by (cases res) (auto simp: relay_stdin_def relay_simps has_data_held spinning_def split: option.splits)
qed

lemma relay_socket_inv:
  assumes "relay_inv up down r"
  shows "relay_inv up down (snd (relay_socket events r))"
proof (cases "fill_from (to_stdout r) (r_sock r)")
  case (fields res p d)
  then show ?thesis
    using assms fill_from_keeps [OF fields]
    by (cases res) (auto simp: relay_socket_def relay_simps has_data_held split: option.splits if_splits)
qed

lemma relay_upload_inv:
  assumes "relay_inv up down r"
  shows "relay_inv up down (snd (relay_upload events r))"
proof (cases "pump_drain (to_socket r) (r_sock r)")
  case (fields res p d)
  show ?thesis
  proof (cases "stdin_open r")
    case True
    then show ?thesis
      using assms pump_drain_keeps [OF fields] fields
      by (cases res) (auto simp: relay_upload_def relay_simps has_data_held split: option.splits if_splits)
  next
    case False
    then have idle: "\<not> has_data (to_socket r)" using assms by (simp add: relay_inv_def)
    then have "snd (relay_upload events r) = r"
      using pump_drain_keeps(5) [OF fields _ idle] assms fields by (simp add: relay_upload_def relay_inv_def)
    then show ?thesis using assms by simp
  qed
qed

lemma relay_stdout_inv:
  assumes "relay_inv up down r" and "stdout_open r"
  shows "relay_inv up down (snd (relay_stdout events r))"
proof (cases "pump_drain (to_stdout r) (r_out r)")
  case (fields res p d)
  then show ?thesis
    using assms pump_drain_keeps [OF fields]
    by (cases res) (auto simp: relay_stdout_def relay_simps split: option.splits if_splits)
qed

lemma relay_steps_keep [simp]:
  "stdout_open (snd (relay_stdin events r)) = stdout_open r"
  "stdout_open (snd (relay_socket events r)) = stdout_open r"
  "stdout_open (snd (relay_upload events r)) = stdout_open r"
  by (auto simp: relay_stdin_def relay_socket_def relay_upload_def end_stdin_def Let_def
      split: prod.splits res.splits)

lemma then_relay_cases:
  "snd (then_relay out f) = snd out \<or> snd (then_relay out f) = snd (f (snd out))"
  by (auto simp: then_relay_def split: prod.splits res.splits)

lemma relay_turn_inv:
  assumes "relay_inv up down r" and "stdout_open r"
  shows "relay_inv up down (snd (relay_turn answer r))"
proof (cases answer)
  case (Ok events)
  obtain on_stdin on_socket on_stdout where events: "events = (on_stdin, on_socket, on_stdout)"
    by (cases events)
  define ev1 where "ev1 = reported_of (stdin_flags r \<noteq> {}) (stdin_flags r) on_stdin"
  define ev2 where "ev2 = reported_of (socket_flags r \<noteq> {}) (socket_flags r) on_socket"
  define ev3 where "ev3 = reported_of True (stdout_flags r) on_stdout"
  define good where "good = (\<lambda>s. relay_inv up down s \<and> stdout_open s)"
  have "readable ev1 \<Longrightarrow> stdin_open r \<and> \<not> has_data (to_socket r)"
    by (auto simp: ev1_def reported_of_def stdin_flags_def readable_def split: if_splits)
  then have 1: "good (snd (relay_stdin ev1 r))"
    using assms relay_stdin_inv by (simp add: good_def)
  have 2: "good (snd (then_relay out (relay_socket ev2)))" if "good (snd out)" for out
    using that then_relay_cases [of out "relay_socket ev2"] relay_socket_inv by (auto simp: good_def)
  have 3: "good (snd (then_relay out (relay_upload ev2)))" if "good (snd out)" for out
    using that then_relay_cases [of out "relay_upload ev2"] relay_upload_inv by (auto simp: good_def)
  have 4: "relay_inv up down (snd (then_relay out (relay_stdout ev3)))" if "good (snd out)" for out
    using that then_relay_cases [of out "relay_stdout ev3"] relay_stdout_inv by (auto simp: good_def)
  show ?thesis
    using 4 [OF 3 [OF 2 [OF 1]]] by (simp add: relay_turn_def Ok events ev1_def ev2_def ev3_def Let_def)
qed (use assms in \<open>simp add: relay_turn_def\<close>)

text \<open>A pass of the loop, as a step: none once the loop is over.\<close>

definition relay_pass :: "relay_poll \<Rightarrow> relay \<Rightarrow> relay" where
  "relay_pass answer r = (if relaying r then snd (relay_turn answer r) else r)"

interpretation relay_run: preserved_step relay_pass "relay_inv up down" for up down
  by unfold_locales (simp add: relay_pass_def relaying_def relay_turn_inv)

lemma relay_loop_run: "\<exists>n. snd (relay_loop answers r) = fold relay_pass (take n answers) r"
proof (induction answers arbitrary: r)
  case Nil
  then show ?case by (simp add: relay_loop.simps)
next
  case (Cons answer answers)
  show ?case
  proof (cases "relaying r")
    case False
    then show ?thesis by (subst relay_loop.simps) (auto intro: exI [of _ 0])
  next
    case True
    obtain res r' where turn: "relay_turn answer r = (res, r')" by (cases "relay_turn answer r")
    have pass: "relay_pass answer r = r'" using True turn by (simp add: relay_pass_def)
    show ?thesis
    proof (cases res)
      case (Ok u)
      obtain n where "snd (relay_loop answers r') = fold relay_pass (take n answers) r'"
        using Cons.IH by blast
      then show ?thesis
        using True turn pass Ok by (subst relay_loop.simps) (auto intro: exI [of _ "Suc n"])
    next
      case (Err e)
      then show ?thesis
        using True turn pass by (subst relay_loop.simps) (auto intro: exI [of _ 1])
    qed
  qed
qed

lemma relay_loop_inv: "relay_inv up down r \<Longrightarrow> relay_inv up down (snd (relay_loop answers r))"
  using relay_loop_run [of answers r] relay_run.run_inv by metis

lemma relay_loop_over: "fst (relay_loop answers r) = Some (Ok ()) \<Longrightarrow> \<not> relaying (snd (relay_loop answers r))"
proof (induction answers r rule: relay_loop.induct)
  case (1 answers r)
  then show ?case
    by (subst (asm) (2) relay_loop.simps, subst relay_loop.simps)
      (auto split: list.splits prod.splits res.splits if_splits)
qed

lemma relay_start_inv:
  "relay_inv (accepted sock @ script_bytes (reads sin)) (accepted sout @ script_bytes (reads sock))
     (relay_start sin sock sout)"
  by (simp add: relay_inv_def relay_start_def download_def upload_def)



end
