(* ===== verification/Stdout_Worker.thy ===== *)
theory Stdout_Worker
  imports Relay Exec
begin

text \<open>
  The other end of the relay's output, after \<open>StdoutWorker\<close> in src/crates/nomux/src/attach.rs: the thread that copies
  its channel to the inherited standard output, the status it reports, and the relay's wait for it.
\<close>

section \<open>The worker\<close>

text \<open>
  \<open>copy_channel_to_stdout\<close>.  Its channel is a blocking one, so the run of a worker whose channel has nothing more
  to give, or whose \<open>poll\<close>s have run out, is \<open>None\<close>: it is still waiting.
\<close>

record worker =
  w_chan :: dev
  w_out :: dev
  w_pump :: pump
  w_progress :: nat

definition worker_start :: "dev \<Rightarrow> dev \<Rightarrow> worker" where
  "worker_start chan out = \<lparr>w_chan = chan, w_out = out, w_pump = pump_new, w_progress = 0\<rparr>"

text \<open>One turn of the inner loop, on what \<open>poll\<close> answers for standard output.\<close>

definition worker_pass :: "(poll_flag set, errno) res \<Rightarrow> worker \<Rightarrow> (unit, io_error) res option \<times> worker" where
  "worker_pass answer w =
     (case answer of
        Err e \<Rightarrow> (if e = EINTR then None else Some (Err (Errno e)), w)
      | Ok events \<Rightarrow>
          (if PERR \<in> events \<or> PHUP \<in> events \<or> PNVAL \<in> events then (Some (Ok ()), w)
           else case (if POUT \<in> events then pump_drain (w_pump w) (w_out w) else (Ok True, w_pump w, w_out w)) of
             (Err e, p, d) \<Rightarrow> (Some (Err e), w\<lparr>w_pump := p, w_out := d\<rparr>)
           | (Ok going, p, d) \<Rightarrow>
               (if \<not> going then (Some (Ok ()), w\<lparr>w_pump := p, w_out := d\<rparr>)
                else (None, w\<lparr>w_pump := p, w_out := d,
                  w_progress := w_progress w + (if owed p < owed (w_pump w) then 1 else 0)\<rparr>))))"

fun read_weight :: "os_read list \<Rightarrow> nat" where
  "read_weight [] = 0"
| "read_weight (RdOk bs # s) = Suc (length bs) + read_weight s"
| "read_weight (RdErr e # s) = Suc (read_weight s)"

lemma kernel_read_weight: "0 < n \<Longrightarrow> s \<noteq> [] \<Longrightarrow> read_weight (snd (kernel_read n s)) < read_weight s"
  by (cases "(n, s)" rule: kernel_read.cases) auto

lemma nbio_read_script_weight:
  "0 < n \<Longrightarrow> s \<noteq> [] \<Longrightarrow> read_weight (snd (nbio_read_script n s)) < read_weight s"
proof (induction n s rule: nbio_read_script.induct)
  case (2 n r s)
  show ?case
  proof (cases "r = RdErr EINTR")
    case True
    then show ?thesis using 2 by (cases "s = []") (auto simp: less_Suc_eq)
  next
    case False
    then show ?thesis using kernel_read_weight [of n "r # s"] 2 by simp
  qed
qed simp

lemma fill_from_weight:
  "fill_from p src = (r, p', src') \<Longrightarrow> reads src \<noteq> [] \<Longrightarrow> read_weight (reads src') < read_weight (reads src)"
  using nbio_read_script_weight [of RELAY_CHUNK "reads src"]
  by (auto simp: fill_from_def nbio_read_def RELAY_CHUNK_def split: prod.splits res.splits if_splits)

function worker_run ::
  "(poll_flag set, errno) res list \<Rightarrow> worker \<Rightarrow> (unit, io_error) res option \<times> worker" where
  "worker_run answers w =
     (if has_data (w_pump w)
      then case answers of
             [] \<Rightarrow> (None, w)
           | answer # answers \<Rightarrow>
               (case worker_pass answer w of
                  (Some r, w) \<Rightarrow> (Some r, w)
                | (None, w) \<Rightarrow> worker_run answers w)
      else if reads (w_chan w) = [] then (None, w)
      else case fill_from (w_pump w) (w_chan w) of
             (Err e, p, d) \<Rightarrow> (Some (Err e), w\<lparr>w_pump := p, w_chan := d\<rparr>)
           | (Ok going, p, d) \<Rightarrow>
               (let w = w\<lparr>w_pump := p, w_chan := d\<rparr>
                in if going then worker_run answers w else (Some (Ok ()), w)))"
  by pat_completeness auto
termination
  by (relation "measures [\<lambda>(answers, w). length answers, \<lambda>(_, w). read_weight (reads (w_chan w))]")
    (auto dest: fill_from_weight [OF sym])

declare worker_run.simps [simp del]

text \<open>
  \<open>stdout_worker\<close>: the status it writes, of a failure's raw error number where it has a positive one.
  \<open>raw\<close> is the numbering of the host's errors.
\<close>

definition worker_status :: "(errno \<Rightarrow> int) \<Rightarrow> (unit, io_error) res \<Rightarrow> u32" where
  "worker_status raw r =
     of_int (case r of
        Ok _ \<Rightarrow> 0
      | Err (Errno e) \<Rightarrow> if 0 < raw e then raw e else - 1
      | Err _ \<Rightarrow> - 1)"

section \<open>The final flush\<close>

text \<open>
  \<open>finish\<close>.  A pass sets the timeout of its read, to what is left of the window and at most an interval,
  reads into what is left of the status, and looks at the
  worker's count.  Besides the answer the run reports the readings of the clock at which it saw the
  worker move, the first of them its start.
\<close>

record flush_pass =
  fp_limit :: "nat \<Rightarrow> (unit, errno) res"
  fp_read :: os_read
  fp_progress :: nat

datatype flush_failure = FlushTimedOut | FlushEof | FlushErrno errno | FlushStatus int | FlushWorker

definition flush_read :: "nat \<Rightarrow> bytes \<Rightarrow> flush_pass \<Rightarrow> (bytes, flush_failure) res" where
  "flush_read limit status pass =
     (case fp_limit pass limit of
        Err e \<Rightarrow> Err (FlushErrno e)
      | Ok _ \<Rightarrow>
          (case fp_read pass of
             RdOk bs \<Rightarrow> (if bs = [] then Err FlushEof else Ok (take (4 - length status) bs))
           | RdErr e \<Rightarrow> (if e = ETIMEDOUT \<or> e = EAGAIN \<or> e = EINTR then Ok [] else Err (FlushErrno e))))"

fun finish_loop ::
  "nat \<Rightarrow> nat \<Rightarrow> bytes \<Rightarrow> flush_pass list \<Rightarrow> clock \<Rightarrow> (bytes, flush_failure) res option \<times> nat list \<times> clock" where
  "finish_loop window seen status passes ck =
     (if 4 \<le> length status then (Some (Ok status), [], ck)
      else case clock_now ck of (now, ck) \<Rightarrow>
        (if window - now = 0 then (Some (Err FlushTimedOut), [], ck)
         else case passes of
           [] \<Rightarrow> (None, [], ck)
         | pass # passes \<Rightarrow>
             (case flush_read (min (window - now) STDOUT_PROGRESS_INTERVAL) status pass of
                Err e \<Rightarrow> (Some (Err e), [], ck)
              | Ok got \<Rightarrow>
                  (if got \<noteq> [] \<or> fp_progress pass \<noteq> seen
                   then case clock_now ck of (moved, ck) \<Rightarrow>
                     (case finish_loop (moved + STDOUT_FLUSH_TIMEOUT) (fp_progress pass) (status @ got) passes ck of
                        (r, moves, ck) \<Rightarrow> (r, moved # moves, ck))
                   else finish_loop window seen (status @ got) passes ck))))"

declare finish_loop.simps [simp del]

definition finish_status :: "bytes \<Rightarrow> (unit, flush_failure) res" where
  "finish_status status =
     (let error = sint (from_ne_bytes status)
      in if error = 0 then Ok () else if 0 < error then Err (FlushStatus error) else Err FlushWorker)"

definition finish ::
  "(unit, errno) res \<Rightarrow> nat \<Rightarrow> flush_pass list \<Rightarrow> clock \<Rightarrow> (unit, flush_failure) res option \<times> nat list \<times> clock" where
  "finish blocking progress passes ck =
     (case blocking of
        Err e \<Rightarrow> (Some (Err (FlushErrno e)), [], ck)
      | Ok _ \<Rightarrow>
          (case clock_now ck of (now, ck) \<Rightarrow>
             case finish_loop (now + STDOUT_FLUSH_TIMEOUT) progress [] passes ck of
               (r, moves, ck) \<Rightarrow>
                 (map_option (\<lambda>r. and_then r finish_status) r, now # moves, ck)))"

section \<open>What the worker copies\<close>

text \<open>A standard output that never goes away: no \<open>poll\<close> reports it gone, no write is refused with \<open>EPIPE\<close>.\<close>

definition stays :: "(poll_flag set, errno) res list \<Rightarrow> worker \<Rightarrow> bool" where
  "stays answers w \<longleftrightarrow>
     list_all (\<lambda>a. case a of Ok ev \<Rightarrow> PERR \<notin> ev \<and> PHUP \<notin> ev \<and> PNVAL \<notin> ev | Err _ \<Rightarrow> True) answers \<and>
     WrErr EPIPE \<notin> set (writes (w_out w))"

definition to_copy :: "worker \<Rightarrow> bytes" where
  "to_copy w = accepted (w_out w) @ held (w_pump w) @ script_bytes (reads (w_chan w))"

text \<open>What one run, or one pass of it, makes of a worker; \<open>fine\<close> says that its standard output stayed.\<close>

definition copies :: "bool \<Rightarrow> worker \<Rightarrow> worker \<Rightarrow> bool" where
  "copies fine w w' \<longleftrightarrow>
     pump_ok (w_pump w') \<and> (\<exists>rest. accepted (w_out w') @ rest = to_copy w) \<and>
     (\<exists>out. accepted (w_out w') = accepted (w_out w) @ out \<and>
        w_progress w \<le> w_progress w' \<and> (w_progress w' = w_progress w \<longleftrightarrow> out = [])) \<and>
     (fine \<longrightarrow> to_copy w' = to_copy w \<and> set (writes (w_out w')) \<subseteq> set (writes (w_out w)))"

lemma copies_refl: "pump_ok (w_pump w) \<Longrightarrow> copies fine w w"
  by (auto simp: copies_def to_copy_def)

lemma copies_trans:
  assumes "copies True w w'" and "copies fine w' w''"
  shows "copies fine w w''"
  using assms unfolding copies_def by auto

lemma kernel_write_script: "set (snd (kernel_write bs s)) \<subseteq> set s"
  by (cases "(bs, s)" rule: kernel_write.cases) auto

lemma write_past_signals_script: "set (snd (write_past_signals bs s)) \<subseteq> set s"
proof (induction bs s rule: write_past_signals.induct)
  case (2 bs w s)
  then show ?case using kernel_write_script [of bs "w # s"] by (auto split: if_splits)
qed simp

lemma write_past_signals_err: "write_past_signals bs s = (Err e, s') \<Longrightarrow> e = EAGAIN \<or> WrErr e \<in> set s"
proof (induction bs s rule: write_past_signals.induct)
  case (2 bs w s)
  then show ?case by (cases w) (auto split: if_splits)
qed simp

lemma pump_drain_script:
  assumes "pump_drain p dst = (res, p', dst')"
  shows "set (writes dst') \<subseteq> set (writes dst)" "res = Ok False \<Longrightarrow> WrErr EPIPE \<in> set (writes dst)"
    "res = Ok True \<Longrightarrow> owed p' < owed p \<longleftrightarrow> accepted dst' \<noteq> accepted dst"
    "res \<noteq> Ok True \<Longrightarrow> accepted dst' = accepted dst"
    "\<exists>out. accepted dst' = accepted dst @ out"
proof -
  obtain r s where w: "write_past_signals (held p) (writes dst) = (r, s)"
    by (cases "write_past_signals (held p) (writes dst)")
  note facts = write_past_signals_script [of "held p" "writes dst", unfolded w snd_conv]
  have out: "(res, p', dst') = pump_drain p dst" using assms by simp
  note step = out [unfolded pump_drain_def, folded held_def, unfolded w prod.case]
  show "set (writes dst') \<subseteq> set (writes dst)"
    using step facts by (auto split: res.splits if_splits)
  show "WrErr EPIPE \<in> set (writes dst)" if "res = Ok False"
    using that step w write_past_signals_err [of "held p" "writes dst"] by (auto split: res.splits if_splits)
  show "accepted dst' = accepted dst" if "res \<noteq> Ok True"
    using that step by (auto split: res.splits if_splits)
  show "\<exists>out. accepted dst' = accepted dst @ out"
    using step by (auto split: res.splits if_splits)
  show "owed p' < owed p \<longleftrightarrow> accepted dst' \<noteq> accepted dst" if "res = Ok True"
  proof (cases "has_data p \<and> (\<exists>n. r = Ok n)")
    case True
    then obtain n where "r = Ok n" by blast
    then show ?thesis
      using that step True write_past_signals_bound [of "held p" "writes dst"] w
      by (auto simp: owed_def has_data_def held_def min_def split: if_splits)
  next
    case False
    then show ?thesis using that step by (auto split: res.splits if_splits)
  qed
qed

lemma worker_pass_cases:
  assumes "worker_pass answer w = (res, w')"
  obtains (idle) "w' = w" "res = Some (Ok ()) \<Longrightarrow> \<not> stays [answer] w"
  | (drain) r p d where "pump_drain (w_pump w) (w_out w) = (r, p, d)"
      "w' = w\<lparr>w_pump := p, w_out := d,
         w_progress := w_progress w + (if r = Ok True \<and> owed p < owed (w_pump w) then 1 else 0)\<rparr>"
      "res = None \<longleftrightarrow> r = Ok True" "res = Some (Ok ()) \<longleftrightarrow> r = Ok False"
proof (cases answer)
  case (Err e)
  then show thesis using assms by (intro idle) (auto simp: worker_pass_def split: if_splits)
next
  case (Ok events)
  show thesis
  proof (cases "PERR \<in> events \<or> PHUP \<in> events \<or> PNVAL \<in> events \<or> POUT \<notin> events")
    case True
    then show thesis
      using assms Ok by (intro idle) (auto simp: worker_pass_def stays_def split: if_splits)
  next
    case False
    obtain r p d where r: "pump_drain (w_pump w) (w_out w) = (r, p, d)"
      by (cases "pump_drain (w_pump w) (w_out w)")
    then have "(res, w') = (case r of Err e \<Rightarrow> (Some (Err e), w\<lparr>w_pump := p, w_out := d\<rparr>)
        | Ok going \<Rightarrow> (if \<not> going then (Some (Ok ()), w\<lparr>w_pump := p, w_out := d\<rparr>)
            else (None, w\<lparr>w_pump := p, w_out := d,
              w_progress := w_progress w + (if owed p < owed (w_pump w) then 1 else 0)\<rparr>)))"
      using assms Ok False by (simp add: worker_pass_def cong: res.case_cong)
    then show thesis by (intro drain [OF r]) (cases r; auto split: if_splits)+
  qed
qed

lemma worker_pass_copies:
  assumes "worker_pass answer w = (res, w')" and ok: "pump_ok (w_pump w)"
  shows "copies (stays [answer] w) w w'" "w_chan w' = w_chan w" "res = None \<Longrightarrow> copies True w w'"
    "res = Some (Ok ()) \<Longrightarrow> \<not> stays [answer] w"
proof -
  have "copies (stays [answer] w) w w' \<and> w_chan w' = w_chan w \<and> (res = None \<longrightarrow> copies True w w') \<and>
      (res = Some (Ok ()) \<longrightarrow> \<not> stays [answer] w)"
    using assms(1)
  proof (cases rule: worker_pass_cases)
    case idle
    then show ?thesis using copies_refl ok by auto
  next
    case (drain r p d)
    note keeps = pump_drain_keeps [OF drain(1) ok]
    note script = pump_drain_script [OF drain(1)]
    obtain out where out: "accepted d = accepted (w_out w) @ out" using script(5) by blast
    have gone: "\<not> stays [answer] w" if "r = Ok False"
      using script(2) [OF that] by (simp add: stays_def)
    show ?thesis
    proof (cases "r = Ok False")
      case True
      then have "out = []" "held p = []" using keeps(4) out by auto
      then show ?thesis
        using True gone keeps(2) out drain by (auto simp: copies_def to_copy_def)
    next
      case False
      have "accepted d @ held p = accepted (w_out w) @ held (w_pump w)" by (rule keeps(3) [OF False])
      then have whole: "to_copy w' = to_copy w"
        by (simp add: to_copy_def drain(2) append_assoc [symmetric] del: append_assoc)
      moreover have "accepted d @ held p @ script_bytes (reads (w_chan w)) = to_copy w'"
        by (simp add: to_copy_def drain(2))
      ultimately have part: "\<exists>rest. accepted d @ rest = to_copy w" by metis
      have "w_progress w' = w_progress w + (if out = [] then 0 else 1)"
        using script(3,4) out by (cases "r = Ok True") (auto simp: drain(2))
      then have "copies True w w'"
        using whole part keeps(2) script(1) out by (auto simp: copies_def drain(2))
      then show ?thesis using False drain by (auto simp: copies_def)
    qed
  qed
  then show "copies (stays [answer] w) w w'" "w_chan w' = w_chan w" "res = None \<Longrightarrow> copies True w w'"
    "res = Some (Ok ()) \<Longrightarrow> \<not> stays [answer] w" by simp_all
qed

lemma stays_Cons: "stays (a # answers) w \<longleftrightarrow> stays [a] w \<and> stays answers w"
  by (auto simp: stays_def)

lemma copies_stays: "copies True w w' \<Longrightarrow> stays answers w \<Longrightarrow> stays answers w'"
  by (auto simp: copies_def stays_def)

lemma worker_run_copies:
  "pump_ok (w_pump w) \<Longrightarrow> worker_run answers w = (res, w') \<Longrightarrow>
     copies (stays answers w) w w' \<and>
     (res = Some (Ok ()) \<and> stays answers w \<longrightarrow> \<not> has_data (w_pump w'))"
proof (induction answers w arbitrary: res w' rule: worker_run.induct)
  case (1 answers w)
  show ?case
  proof (cases "has_data (w_pump w)")
    case True
    show ?thesis
    proof (cases answers)
      case Nil
      then have "res = None" "w' = w"
        using "1.prems"(2) True by (auto simp: worker_run.simps [of "[]" w])
      then show ?thesis using copies_refl [OF "1.prems"(1)] by simp
    next
      case (Cons answer more)
      obtain r w1 where pass: "worker_pass answer w = (r, w1)" by (cases "worker_pass answer w")
      note p = worker_pass_copies [OF pass "1.prems"(1)]
      show ?thesis
      proof (cases r)
        case None
        have "worker_run more w1 = (res, w')"
          using "1.prems"(2) True pass None unfolding Cons by (simp add: worker_run.simps [of "answer # more" w])
        moreover have step: "copies True w w1" using p(3) None by simp
        ultimately have run: "copies (stays more w1) w1 w' \<and>
            (res = Some (Ok ()) \<and> stays more w1 \<longrightarrow> \<not> has_data (w_pump w'))"
          using "1.IH"(1) [OF True Cons pass [symmetric] None] by (simp add: copies_def)
        have "copies (stays more w1) w w'" by (rule copies_trans [OF step]) (use run in simp)
        then show ?thesis
          using run copies_stays [OF step, of more] unfolding Cons stays_Cons [of answer more]
          by (auto simp: copies_def)
      next
        case (Some r')
        then have "res = r" "w' = w1"
          using "1.prems"(2) True pass Some unfolding Cons by (auto simp: worker_run.simps [of "answer # more" w])
        then show ?thesis
          using p unfolding Cons stays_Cons [of answer more] by (auto simp: copies_def)
      qed
    qed
  next
    case empty: False
    show ?thesis
    proof (cases "reads (w_chan w) = []")
      case True
      then show ?thesis
        using 1 empty copies_refl by (auto simp: worker_run.simps [of answers w])
    next
      case False
      obtain r p d where fill: "fill_from (w_pump w) (w_chan w) = (r, p, d)"
        by (cases "fill_from (w_pump w) (w_chan w)")
      note keeps = fill_from_keeps [OF fill empty "1.prems"(1)]
      define w1 where "w1 = w\<lparr>w_pump := p, w_chan := d\<rparr>"
      have step: "copies True w w1"
        using keeps(1,2) empty by (auto simp: copies_def to_copy_def w1_def has_data_held)
      have run: "worker_run answers w = (case r of Err e \<Rightarrow> (Some (Err e), w1)
          | Ok going \<Rightarrow> if going then worker_run answers w1 else (Some (Ok ()), w1))"
        using empty False fill by (cases r) (simp_all add: worker_run.simps [of answers w] w1_def Let_def)
      show ?thesis
      proof (cases "r = Ok True")
        case True
        then have "worker_run answers w1 = (res, w')" using run "1.prems"(2) by simp
        moreover have "pump_ok (w_pump w1)" using step by (simp add: copies_def)
        ultimately have rest: "copies (stays answers w1) w1 w' \<and>
            (res = Some (Ok ()) \<and> stays answers w1 \<longrightarrow> \<not> has_data (w_pump w'))"
          using "1.IH"(2) [OF empty False fill [symmetric] True refl w1_def TrueI] by simp
        have "copies (stays answers w1) w w'" by (rule copies_trans [OF step]) (use rest in simp)
        then show ?thesis using rest copies_stays [OF step, of answers] by (auto simp: copies_def)
      next
        case False
        then have "w' = w1" using run "1.prems"(2) by (cases r) auto
        moreover have "\<not> has_data (w_pump w1)" using keeps(5) False empty by (simp add: w1_def)
        ultimately show ?thesis using step by (auto simp: copies_def)
      qed
    qed
  qed
qed


section \<open>What the flush concludes\<close>

text \<open>The status a worker reports is read back as what it did.\<close>

lemma status_reads_back:
  assumes "\<forall>e. raw e < 2 ^ 31"
  shows "finish_status (ne_bytes (worker_status raw r)) =
    (case r of
       Ok _ \<Rightarrow> Ok ()
     | Err (Errno e) \<Rightarrow> if 0 < raw e then Err (FlushStatus (raw e)) else Err FlushWorker
     | Err _ \<Rightarrow> Err FlushWorker)"
  using assms
  by (auto simp: finish_status_def worker_status_def ne_bytes_back Let_def sint_sbintrunc' signed_take_bit_int_eq_self
      split: res.split io_error.split)

text \<open>The pieces of the status a run of passes reads, and a pass that saw no sign of life.\<close>

definition status_piece :: "flush_pass \<Rightarrow> bytes" where
  "status_piece pass = (case fp_read pass of RdOk bs \<Rightarrow> bs | RdErr _ \<Rightarrow> [])"

text \<open>How many of a run of passes saw the worker move: it wrote to its channel, or its count had changed.\<close>

fun stirs :: "nat \<Rightarrow> flush_pass list \<Rightarrow> nat" where
  "stirs seen [] = 0"
| "stirs seen (pass # passes) =
     (if status_piece pass \<noteq> [] \<or> fp_progress pass \<noteq> seen then 1 else 0) + stirs (fp_progress pass) passes"

lemma flush_read_Ok:
  assumes "flush_read limit status pass = Ok got" and "length status < 4"
  shows "got = take (4 - length status) (status_piece pass)" "got = [] \<longleftrightarrow> status_piece pass = []"
  using assms by (auto simp: flush_read_def status_piece_def split: res.splits os_read.splits if_splits)

lemma flush_read_not_timed_out [simp]: "flush_read limit status pass \<noteq> Err FlushTimedOut"
  by (auto simp: flush_read_def split: res.splits os_read.splits)

text \<open>One turn of the loop whose read had something to say, and what comes of the rest.\<close>

lemma finish_loop_turn:
  assumes "finish_loop window seen status passes ck = (r, moves, ck')"
  obtains (over) "4 \<le> length status" "r = Some (Ok status)" "moves = []" "ck' = ck"
  | (timed_out) "window \<le> fst ck'" "r = Some (Err FlushTimedOut)" "moves = []" "fst ck \<le> fst ck'"
  | (stopped) "r = None \<or> (\<exists>pass e limit. flush_read limit status pass = Err e \<and> r = Some (Err e))" "moves = []" "fst ck \<le> fst ck'"
  | (moved) pass more got now moves1 ck1 limit where "passes = pass # more" "length status < 4"
      "flush_read limit status pass = Ok got" "got \<noteq> [] \<or> fp_progress pass \<noteq> seen" "fst ck \<le> now" "fst ck1 = now"
      "finish_loop (now + STDOUT_FLUSH_TIMEOUT) (fp_progress pass) (status @ got) more ck1 = (r, moves1, ck')"
      "moves = now # moves1"
  | (still) pass more ck1 limit where "passes = pass # more" "length status < 4"
      "flush_read limit status pass = Ok []" "fp_progress pass = seen" "fst ck \<le> fst ck1"
      "finish_loop window seen status more ck1 = (r, moves, ck')"
proof (cases "4 \<le> length status")
  case True
  then show thesis using assms by (intro over) (auto simp: finish_loop.simps [of window seen status])
next
  case False
  obtain now ck1 where now: "clock_now ck = (now, ck1)" by (cases "clock_now ck")
  obtain later ck2 where later: "clock_now ck1 = (later, ck2)" by (cases "clock_now ck1")
  note mono = clock_now_mono [OF now] clock_now_mono [OF later]
  note run = assms [unfolded finish_loop.simps [of window seen status passes], unfolded now prod.case]
  show thesis
  proof (cases "window - now = 0")
    case True
    then show thesis using run False mono by (intro timed_out) auto
  next
    case waiting: False
    show thesis
    proof (cases passes)
      case Nil
      then show thesis using run False waiting mono by (intro stopped) auto
    next
      case (Cons pass more)
      let ?limit = "min (window - now) STDOUT_PROGRESS_INTERVAL"
      show thesis
      proof (cases "flush_read ?limit status pass")
        case (Err e)
        then show thesis using run False waiting mono Cons by (intro stopped) auto
      next
        case (Ok got)
        show thesis
        proof (cases "got \<noteq> [] \<or> fp_progress pass \<noteq> seen")
          case True
          obtain r1 moves1 ck3 where rest: "finish_loop (later + STDOUT_FLUSH_TIMEOUT) (fp_progress pass)
              (status @ got) more ck2 = (r1, moves1, ck3)"
            by (metis prod_cases3)
          have "r1 = r \<and> moves = later # moves1 \<and> ck3 = ck'"
            using run False waiting Cons Ok True later rest by simp
          then show thesis using moved [OF Cons _ Ok True, of later ck2 moves1] False mono rest by simp
        next
          case quiet: False
          then show thesis using run False waiting Cons Ok mono by (intro still [OF Cons, of ?limit ck1]) auto
        qed
      qed
    qed
  qed
qed

lemma finish_loop_read:
  "length status \<le> 4 \<Longrightarrow> finish_loop window seen status passes ck = (Some (Ok bs), moves, ck') \<Longrightarrow>
     length bs = 4 \<and> take 4 (status @ concat (map status_piece passes)) = bs"
proof (induction passes arbitrary: window seen status ck moves)
  case Nil
  from Nil.prems(2) show ?case by (cases rule: finish_loop_turn) (use Nil.prems(1) in auto)
next
  case (Cons pass passes)
  from Cons.prems(2) show ?case
  proof (cases rule: finish_loop_turn)
    case (moved pass' more got now moves1 ck1 limit)
    then have got: "got = take (4 - length status) (status_piece pass)" using flush_read_Ok(1) [OF moved(3,2)] by simp
    have "length (status @ got) \<le> 4" using Cons.prems(1) by (simp add: got)
    moreover have "finish_loop (now + STDOUT_FLUSH_TIMEOUT) (fp_progress pass) (status @ got) passes ck1
        = (Some (Ok bs), moves1, ck')" using moved by simp
    ultimately have "length bs = 4 \<and> take 4 ((status @ got) @ concat (map status_piece passes)) = bs"
      by (rule Cons.IH)
    then show ?thesis using moved(2) by (cases "length (status_piece pass) \<le> 4 - length status") (auto simp: got)
  next
    case (still pass' more ck1 limit)
    then have "status_piece pass = []" using flush_read_Ok(2) [OF still(3,2)] by simp
    then show ?thesis using Cons.IH [of status window seen ck1 moves] Cons.prems(1) still by simp
  qed (use Cons.prems(1) in auto)
qed

lemma finish_loop_moves:
  "finish_loop window seen status passes ck = (r, moves, ck') \<Longrightarrow>
     fst ck \<le> fst ck' \<and> list_all (\<lambda>t. fst ck \<le> t) moves \<and>
     (\<exists>consumed rest. passes = consumed @ rest \<and> length moves = stirs seen consumed) \<and>
     (r = Some (Err FlushTimedOut) \<longrightarrow>
        (moves = [] \<longrightarrow> window \<le> fst ck') \<and> list_all (\<lambda>t. t + STDOUT_FLUSH_TIMEOUT \<le> fst ck') moves)"
proof (induction passes arbitrary: window seen status ck moves)
  case Nil
  have none: "\<exists>consumed rest. [] = consumed @ rest \<and> 0 = stirs seen consumed"
    by (intro exI [of _ "[]"]) simp
  from Nil.prems show ?case
  proof (cases rule: finish_loop_turn)
    case stopped
    then have "r \<noteq> Some (Err FlushTimedOut)" by auto
    then show ?thesis using none stopped by simp
  qed (use none in simp_all)
next
  case (Cons pass passes)
  have none: "\<exists>consumed rest. pass # passes = consumed @ rest \<and> 0 = stirs seen consumed"
    by (rule exI [of _ "[]"], rule exI [of _ "pass # passes"]) simp
  from Cons.prems show ?case
  proof (cases rule: finish_loop_turn)
    case (moved pass' more got now moves1 ck1 limit)
    have "finish_loop (now + STDOUT_FLUSH_TIMEOUT) (fp_progress pass) (status @ got) passes ck1 = (r, moves1, ck')"
      using moved by simp
    note rest = Cons.IH [OF this]
    then obtain consumed tail where passes: "passes = consumed @ tail" "length moves1 = stirs (fp_progress pass) consumed"
      by blast
    have "status_piece pass \<noteq> [] \<or> fp_progress pass \<noteq> seen"
      using moved flush_read_Ok(2) [OF moved(3,2)] by auto
    then have "\<exists>consumed rest. pass # passes = consumed @ rest \<and> length moves = stirs seen consumed"
      using passes moved(8) by (intro exI [of _ "pass # consumed"] exI [of _ tail]) auto
    moreover have "now + STDOUT_FLUSH_TIMEOUT \<le> fst ck'" if "r = Some (Err FlushTimedOut)"
      using rest that by (cases moves1) (auto simp: moved(6))
    ultimately show ?thesis using rest moved by (auto simp: list_all_iff)
  next
    case (still pass' more ck1 limit)
    have "finish_loop window seen status passes ck1 = (r, moves, ck')" using still by simp
    note rest = Cons.IH [OF this]
    then obtain consumed tail where passes: "passes = consumed @ tail" "length moves = stirs seen consumed" by blast
    have "status_piece pass = []" "fp_progress pass = seen"
      using still flush_read_Ok(2) [OF still(3,2)] by simp_all
    then have "\<exists>consumed rest. pass # passes = consumed @ rest \<and> length moves = stirs seen consumed"
      using passes by (intro exI [of _ "pass # consumed"] exI [of _ tail]) simp
    then show ?thesis using rest still by (auto simp: list_all_iff)
  qed (use none in auto)
qed

lemma finish_status_Ok: "length bs = 4 \<Longrightarrow> finish_status bs = Ok () \<Longrightarrow> bs = [0, 0, 0, 0]"
proof -
  assume "length bs = 4" and "finish_status bs = Ok ()"
  then have "from_ne_bytes bs = 0"
    by (auto simp: finish_status_def Let_def intro: signed_word_eqI split: if_splits)
  moreover have "ne_bytes (from_ne_bytes bs) = bs"
    using \<open>length bs = 4\<close> by (simp add: ne_bytes_def from_ne_bytes_def word_be_be_word)
  ultimately have "bs = ne_bytes 0" by simp
  also have "\<dots> = [0, 0, 0, 0]"
  proof -
    have "4 = Suc (Suc (Suc (Suc 0)))" by simp
    then have "word_be 4 (0 :: u32) = nat_be (Suc (Suc (Suc (Suc 0)))) 0" by (simp only: word_be_def) simp
    then show ?thesis by (simp add: ne_bytes_def)
  qed
  finally show "bs = [0, 0, 0, 0]" .
qed


end
