(* ===== verification/Modes.thy ===== *)
theory Modes
  imports Attach Cli Stdout_Worker
begin

text \<open>
  The two relay modes end to end: \<open>run\<close> and \<open>relay\<close> of src/crates/nomux/src/attach.rs over the parts modelled
  apart, and the report main.rs makes of them, its machine-readable record and its exit status.
\<close>

section \<open>\<open>relay\<close> as a whole\<close>

datatype relay_failure = RelaySystem errno | RelayMoving io_error | RelayFlushing flush_failure

text \<open>
  What \<open>relay\<close> meets: whether the socket and the worker could be had, what each \<open>poll\<close> answers, and the
  final flush.
\<close>

record relay_answers =
  ra_nonblocking :: "(unit, errno) res"
  ra_worker :: "(unit, errno) res"
  ra_polls :: "relay_poll list"
  ra_blocking :: "(unit, errno) res"
  ra_progress :: nat
  ra_flush :: "flush_pass list"
  ra_clock :: clock

definition relay_whole :: "relay_answers \<Rightarrow> relay \<Rightarrow> (unit, relay_failure) res option" where
  "relay_whole a r =
     (case ra_nonblocking a of
        Err e \<Rightarrow> Some (Err (RelaySystem e))
      | Ok _ \<Rightarrow>
          (case ra_worker a of
             Err e \<Rightarrow> Some (Err (RelaySystem e))
           | Ok _ \<Rightarrow>
               (case fst (relay_loop (ra_polls a) r) of
                  None \<Rightarrow> None
                | Some (Err e) \<Rightarrow> Some (Err (RelayMoving e))
                | Some (Ok _) \<Rightarrow>
                    (case fst (finish (ra_blocking a) (ra_progress a) (ra_flush a) (ra_clock a)) of
                       None \<Rightarrow> None
                     | Some (Ok _) \<Rightarrow> Some (Ok ())
                     | Some (Err f) \<Rightarrow> Some (Err (RelayFlushing f))))))"

section \<open>\<open>run\<close>\<close>

text \<open>\<open>SessionPaths::new\<close>: no directory to name, or \<open>in_dir\<close>'s refusal, which is \<open>InvalidInput\<close>.\<close>

definition session_paths_new :: "(bytes \<Rightarrow> bytes option) \<Rightarrow> bytes \<Rightarrow> (session_paths, id_refusal option) res" where
  "session_paths_new env sid =
     (case run_dir env of
        None \<Rightarrow> Err None
      | Some dir \<Rightarrow> (case in_dir dir sid of Ok p \<Rightarrow> Ok p | Err e \<Rightarrow> Err (Some e)))"

datatype run_error = Usage id_refusal | Classified failure_class

text \<open>The two ways to a stream, each with what it meets.\<close>

datatype intent =
  Create create_answers files
| Resume "bytes list \<Rightarrow> (fmeta, errno) res" dir_answers clock "os_connect list"

definition reach_session :: "u32 \<Rightarrow> intent \<Rightarrow> session_paths \<Rightarrow> (peer, failure_class) res" where
  "reach_session us way p =
     (case way of
        Create a fs \<Rightarrow> snd (snd (create us a p fs))
      | Resume lstat a ck s \<Rightarrow> resume us lstat a p ck s)"

definition run_relay ::
  "u32 \<Rightarrow> (bytes \<Rightarrow> bytes option) \<Rightarrow> bytes \<Rightarrow> intent \<Rightarrow> (unit, relay_failure) res option
     \<Rightarrow> (unit, run_error) res option" where
  "run_relay us env sid way relayed =
     (case session_paths_new env sid of
        Err None \<Rightarrow> Some (Err (Classified UnsafeHost))
      | Err (Some e) \<Rightarrow> Some (Err (Usage e))
      | Ok p \<Rightarrow>
          (case reach_session us way p of
             Err c \<Rightarrow> Some (Err (Classified c))
           | Ok _ \<Rightarrow>
               map_option (\<lambda>r. case r of Ok _ \<Rightarrow> Ok () | Err _ \<Rightarrow> Err (Classified PostConnect)) relayed))"

text \<open>\<open>report_relay\<close>: the machine-readable record, if there is one, and the exit status.\<close>

definition report_relay :: "(unit, run_error) res \<Rightarrow> bytes \<times> nat" where
  "report_relay r =
     (case r of
        Ok _ \<Rightarrow> ([], 0)
      | Err (Usage _) \<Rightarrow> ([], reported (Err True) EXIT_USAGE)
      | Err (Classified c) \<Rightarrow> (ascii ''NOMUX-RELAY-ERROR 1 '' @ failure_token c @ [10], failure_exit c))"

section \<open>What the status says\<close>

lemmas failure_simps =
  failure_exit_def failure_token_def EXIT_UNATTACHABLE_def EXIT_NO_SESSION_def EXIT_USAGE_def reported_def

lemma failure_token_inj: "failure_token c = failure_token c' \<longleftrightarrow> c = c'"
  by (cases c; cases c') (simp_all add: failure_token_def ascii_def)

lemma resume_classes:
  assumes "resume us lstat a p ck s = Err c"
  shows "c \<in> {UnsafeHost, MissingSession, Retryable, Uncertain}"
    "c = MissingSession \<Longrightarrow>
       check_run_dir us lstat a (path_parts (sp_dir p)) = Ok None \<or> proved_free s"
  using assms probe_free [where us = us and path = "sp_socket p" and within = CONNECT_TIMEOUT and ck = ck and s = s]
  by (auto simp: resume_def resume_probe_class_def split: res.splits option.splits liveness.splits
      connect_error.splits if_splits)

lemma await_bound_class: "await_bound us socket deadline ck probes bodies k = Err c \<Longrightarrow> c = Uncertain"
  using await_bound_cases [where us = us and socket = socket and deadline = deadline and ck = ck
      and probes = probes and bodies = bodies and k = k] by simp

lemma probe_stale_free: "probe us path within ck s = (LvStale e, ck') \<Longrightarrow> proved_free s"
  using probe_free [where us = us and path = path and within = within and ck = ck and s = s] by simp

lemma create_classes:
  assumes "snd (snd (create us a p fs)) = Err c"
  shows "c \<in> {UnsafeHost, Retryable, Collision, Uncertain, StartupFailure} \<and>
    (c = StartupFailure \<longrightarrow> proved_free (cr_free a))"
  using assms
  by (auto simp: create_def Let_def dest: await_bound_class probe_stale_free
      split: res.splits prod.splits liveness.splits if_splits)

lemma failure_exit_cases:
  "failure_exit c = 126 \<longleftrightarrow> c \<in> {Collision, Retryable, UnsafeHost, Uncertain}"
  "failure_exit c = 127 \<longleftrightarrow> c \<in> {MissingSession, StartupFailure}"
  "failure_exit c = 1 \<longleftrightarrow> c = PostConnect"
  by (cases c, simp_all add: failure_simps)+

text \<open>What is known of an id that the status 127 is given for.\<close>

definition absent :: "session_paths \<Rightarrow> u32 \<Rightarrow> intent \<Rightarrow> bool" where
  "absent p us way \<longleftrightarrow>
     (case way of
        Create a fs \<Rightarrow> proved_free (cr_free a)
      | Resume lstat a ck s \<Rightarrow> check_run_dir us lstat a (path_parts (sp_dir p)) = Ok None \<or> proved_free s)"

lemma reach_session_classes:
  assumes "reach_session us way p = Err c"
  shows "c \<noteq> PostConnect \<and> (failure_exit c = 127 \<longrightarrow> absent p us way)"
proof (cases way)
  case (Create a fs)
  then show ?thesis
    using assms create_classes [of us a p fs c]
    by (auto simp: reach_session_def absent_def failure_exit_cases)
next
  case (Resume lstat a ck s)
  then show ?thesis
    using assms resume_classes [of us lstat a p ck s c]
    by (auto simp: reach_session_def absent_def failure_exit_cases)
qed

text \<open>
  C36. The exit status of \<open>spawn\<close> and \<open>attach\<close> tells a client what happened to its session.  It is 0 exactly
  where the session was reached and the relay ended well; 64, and no record, exactly where the id
  can name no session; 1 exactly where the session had been reached and the relay failed; 127
  only where nothing is serving the id, for want of a directory or by a \<open>connect\<close> that was refused or found no
  name; and 126 otherwise.  Every other failure carries a record, and no two classes have the same one.
\<close>

theorem exit_status_tells:
  "case run_relay us env sid way relayed of
     None \<Rightarrow> relayed = None
   | Some r \<Rightarrow>
       (case report_relay r of (record, status) \<Rightarrow>
          status \<in> {0, 1, 64, 126, 127} \<and>
          (status = 0 \<longleftrightarrow> relayed = Some (Ok ()) \<and>
             (\<exists>p stream. session_paths_new env sid = Ok p \<and> reach_session us way p = Ok stream)) \<and>
          (status = 64 \<longleftrightarrow> (\<exists>e. session_paths_new env sid = Err (Some e))) \<and>
          (status = 1 \<longleftrightarrow> (\<exists>p stream f. session_paths_new env sid = Ok p \<and>
             reach_session us way p = Ok stream \<and> relayed = Some (Err f))) \<and>
          (if status = 127 then \<exists>p. session_paths_new env sid = Ok p \<and> absent p us way else True) \<and>
          (if status \<in> {0, 64} then record = []
           else \<exists>!c. record = fst (report_relay (Err (Classified c)))))"
proof -
  have unique: "\<exists>!c'. fst (report_relay (Err (Classified c))) = fst (report_relay (Err (Classified c')))" for c
    by (rule ex1I [of _ c]) (simp_all add: report_relay_def failure_token_inj)
  have status: "snd (report_relay (Err (Classified c))) = failure_exit c"
    "failure_exit c \<in> {1, 126, 127}" for c
    by (simp add: report_relay_def) (cases c; simp add: failure_simps)
  show ?thesis
  proof (cases "session_paths_new env sid")
    case (Err e)
    then show ?thesis
      using unique [of UnsafeHost] by (cases e) (auto simp: run_relay_def report_relay_def failure_simps)
  next
    case paths: (Ok p)
    show ?thesis
    proof (cases "reach_session us way p")
      case (Err c)
      show ?thesis
        using reach_session_classes [OF Err] status [of c] unique [of c] failure_exit_cases(3) [of c]
        by (cases "report_relay (Err (Classified c))") (auto simp: run_relay_def paths Err)
    next
      case (Ok stream)
      show ?thesis
      proof (cases relayed)
        case None
        then show ?thesis using paths Ok by (simp add: run_relay_def)
      next
        case (Some r)
        then show ?thesis
          using paths Ok unique [of PostConnect]
          by (cases r) (auto simp: run_relay_def report_relay_def failure_simps)
      qed
    qed
  qed
qed

end
