(* ===== verification/Login_Shell.thy ===== *)
theory Login_Shell
  imports Pty Exec
begin

text \<open>
  The session's child, after \<open>Pty::spawn\<close> in src/crates/nomux/src/pty.rs: the program and the environment it is
  started with, and the descriptors it is left with.
\<close>

record spawn_config =
  sc_term :: bytes
  sc_session :: bytes
  sc_cwd :: bytes
  sc_agent :: "bytes option"

text \<open>The program, of the shell the user's \<open>SHELL\<close> leads to.\<close>

definition shell_program ::
  "(bytes \<Rightarrow> bool) \<Rightarrow> (bytes \<Rightarrow> bool) \<Rightarrow> bytes option \<Rightarrow> spawn_config \<Rightarrow> (exec_program, spawn_failure) res" where
  "shell_program is_file executable shell config =
     (case pick_shell is_file executable shell of (shell, argv0) \<Rightarrow>
        and_then (program_new shell argv0) (\<lambda>p.
        and_then (current_dir (sc_cwd config) p) (\<lambda>p.
        and_then (program_env (ascii ''TERM'') (sc_term config) p) (\<lambda>p.
        and_then (program_env (ascii ''NOMUX_SESSION'') (sc_session config) p) (\<lambda>p.
          case sc_agent config of
            None \<Rightarrow> Ok p
          | Some sock \<Rightarrow> program_env (ascii ''SSH_AUTH_SOCK'') sock p)))))"

text \<open>
  What runs in the child ahead of the placements: a session of its own, the slave as its controlling
  terminal, and every signal back to its default.  None of it touches a descriptor.
\<close>

definition shell_in_child ::
  "(unit, errno) res \<Rightarrow> (unit, errno) res \<Rightarrow> nat list \<Rightarrow> fdtable \<Rightarrow> (fdtable, errno) res" where
  "shell_in_child new_session controlling stdio t = and_then new_session (\<lambda>_. and_then controlling (\<lambda>_. Ok t))"

definition shell_fds :: "nat \<Rightarrow> nat \<Rightarrow> nat \<Rightarrow> nat \<Rightarrow> fdtable \<Rightarrow> (ready_fds \<times> fdtable, spawn_failure) res" where
  "shell_fds lim r w slave t = spawn_fds lim r w slave slave slave t"

lemma pick_shell_absolute:
  assumes "pick_shell is_file executable shell = (path, argv0)"
  shows "is_absolute path" "argv0 \<noteq> [] \<and> hd argv0 = 45" "path = bin_sh \<or> shell = Some path \<and> is_file path \<and> executable path"
  using assms
  by (auto simp: pick_shell_def Let_def bin_sh_def is_absolute_def split: option.splits if_splits)

lemma shell_program_steps:
  assumes "shell_program is_file executable shell config = Ok p"
    and "pick_shell is_file executable shell = (path, argv0)"
  obtains p0 p1 p2 p3 where "program_new path argv0 = Ok p0" "current_dir (sc_cwd config) p0 = Ok p1"
    "program_env (ascii ''TERM'') (sc_term config) p1 = Ok p2"
    "program_env (ascii ''NOMUX_SESSION'') (sc_session config) p2 = Ok p3"
    "(case sc_agent config of None \<Rightarrow> Ok p3 | Some sock \<Rightarrow> program_env (ascii ''SSH_AUTH_SOCK'') sock p3) = Ok p"
  using assms by (auto simp: shell_program_def and_then_eq_Ok)

lemma program_env_keeps:
  "program_env key val p = Ok q \<Longrightarrow> pr_path q = pr_path p \<and> pr_args q = pr_args p \<and> pr_dir q = pr_dir p"
  by (drule program_env_Ok(5)) simp

lemma shell_program_env:
  assumes "shell_program is_file executable shell config = Ok p"
  shows "getenv (ascii ''TERM'') (environment block (pr_overrides p)) = Some (sc_term config)"
    "getenv (ascii ''NOMUX_SESSION'') (environment block (pr_overrides p)) = Some (sc_session config)"
    "getenv (ascii ''SSH_AUTH_SOCK'') (environment block (pr_overrides p)) =
       (case sc_agent config of Some sock \<Rightarrow> Some sock | None \<Rightarrow> getenv (ascii ''SSH_AUTH_SOCK'') block)"
    "k \<notin> {ascii ''TERM'', ascii ''NOMUX_SESSION'', ascii ''SSH_AUTH_SOCK''} \<Longrightarrow>
       getenv k (environment block (pr_overrides p)) = getenv k block"
proof -
  obtain path argv0 where shell: "pick_shell is_file executable shell = (path, argv0)"
    by (cases "pick_shell is_file executable shell")
  obtain p0 p1 p2 p3 where steps: "program_new path argv0 = Ok p0" "current_dir (sc_cwd config) p0 = Ok p1"
    "program_env (ascii ''TERM'') (sc_term config) p1 = Ok p2"
    "program_env (ascii ''NOMUX_SESSION'') (sc_session config) p2 = Ok p3"
    "(case sc_agent config of None \<Rightarrow> Ok p3 | Some sock \<Rightarrow> program_env (ascii ''SSH_AUTH_SOCK'') sock p3) = Ok p"
    using shell_program_steps [OF assms shell] .
  have "pr_overrides p1 = []"
    using steps(1,2) by (auto simp: program_new_def current_dir_def and_then_eq_Ok)
  then have p3: "getenv key (pr_overrides p3) = (if key = ascii ''NOMUX_SESSION'' then Some (sc_session config)
      else if key = ascii ''TERM'' then Some (sc_term config) else None)" for key
    using getenv_program_env [OF steps(3)] getenv_program_env [OF steps(4)] by simp
  have p: "getenv key (pr_overrides p) = (case sc_agent config of
      Some sock \<Rightarrow> if key = ascii ''SSH_AUTH_SOCK'' then Some sock else getenv key (pr_overrides p3)
    | None \<Rightarrow> getenv key (pr_overrides p3))" for key
    using steps(5) getenv_program_env [of "ascii ''SSH_AUTH_SOCK''" _ p3 p] by (cases "sc_agent config") auto
  have names: "ascii ''TERM'' \<noteq> ascii ''NOMUX_SESSION''" "ascii ''TERM'' \<noteq> ascii ''SSH_AUTH_SOCK''"
    "ascii ''NOMUX_SESSION'' \<noteq> ascii ''SSH_AUTH_SOCK''"
    by (simp_all add: ascii_def)
  show "getenv (ascii ''TERM'') (environment block (pr_overrides p)) = Some (sc_term config)"
    "getenv (ascii ''NOMUX_SESSION'') (environment block (pr_overrides p)) = Some (sc_session config)"
    "getenv (ascii ''SSH_AUTH_SOCK'') (environment block (pr_overrides p)) =
       (case sc_agent config of Some sock \<Rightarrow> Some sock | None \<Rightarrow> getenv (ascii ''SSH_AUTH_SOCK'') block)"
    using names names [symmetric] by (simp_all add: getenv_environment p p3 split: option.split)
  show "getenv k (environment block (pr_overrides p)) = getenv k block"
    if "k \<notin> {ascii ''TERM'', ascii ''NOMUX_SESSION'', ascii ''SSH_AUTH_SOCK''}"
    using that by (simp add: getenv_environment p p3 split: option.split)
qed

text \<open>
  C30. The shell of a session gets the terminal and its environment, and nothing of the daemon's.  It is a login
  shell at an absolute path, \<open>/bin/sh\<close> unless the user's own is an executable file; its 0, 1 and 2 are the
  terminal, and where everything above the daemon's own three is close-on-exec no other descriptor
  crosses; it reads the terminal type and the session's name, the agent socket where there is one instead of any
  that was inherited, and every other variable as the daemon had it.
\<close>

theorem shell_gets_the_terminal_only:
  assumes "shell_program is_file executable shell config = Ok p"
    and "shell_fds lim r w slave t = Ok (rf, tp)" and "t slave = Some (pts, c)"
    and "\<forall>n f. t n = Some (f, False) \<longrightarrow> n \<le> 2"
    and "prepare (shell_in_child new_session controlling) ans (rf_stdio rf) (pr_dir p) tp = Replaced started"
  shows "started = [0 \<mapsto> (pts, False), 1 \<mapsto> (pts, False), 2 \<mapsto> (pts, False)] \<and>
    (pr_path p = bin_sh \<or> shell = Some (pr_path p) \<and> is_file (pr_path p) \<and> executable (pr_path p)) \<and>
    is_absolute (pr_path p) \<and> (\<exists>name. pr_args p = [45 # name]) \<and> pr_dir p = Some (sc_cwd config) \<and>
    getenv k (environment block (pr_overrides p)) =
      (if k = ascii ''TERM'' then Some (sc_term config)
       else if k = ascii ''NOMUX_SESSION'' then Some (sc_session config)
       else if k = ascii ''SSH_AUTH_SOCK'' \<and> sc_agent config \<noteq> None then sc_agent config
       else getenv k block)"
proof -
  have fds: "spawn_fds lim r w slave slave slave t = Ok (rf, tp)" using assms(2) by (simp add: shell_fds_def)
  obtain i o' d where rf: "rf_stdio rf = [i, o', d]"
    "tp = t(i \<mapsto> (pts, True), o' \<mapsto> (pts, True), d \<mapsto> (pts, True), rf_report rf \<mapsto> (r, True), rf_fail rf \<mapsto> (w, True))"
    using spawn_fds_Ok [OF fds assms(3) assms(3) assms(3)] by metis
  have in_child: "shell_in_child new_session controlling (rf_stdio rf) tp = Ok tp"
    using assms(5) by (cases new_session; cases controlling) (simp_all add: prepare_def shell_in_child_def)
  note table = child_gets_its_stdio [OF fds assms(3) assms(3) assms(3) in_child _ assms(5)]
  have "started n = None" if "2 < n" for n
  proof -
    have "tp n = None \<or> (\<exists>f. tp n = Some (f, True))"
    proof (cases "tp n")
      case (Some e)
      moreover have "\<nexists>f. t n = Some (f, False)" using assms(4) that by (metis not_le)
      ultimately show ?thesis by (cases e) (auto simp: rf(2) split: if_splits)
    qed simp
    moreover have "started n = (case tp n of Some (f, True) \<Rightarrow> None | d \<Rightarrow> d)"
      using table that by (simp add: not_le)
    ultimately show ?thesis by auto
  qed
  then have alone: "started = [0 \<mapsto> (pts, False), 1 \<mapsto> (pts, False), 2 \<mapsto> (pts, False)]"
    using table by (auto simp: fun_eq_iff)
  obtain path argv0 where shell: "pick_shell is_file executable shell = (path, argv0)"
    by (cases "pick_shell is_file executable shell")
  obtain p0 p1 p2 p3 where steps: "program_new path argv0 = Ok p0" "current_dir (sc_cwd config) p0 = Ok p1"
    "program_env (ascii ''TERM'') (sc_term config) p1 = Ok p2"
    "program_env (ascii ''NOMUX_SESSION'') (sc_session config) p2 = Ok p3"
    "(case sc_agent config of None \<Rightarrow> Ok p3 | Some sock \<Rightarrow> program_env (ascii ''SSH_AUTH_SOCK'') sock p3) = Ok p"
    using shell_program_steps [OF assms(1) shell] .
  have "pr_path p1 = path \<and> pr_args p1 = [argv0] \<and> pr_dir p1 = Some (sc_cwd config)"
    using steps(1,2) by (auto simp: program_new_def current_dir_def nul_terminated_def split: if_splits)
  moreover have "pr_path p = pr_path p3 \<and> pr_args p = pr_args p3 \<and> pr_dir p = pr_dir p3"
    using steps(5) by (cases "sc_agent config") (auto dest: program_env_keeps)
  ultimately have prog: "pr_path p = path \<and> pr_args p = [argv0] \<and> pr_dir p = Some (sc_cwd config)"
    using program_env_keeps [OF steps(3)] program_env_keeps [OF steps(4)] by simp
  have env: "getenv k (environment block (pr_overrides p)) =
      (if k = ascii ''TERM'' then Some (sc_term config)
       else if k = ascii ''NOMUX_SESSION'' then Some (sc_session config)
       else if k = ascii ''SSH_AUTH_SOCK'' \<and> sc_agent config \<noteq> None then sc_agent config
       else getenv k block)"
    using shell_program_env [OF assms(1)] by (cases "k = ascii ''SSH_AUTH_SOCK''") (auto split: option.split)
  show ?thesis
    using alone prog env pick_shell_absolute [OF shell] by (cases argv0) auto
qed

text \<open>A daemon whose ring of descriptors has a close-on-exec 5, and an inherited \<open>TERM\<close>.\<close>

theorem shell_gets_the_terminal_only_witness:
  "case shell_program (\<lambda>_. True) (\<lambda>_. True) None \<lparr>sc_term = ascii ''vt'', sc_session = ascii ''s'',
       sc_cwd = ascii ''/'', sc_agent = None\<rparr> of
     Err _ \<Rightarrow> False
   | Ok p \<Rightarrow>
       prepare (shell_in_child (Ok ()) (Ok ())) \<lparr>ca_dups = [], ca_chdir = Ok (), ca_exec = None\<rparr> [3, 6, 7] (pr_dir p)
         [0 \<mapsto> (70, False), 1 \<mapsto> (70, False), 2 \<mapsto> (70, False), 4 \<mapsto> (74, True), 5 \<mapsto> (75, True), 3 \<mapsto> (74, True),
          6 \<mapsto> (74, True), 7 \<mapsto> (74, True), 8 \<mapsto> (63, True), 10 \<mapsto> (64, True)]
         = Replaced [0 \<mapsto> (74, False), 1 \<mapsto> (74, False), 2 \<mapsto> (74, False)] \<and>
       getenv (ascii ''TERM'') (environment [ascii ''TERM=old''] (pr_overrides p)) = Some (ascii ''vt'')"
proof -
  let ?cfg = "\<lparr>sc_term = ascii ''vt'', sc_session = ascii ''s'', sc_cwd = ascii ''/'', sc_agent = None\<rparr>"
  let ?t = "[0 \<mapsto> (70, False), 1 \<mapsto> (70, False), 2 \<mapsto> (70, False), 4 \<mapsto> (74, True), 5 \<mapsto> (75, True)] :: fdtable"
  let ?tp = "?t(3 \<mapsto> (74, True), 6 \<mapsto> (74, True), 7 \<mapsto> (74, True), 8 \<mapsto> (63, True), 10 \<mapsto> (64, True))"
  let ?rf = "\<lparr>rf_stdio = [3, 6, 7], rf_report = 8, rf_fail = 10\<rparr>"
  let ?ans = "\<lparr>ca_dups = [], ca_chdir = Ok (), ca_exec = None\<rparr>"
  have pick: "pick_shell (\<lambda>_. True) (\<lambda>_. True) None = (bin_sh, [45, 115, 104])" by code_simp
  obtain p where p: "shell_program (\<lambda>_. True) (\<lambda>_. True) None ?cfg = Ok p" "pr_dir p = Some (ascii ''/'')"
    by (simp add: shell_program_def pick program_new_def current_dir_def program_env_def nul_terminated_def
        ascii_def bin_sh_def key_of_def)
  have fds: "shell_fds 20 63 64 4 ?t = Ok (?rf, ?tp)"
    by (simp add: shell_fds_def spawn_fds_def above_stdio_def make_pipe_def lowest_free_def upt_rec fun_eq_iff)
  obtain started where started: "prepare (shell_in_child (Ok ()) (Ok ())) ?ans (rf_stdio ?rf) (pr_dir p) ?tp = Replaced started"
    by (simp add: prepare_def shell_in_child_def p)
  have "started = [0 \<mapsto> (74, False), 1 \<mapsto> (74, False), 2 \<mapsto> (74, False)] \<and>
      getenv (ascii ''TERM'') (environment [ascii ''TERM=old''] (pr_overrides p)) = Some (ascii ''vt'')"
    using shell_gets_the_terminal_only [OF p(1) fds _ _ started, of 74 True "ascii ''TERM''" "[ascii ''TERM=old'']"]
    by simp
  then show ?thesis using started by (simp add: p(1))
qed

end
