(* ===== verification/Spec2Isabelle.thy ===== *)
theory Spec2Isabelle
  imports Daemon_Output Pty_Props Start Handoff Modes Login_Shell
begin

text \<open>
  nomux: a terminal session that outlives its connection.

  A \<^emph>\<open>daemon\<close> per session owns a pseudo-terminal and a bounded ring of its output and
  serves one client at a time over a unix socket in a private \<^emph>\<open>run directory\<close>; an
  \<^emph>\<open>attach\<close> relays that socket to its own standard streams; \<^emph>\<open>control\<close> commands list
  sessions and remove them.  The theories model the program of src/crates/nomux/src, file by file,
  as functions: a Rust struct is a record with its fields' names, an enum a datatype, a method the
  function of its name (prefixed where several types share it), \<open>io::Result\<close> the type \<open>res\<close>.

  \<^bold>\<open>The world.\<close>  Nothing about the operating system is assumed beyond the types of its answers.
  A descriptor is a record \<open>dev\<close> of scripts, what each later read and write will answer (Nbio);
  so is a listener, a run of \<open>connect\<close>s (Usock), a directory listing (RunDir), and the clock, which
  never goes backwards and may advance at every look (Prelude).  Theorems quantify over the
  scripts, so every order of short reads, signals, errors and delays is covered.  A script that
  has run out answers \<open>EAGAIN\<close>; files are a map from paths to nodes (RunFiles); descriptor numbers a
  table (Exec).

  \<^bold>\<open>Theories, in the order of the code's layers.\<close>
  \<^item> Prelude: results, integers read from bytes, the clock, and general lemmas; Utf8, Parse: the part
    of the standard library the program leans on (UTF-8 both ways, decimal numbers, trimming, splitting);
    Paths: \<open>Path\<close>.
  \<^item> Wire (lib.rs): constants, discriminants, headers.  Frame, Frame_Codec (frame.rs): \<open>Frame::encode\<close> and
    \<open>Frame::decode\<close>, their round trip, canonicity of what decodes (C1, C2),
    and what encoding refuses.
  \<^item> Ring (ring.rs): the window of output, refined against the whole output ever pushed (C3).
  \<^item> Nbio (nbio.rs): reads, and the loop that writes a queue out.
  \<^item> Conn, Conn_Props (conn.rs): one client's queues.  What leaves is what was sent, in order, and what is
    decoded is what arrived, whatever the fragmentation (C4, C5).
  \<^item> Usock (usock.rs): peers, addresses and the bounded connect; what a probe may conclude (C6, C7).
  \<^item> Agent, Agent_Props (agent.rs): the one forwarded agent channel (C8).
  \<^item> Pty, Pty_Props (pty.rs): sizes, the child's outcome, the process table and the teardown, which reaches nobody
    outside the session (C15).
  \<^item> Daemon (daemon.rs): the whole state behind \<open>start\<close> and every handler of its loop.  Daemon_Untouched
    collects what each handler leaves alone; Daemon_Props the invariant and the memory bound
    (C9); Daemon_Input input, greeting and resuming (C10 to C12); Daemon_Output output, exit, the child's outcome,
    timeouts and stopping (C13 to C16).
  \<^item> Sanitize (sanitize.rs): labels and log lines (C17).
  \<^item> RunDir, RunDir_Props, RunFiles (rundir.rs): names, listing and removal (C18), the pidfile and the label
    through interrupted writes and short reads (C19, C20).
  \<^item> SpawnLock (rundir.rs): the loop that takes \<open><id>.lock\<close> as a function of its answers (C21), and,
    call by call, as a step relation of any number of processes: it excludes (C22) as long as nobody plants a
    foreign node at the name, and does not once somebody does (C23).
  \<^item> Trust (rundir.rs): who can redirect the run directory (C24).
  \<^item> Start (daemon.rs): taking an id over, publishing it, and failing cleanly (C25, C26).
  \<^item> Exec (exec.rs): a program's arguments and environment, its descriptors through the fork, and how a child
    that never became its program is reported.  Login_Shell (pty.rs): the session's shell, what it is given
    and what it is not (C30).
  \<^item> Startup (startup.rs): inherited descriptors, the controlling terminal, the standard streams.  Handoff (attach.rs):
    the daemon's launch across fork, exec and start-up, down to the descriptors it holds (C29).
  \<^item> Cli (main.rs): the command line against a grammar of its own (C27).  Cmdline: the one command line that
    \<open>spawn\<close> writes, the daemon parses and \<open>list\<close> and \<open>kill\<close> recognise (C28).
  \<^item> Attach (attach.rs): \<open>attach\<close> and \<open>spawn\<close> up to the stream they relay (C31).  Relay: the pumps, one pass over
    what \<open>poll\<close> reports, and the loop, a step whose invariant is the two streams (C32, C33).
    Stdout_Worker: the thread behind standard output and the wait for it (C34, C35).  Modes: both modes from
    the id to the exit status and its record (C36).
  \<^item> Control, Control_Props (control.rs): whose a command line is, \<open>kill\<close> and \<open>list\<close> (C37 to C40).

  \<^bold>\<open>Interfaces.\<close>  What one layer needs of another is a locale, interpreted in the provider's
  theory on the model's own definitions; the properties rest on the interpretations.

  \<^bold>\<open>Bounds and fuel.\<close>  Loops that walk a script recurse on it.  Loops against a deadline are functions
  whose termination is proved by the distance of the clock from it.  \<open>drain_pipe\<close> alone takes fuel,
  \<open>pipe_fuel\<close>, one more than the answers left in the pipe's script, and every turn uses one.  \<open>event_loop\<close>,
  \<open>relay_loop\<close>, \<open>worker_run\<close> and \<open>finish_loop\<close> run over the list of what each \<open>poll\<close>, or each pass, will meet, one
  element a turn; a loop still waiting when the list runs out is \<open>None\<close>.

  \<^bold>\<open>Not modelled.\<close>  The system calls themselves: what \<open>fork\<close>, \<open>execve\<close>, \<open>poll\<close>, \<open>openpt\<close> or \<open>close_range\<close>
  answer is an argument, and their effect on the process's own tables is what POSIX says of them.  Arming the signal handlers, the
  signal mask and the reaping of children leave no state of the program behind.  The wording of error
  messages and of the usage text, logging, allocation capacities and the umask guard have no part in the
  properties.  The relay's two threads meet only in the channel between them, whose two ends are modelled
  apart.  scratch.rs, the fuzz targets and the end-to-end probe are test support.
\<close>

end
